(* ===== verification/Sysv_Prelude.thy ===== *)
theory Sysv_Prelude
  imports Main "HOL-Library.Word" "HOL-Library.Sublist"
begin

text \<open>
  Shared ground of the development: the C values the sources compute with (characters, the numbers of signals, the
  \<^verbatim>\<open>errno\<close> codes, 64-bit unsigned integers), the parts of the C library they call
  (\<^verbatim>\<open>ctype\<close> tests, decimal output of \<^verbatim>\<open>printf\<close>, the \<^verbatim>\<open>strto*\<close> family,
  case-insensitive comparison), and the generic facts on lists and numbers that the component
  theories use. A NUL-terminated C string is a \<^typ>\<open>string\<close> without the terminator; a pointer that
  walks over such a string is the suffix that is still to be read.
\<close>

section \<open>Collections\<close>

named_theorems ctype_simps \<open>definitions of the character classes\<close>
named_theorems table_laws \<open>laws of hash tables in rewriting form\<close>

section \<open>C values\<close>

type_synonym u64 = "64 word"

abbreviation NUL :: char where "NUL \<equiv> CHR 0x00"
abbreviation TAB :: char where "TAB \<equiv> CHR 0x09"
abbreviation NL :: char where "NL \<equiv> CHR 0x0A"
abbreviation SPACE :: char where "SPACE \<equiv> CHR 0x20"

text \<open>The \<^verbatim>\<open>errno\<close> values the sources set or test; \<open>EOK\<close> is the value 0.\<close>

datatype errno =
    EOK | EINVAL | ERANGE | ENOENT | EEXIST | ESRCH | ECHILD | EAGAIN | ETIMEDOUT
  | EPERM | EPROTO | ECONNREFUSED | ECONNRESET | ENAMETOOLONG | EOVERFLOW | ENOTDIR | EINTR
  | EIO | EPIPE | ECOMM | EBADF | EOTHER nat

text \<open>
  The outcome of C code that may run into undefined behaviour (a use of freed memory, a
  corrupted container): \<open>UB\<close> is the absence of any guarantee.
\<close>

datatype 'a outcome = Defined 'a | UB

definition obind :: "'a outcome \<Rightarrow> ('a \<Rightarrow> 'b outcome) \<Rightarrow> 'b outcome" where
  "obind m f = (case m of Defined x \<Rightarrow> f x | UB \<Rightarrow> UB)"

lemma obind_simps [simp]: "obind (Defined x) f = f x" "obind UB f = UB"
  by (simp_all add: obind_def)

lemma obindE:
  assumes "obind m f = Defined y"
  obtains x where "m = Defined x" "f x = Defined y"
  using assms by (cases m) simp_all

lemma obindE_prod:
  assumes "obind m f = Defined y"
  obtains a b where "m = Defined (a, b)" "f (a, b) = Defined y"
  using assms by (cases m) auto

text \<open>The numbers of the signals that the sources name.\<close>

definition SIGHUP :: int where "SIGHUP = 1"
definition SIGINT :: int where "SIGINT = 2"
definition SIGKILL :: int where "SIGKILL = 9"
definition SIGPIPE :: int where "SIGPIPE = 13"
definition SIGTERM :: int where "SIGTERM = 15"
definition SIGCHLD :: int where "SIGCHLD = 17"
definition SIGCONT :: int where "SIGCONT = 18"

section \<open>Character classes\<close>

definition isblank :: "char \<Rightarrow> bool" where
  [ctype_simps]: "isblank c \<longleftrightarrow> c = SPACE \<or> c = TAB"

definition isspace :: "char \<Rightarrow> bool" where
  [ctype_simps]: "isspace c \<longleftrightarrow> c = SPACE \<or> (9 \<le> (of_char c :: nat) \<and> (of_char c :: nat) \<le> 13)"

definition isdigit :: "char \<Rightarrow> bool" where
  [ctype_simps]: "isdigit c \<longleftrightarrow> 48 \<le> (of_char c :: nat) \<and> (of_char c :: nat) \<le> 57"

definition isupper :: "char \<Rightarrow> bool" where
  [ctype_simps]: "isupper c \<longleftrightarrow> 65 \<le> (of_char c :: nat) \<and> (of_char c :: nat) \<le> 90"

definition islower :: "char \<Rightarrow> bool" where
  [ctype_simps]: "islower c \<longleftrightarrow> 97 \<le> (of_char c :: nat) \<and> (of_char c :: nat) \<le> 122"

definition isalpha :: "char \<Rightarrow> bool" where
  [ctype_simps]: "isalpha c \<longleftrightarrow> islower c \<or> isupper c"

definition isprint :: "char \<Rightarrow> bool" where
  [ctype_simps]: "isprint c \<longleftrightarrow> 32 \<le> (of_char c :: nat) \<and> (of_char c :: nat) \<le> 126"

definition tolower :: "char \<Rightarrow> char" where
  "tolower c = (if isupper c then char_of (of_char c + 32 :: nat) else c)"

text \<open>\<^verbatim>\<open>strcasecmp (a, b) == 0\<close> in the C locale.\<close>

definition strcaseeq :: "string \<Rightarrow> string \<Rightarrow> bool" where
  "strcaseeq a b \<longleftrightarrow> map tolower a = map tolower b"

section \<open>Numbers as text\<close>

definition digit_char :: "nat \<Rightarrow> char" where
  "digit_char n = ''0123456789'' ! n"

definition digit_val :: "char \<Rightarrow> nat" where
  "digit_val c = of_char c - 48"

text \<open>The conversion \<^verbatim>\<open>%llu\<close> (and \<^verbatim>\<open>%u\<close>) of \<^verbatim>\<open>printf\<close>.\<close>

fun decimal :: "nat \<Rightarrow> string" where
  "decimal n = (if n < 10 then [digit_char n]
                else decimal (n div 10) @ [digit_char (n mod 10)])"

declare decimal.simps [simp del]

definition digits_val :: "nat \<Rightarrow> string \<Rightarrow> nat" where
  "digits_val b ds = foldl (\<lambda>a c. a * b + digit_val c) 0 ds"

definition is_digit_in :: "nat \<Rightarrow> char \<Rightarrow> bool" where
  "is_digit_in b c \<longleftrightarrow> isdigit c \<and> digit_val c < b"

text \<open>
  The subject sequence that the \<^verbatim>\<open>strto*\<close> functions recognise for a base of at most ten:
  white space, an optional sign, digits. The result is the sign, the magnitude and the unread
  rest, or \<open>None\<close> when there is no digit (the end pointer is then the start of the string).
\<close>

definition scan_int :: "nat \<Rightarrow> string \<Rightarrow> (bool \<times> nat \<times> string) option" where
  "scan_int b s =
     (let s1 = dropWhile isspace s;
          neg = (s1 \<noteq> [] \<and> hd s1 = CHR ''-'');
          s2 = (if s1 \<noteq> [] \<and> (hd s1 = CHR ''-'' \<or> hd s1 = CHR ''+'') then tl s1 else s1);
          ds = takeWhile (is_digit_in b) s2
      in if ds = [] then None
         else Some (neg, digits_val b ds, dropWhile (is_digit_in b) s2))"

text \<open>
  \<^verbatim>\<open>strtoumax\<close> and \<^verbatim>\<open>strtoul\<close> on a platform with 64-bit \<^verbatim>\<open>long\<close>: the value, the
  unread rest and the new \<^verbatim>\<open>errno\<close>. A magnitude out of range gives the largest value and
  \<open>ERANGE\<close>; otherwise \<^verbatim>\<open>errno\<close> is left alone.
\<close>

definition strtou64 :: "nat \<Rightarrow> string \<Rightarrow> errno \<Rightarrow> u64 \<times> string \<times> errno" where
  "strtou64 b s e =
     (case scan_int b s of
        None \<Rightarrow> (0, s, e)
      | Some (neg, v, r) \<Rightarrow>
          if v \<ge> 2 ^ 64 then (- 1, r, ERANGE)
          else (if neg then - (word_of_nat v) else word_of_nat v, r, e))"

text \<open>\<^verbatim>\<open>strtol\<close>: the same with the signed range of 64 bits.\<close>

definition strtos64 :: "nat \<Rightarrow> string \<Rightarrow> errno \<Rightarrow> int \<times> string \<times> errno" where
  "strtos64 b s e =
     (case scan_int b s of
        None \<Rightarrow> (0, s, e)
      | Some (neg, v, r) \<Rightarrow>
          if neg then (if v > 2 ^ 63 then (- (2 ^ 63), r, ERANGE) else (- int v, r, e))
          else (if v \<ge> 2 ^ 63 then (2 ^ 63 - 1, r, ERANGE) else (int v, r, e)))"

section \<open>Facts on digits\<close>

lemma digit_cases: "n < 10 \<Longrightarrow> n \<in> {0, 1, 2, 3, 4, 5, 6, 7, 8, 9 :: nat}"
  by auto

lemma digit_char_val [simp]: "n < 10 \<Longrightarrow> digit_val (digit_char n) = n"
  by (drule digit_cases) (auto simp: digit_char_def digit_val_def)

lemma digit_char_isdigit [simp]: "n < 10 \<Longrightarrow> isdigit (digit_char n)"
  by (drule digit_cases) (auto simp: digit_char_def isdigit_def)

lemma digit_char_is_digit_in [simp]: "n < 10 \<Longrightarrow> is_digit_in 10 (digit_char n)"
  by (simp add: is_digit_in_def)

lemma isdigit_is_digit_in [simp]: "is_digit_in 10 c = isdigit c"
  by (auto simp: is_digit_in_def isdigit_def digit_val_def)

lemma digits_val_snoc [simp]: "digits_val b (ds @ [d]) = digits_val b ds * b + digit_val d"
  by (simp add: digits_val_def)

lemma decimal_nonempty [simp]: "decimal n \<noteq> []"
  by (subst decimal.simps) simp

lemma decimal_digits: "c \<in> set (decimal n) \<Longrightarrow> isdigit c"
proof (induction n rule: decimal.induct)
  case (1 n)
  then show ?case
    by (cases "n < 10") (auto simp: decimal.simps [of n])
qed

lemma digits_val_decimal [simp]: "digits_val 10 (decimal n) = n"
proof (induction n rule: decimal.induct)
  case (1 n)
  show ?case
  proof (cases "n < 10")
    case True
    then show ?thesis by (simp add: decimal.simps [of n] digits_val_def)
  next
    case False
    with 1 show ?thesis by (simp add: decimal.simps [of n])
  qed
qed

lemma decimal_hd_isdigit [simp]: "isdigit (hd (decimal n))"
  by (rule decimal_digits [of _ n]) simp

lemma isdigit_not_space: "isdigit c \<Longrightarrow> \<not> isspace c"
  by (auto simp: ctype_simps)

lemma isdigit_not_sign: "isdigit c \<Longrightarrow> c \<noteq> CHR ''-'' \<and> c \<noteq> CHR ''+''"
  by (auto simp: ctype_simps)

lemma unat_all_ones: "unat (- 1 :: u64) = 18446744073709551615"
  by (simp add: unsigned_minus_1_eq_mask mask_eq_exp_minus_1)

lemma unat_u64_less: "unat (w :: u64) < 18446744073709551616"
proof -
  have "unat w < 2 ^ LENGTH(64)" by (rule unsigned_less)
  then show ?thesis by simp
qed

section \<open>Facts on lists\<close>

lemma takeWhile_append_stop:
  "(\<And>x. x \<in> set xs \<Longrightarrow> P x) \<Longrightarrow> ys = [] \<or> \<not> P (hd ys) \<Longrightarrow> takeWhile P (xs @ ys) = xs"
  by (induction xs) (auto simp: takeWhile_eq_Nil_iff)

lemma dropWhile_append_stop:
  "(\<And>x. x \<in> set xs \<Longrightarrow> P x) \<Longrightarrow> ys = [] \<or> \<not> P (hd ys) \<Longrightarrow> dropWhile P (xs @ ys) = ys"
  by (induction xs) (auto simp: dropWhile_eq_self_iff)

lemma scan_int_digits:
  assumes ds: "\<And>c. c \<in> set ds \<Longrightarrow> isdigit c" and ne: "ds \<noteq> []"
    and stop: "rest = [] \<or> \<not> isdigit (hd rest)"
  shows "scan_int 10 (ds @ rest) = Some (False, digits_val 10 ds, rest)"
proof -
  from ne have hd: "hd (ds @ rest) = hd ds" by simp
  from ne ds have d: "isdigit (hd ds)" by simp
  have sp: "dropWhile isspace (ds @ rest) = ds @ rest"
    using ne hd isdigit_not_space [OF d] by (simp add: dropWhile_eq_self_iff)
  have "takeWhile isdigit (ds @ rest) = ds"
    by (rule takeWhile_append_stop) (use ds stop in auto)
  moreover have "dropWhile isdigit (ds @ rest) = rest"
    by (rule dropWhile_append_stop) (use ds stop in auto)
  moreover have "is_digit_in 10 = isdigit" by (rule ext) simp
  ultimately show ?thesis
    using ne hd sp isdigit_not_sign [OF d] by (simp add: scan_int_def Let_def)
qed

lemma strtou64_decimal:
  assumes "n < 2 ^ 64" and "rest = [] \<or> \<not> isdigit (hd rest)"
  shows "strtou64 10 (decimal n @ rest) e = (word_of_nat n, rest, e)"
  using assms by (simp add: strtou64_def scan_int_digits decimal_digits)

end
