(* ===== verification/Timespan.thy ===== *)
theory Timespan
  imports Sysv_Prelude
begin

text \<open>
  \<^verbatim>\<open>include/clock.h\<close> and \<^verbatim>\<open>src/common/timespan.c\<close>: conversions between time units, and time spans
  in systemd's syntax read into and printed from 64-bit counts of microseconds.
\<close>

section \<open>Clock units\<close>

definition ul_div_up :: "u64 \<Rightarrow> u64 \<Rightarrow> u64" where
  "ul_div_up n d = (n + d - 1) div d"

definition s2us :: "u64 \<Rightarrow> u64" where "s2us s = s * 1000 * 1000"
definition ms2us :: "u64 \<Rightarrow> u64" where "ms2us ms = ms * 1000"
definition ns2us :: "u64 \<Rightarrow> u64" where "ns2us ns = ul_div_up ns 1000"
definition us2s :: "u64 \<Rightarrow> u64" where "us2s us = ul_div_up us (1000 * 1000)"
definition us2ms :: "u64 \<Rightarrow> u64" where "us2ms us = ul_div_up us 1000"
definition us2ns :: "u64 \<Rightarrow> u64" where "us2ns us = us * 1000"

text \<open>The two clocks: the argument is what \<^verbatim>\<open>clock_gettime\<close> reports, seconds and nanoseconds.\<close>

definition clock_usec :: "u64 \<times> u64 \<Rightarrow> u64" where
  "clock_usec = (\<lambda>(tv_sec, tv_nsec). s2us tv_sec + ns2us tv_nsec)"

definition clock_realtime_usec :: "u64 \<times> u64 \<Rightarrow> u64" where
  "clock_realtime_usec = (\<lambda>(tv_sec, tv_nsec). s2us tv_sec + ns2us tv_nsec)"

section \<open>Units of time spans\<close>

definition TS_USEC :: u64 where "TS_USEC = 1"
definition TS_MSEC :: u64 where "TS_MSEC = 1000 * TS_USEC"
definition TS_SEC :: u64 where "TS_SEC = 1000 * TS_MSEC"
definition TS_MIN :: u64 where "TS_MIN = 60 * TS_SEC"
definition TS_HR :: u64 where "TS_HR = 60 * TS_MIN"
definition TS_DAY :: u64 where "TS_DAY = 24 * TS_HR"
definition TS_WEEK :: u64 where "TS_WEEK = 7 * TS_DAY"
definition TS_MONTH :: u64 where "TS_MONTH = 3044 * TS_DAY div 100"
definition TS_YEAR :: u64 where "TS_YEAR = 36525 * TS_DAY div 100"
definition TS_INFINITY :: u64 where "TS_INFINITY = - 2"
definition TS_INVALID :: u64 where "TS_INVALID = - 1"

lemmas ts_unit_defs = TS_USEC_def TS_MSEC_def TS_SEC_def TS_MIN_def TS_HR_def TS_DAY_def
  TS_WEEK_def TS_MONTH_def TS_YEAR_def

text \<open>The array \<^verbatim>\<open>timespan_units\<close> without its terminating entry, which \<open>unit_value\<close> adds.\<close>

definition timespan_units :: "(string \<times> u64) list" where
  "timespan_units =
    [(''usec'', TS_USEC), (''us'', TS_USEC), (''msec'', TS_MSEC), (''ms'', TS_MSEC),
     (''seconds'', TS_SEC), (''second'', TS_SEC), (''sec'', TS_SEC), (''s'', TS_SEC),
     (''minutes'', TS_MIN), (''minute'', TS_MIN), (''min'', TS_MIN), (''m'', TS_MIN),
     (''hours'', TS_HR), (''hour'', TS_HR), (''hr'', TS_HR), (''h'', TS_HR),
     (''days'', TS_DAY), (''day'', TS_DAY), (''d'', TS_DAY),
     (''weeks'', TS_WEEK), (''week'', TS_WEEK), (''w'', TS_WEEK),
     (''months'', TS_MONTH), (''month'', TS_MONTH), (''M'', TS_MONTH),
     (''years'', TS_YEAR), (''year'', TS_YEAR), (''y'', TS_YEAR)]"

definition unit_name :: "nat \<Rightarrow> string" where
  "unit_name i = (if i < length timespan_units then fst (timespan_units ! i) else [])"

definition unit_value :: "nat \<Rightarrow> u64" where
  "unit_value i = (if i < length timespan_units then snd (timespan_units ! i) else TS_INVALID)"

section \<open>Reading a time span\<close>

definition ts_isblank :: "char \<Rightarrow> bool" where
  "ts_isblank c \<longleftrightarrow> c = SPACE \<or> c = TAB \<or> c = NL"

text \<open>The loop that finds \<^verbatim>\<open>end\<close>: \<open>q\<close> counts the characters passed, \<open>e\<close> is the end so far.\<close>

fun trim_end :: "nat \<Rightarrow> nat \<Rightarrow> string \<Rightarrow> nat" where
  "trim_end e q [] = e"
| "trim_end e q (c # cs) = trim_end (if ts_isblank c then e else q + 1) (q + 1) cs"

lemma scan_int_rest_length: "scan_int b s = Some (neg, v, r) \<Longrightarrow> length r \<le> length s"
  by (auto simp: scan_int_def Let_def split: if_splits)
    (metis (no_types, lifting) diff_le_self le_trans length_dropWhile_le length_tl)+

lemma strtou64_rest_length: "strtou64 b s e = (v, r, e') \<Longrightarrow> length r \<le> length s"
  by (auto simp: strtou64_def split: option.splits if_splits dest: scan_int_rest_length)

text \<open>
  The main loop of \<^verbatim>\<open>timespan_from_str\<close> over the text between \<^verbatim>\<open>p\<close> and \<^verbatim>\<open>end\<close>; \<open>e\<close> is
  \<^verbatim>\<open>errno\<close>. The jump to \<^verbatim>\<open>syntax\<close> is the result \<open>(TS_INVALID, EINVAL)\<close>.
\<close>

function ts_loop :: "errno \<Rightarrow> u64 \<Rightarrow> string \<Rightarrow> u64 \<times> errno" where
  "ts_loop e ts p =
     (if p = [] then (ts, e)
      else if \<not> isdigit (hd p) then (TS_INVALID, EINVAL)
      else
        let (num, q, e1) = strtou64 10 p e in
        if num = - 1 \<and> e1 = ERANGE then (TS_INVALID, e1)
        else if q = p then (TS_INVALID, EINVAL)
        else
          let q1 = dropWhile ts_isblank q; r = dropWhile isalpha q1; u = takeWhile isalpha q1 in
          if u = [] then (TS_INVALID, EINVAL)
          else
            case map_of timespan_units u of
              None \<Rightarrow> (TS_INVALID, EINVAL)
            | Some v \<Rightarrow>
                let num1 = num * v in
                if TS_INVALID - ts \<le> num1 then (TS_INVALID, ERANGE)
                else ts_loop e1 (ts + num1) (dropWhile ts_isblank r))"
  by pat_completeness auto
termination
proof (relation "measure (\<lambda>(e, ts, p). length p)", goal_cases)
  case 1
  show ?case by simp
next
  case (2 e ts p x num xa q e1 q1 r u v num1)
  then have "length q \<le> length p" by (metis strtou64_rest_length)
  moreover have "length q1 \<le> length q" using 2 by (simp add: length_dropWhile_le)
  moreover have "length q1 = length u + length r"
    using 2 by (metis length_append takeWhile_dropWhile_id)
  moreover have "length (dropWhile ts_isblank r) \<le> length r" by (rule length_dropWhile_le)
  moreover have "0 < length u" using 2 by simp
  ultimately have "length (dropWhile ts_isblank r) < length p" by linarith
  then show ?case by simp
qed

declare ts_loop.simps [simp del]

definition timespan_from_str :: "errno \<Rightarrow> string \<Rightarrow> u64 \<times> errno" where
  "timespan_from_str e str =
     (let p = dropWhile ts_isblank str; body = take (trim_end 0 0 p) p in
      if body = [] then (TS_INVALID, EOK)
      else if p = ''infinity'' then (TS_INFINITY, e)
      else if isdigit (hd p) then
        let (num, q, e1) = strtou64 10 p e in
        if num = - 1 \<and> e1 = ERANGE then (TS_INVALID, e1)
        else if q \<noteq> p \<and> dropWhile ts_isblank q = [] then (num * TS_SEC, e1)
        else ts_loop e1 0 body
      else ts_loop e 0 body)"

section \<open>Printing a time span\<close>

text \<open>The inner loop of \<^verbatim>\<open>timespan_to_str\<close> that moves \<^verbatim>\<open>tsu\<close> down the table.\<close>

fun unit_down :: "nat \<Rightarrow> u64 \<Rightarrow> nat" where
  "unit_down 0 ts = 0"
| "unit_down (Suc i) ts = (if unit_value (Suc i) > ts then unit_down i ts else Suc i)"

lemma unit_down_numeral:
  "unit_down (numeral k) ts =
     (if unit_value (numeral k) > ts then unit_down (pred_numeral k) ts else numeral k)"
  by (simp add: numeral_eq_Suc)

lemma unit_value_0: "unit_value 0 = 1"
  by (simp add: unit_value_def timespan_units_def TS_USEC_def)

lemma timespan_units_length [simp]: "length timespan_units = 28"
  by (simp add: timespan_units_def)

lemma unit_value_table:
  "unit_value i =
     (if i < 28 then
        [1, 1, 1000, 1000, 1000000, 1000000, 1000000, 1000000, 60000000, 60000000, 60000000, 60000000,
         3600000000, 3600000000, 3600000000, 3600000000, 86400000000, 86400000000, 86400000000,
         604800000000, 604800000000, 604800000000, 2630016000000, 2630016000000, 2630016000000,
         31557600000000, 31557600000000, 31557600000000] ! i
      else - 1)"
proof -
  have "unit_value i = (if i < 28 then map snd timespan_units ! i else - 1)"
    by (simp add: unit_value_def TS_INVALID_def)
  then show ?thesis by (simp add: timespan_units_def ts_unit_defs)
qed

lemma unit_down_le: "ts \<noteq> 0 \<Longrightarrow> unit_value (unit_down i ts) \<le> ts"
proof (induction i)
  case 0
  then have "0 < unat ts" by (simp add: unat_gt_0)
  then show ?case by (simp add: unit_value_0 word_le_nat_alt)
next
  case (Suc i)
  then show ?case by (simp add: not_less)
qed

lemma units_nonzero: "list_all (\<lambda>x. snd x \<noteq> 0) timespan_units"
  by (simp add: timespan_units_def ts_unit_defs)

lemma unit_value_nonzero: "unit_value i \<noteq> 0"
proof (cases "i < 28")
  case True
  then have "timespan_units ! i \<in> set timespan_units" by simp
  with True units_nonzero show ?thesis by (auto simp: list_all_iff unit_value_def)
next
  case False
  then show ?thesis by (simp add: unit_value_def TS_INVALID_def)
qed

lemma mod_unit_less:
  assumes "ts \<noteq> 0"
  shows "unat (ts mod unit_value (unit_down i ts)) < unat ts"
proof -
  let ?v = "unit_value (unit_down i ts)"
  have "0 < unat ?v" using unit_value_nonzero by (simp add: unat_gt_0)
  then have "unat (ts mod ?v) < unat ?v" by (simp add: unat_mod)
  also have "unat ?v \<le> unat ts" using unit_down_le [OF assms] by (simp add: word_le_nat_alt)
  finally show ?thesis .
qed

text \<open>
  The main loop. \<open>sz\<close> is what is left of the buffer, 0 for a null buffer; \<open>out\<close> is what has
  been stored in it, \<open>len\<close> the length reported.
\<close>

function to_str_loop :: "nat \<Rightarrow> nat \<Rightarrow> u64 \<Rightarrow> string \<Rightarrow> nat \<Rightarrow> string \<times> nat" where
  "to_str_loop sz i ts out len =
     (if ts = 0 then (out, len)
      else
        let j = unit_down i ts;
            s = decimal (unat (ts div unit_value j)) @ unit_name j
        in to_str_loop (if length s < sz then sz - length s else min sz 1) j
             (ts mod unit_value j) (out @ take (sz - 1) s) (len + length s))"
  by pat_completeness auto
termination
  by (relation "measure (\<lambda>(sz, i, ts, out, len). unat ts)") (simp_all add: mod_unit_less)

declare to_str_loop.simps [simp del]

text \<open>
  \<^verbatim>\<open>timespan_to_str\<close>: the return value and, when anything is stored, the string in the buffer.
\<close>

definition timespan_to_str :: "nat \<Rightarrow> u64 \<Rightarrow> int \<times> string" where
  "timespan_to_str sz ts =
     (if ts = 0 then (1, take (sz - 1) ''0'')
      else if ts = TS_INVALID then (- 1, [])
      else if ts = TS_INFINITY then (8, take (sz - 1) ''infinity'')
      else let (out, len) = to_str_loop sz (length timespan_units) ts [] 0 in (int len, out))"

section \<open>Spans as sums of terms\<close>

text \<open>
  A term of a time span: a magnitude, blanks, a unit name, blanks. \<open>term_str\<close> is its text, \<open>term_us\<close>
  the number of microseconds it stands for.
\<close>

type_synonym span_term = "nat \<times> string \<times> string \<times> string"

fun term_str :: "span_term \<Rightarrow> string" where
  "term_str (n, sp, u, sp') = decimal n @ sp @ u @ sp'"

fun term_us :: "span_term \<Rightarrow> nat" where
  "term_us (n, sp, u, sp') = n * (case map_of timespan_units u of None \<Rightarrow> 0 | Some v \<Rightarrow> unat v)"

definition blanks :: "string \<Rightarrow> bool" where
  "blanks s \<longleftrightarrow> (\<forall>c \<in> set s. ts_isblank c)"

fun term_ok :: "span_term \<Rightarrow> bool" where
  "term_ok (n, sp, u, sp') \<longleftrightarrow> blanks sp \<and> blanks sp' \<and> u \<in> fst ` set timespan_units"

lemma blanks_Nil [simp]: "blanks []"
  by (simp add: blanks_def)

lemma ts_isblank_classes: "ts_isblank c \<Longrightarrow> \<not> isdigit c \<and> \<not> isalpha c"
  by (auto simp: ts_isblank_def ctype_simps)

lemma isalpha_not_digit: "isalpha c \<Longrightarrow> \<not> isdigit c \<and> \<not> ts_isblank c"
  by (auto simp: ts_isblank_def ctype_simps)

lemma isdigit_not_alpha: "isdigit c \<Longrightarrow> \<not> isalpha c \<and> \<not> ts_isblank c"
  by (auto simp: ts_isblank_def ctype_simps)

lemma unit_names_alpha:
  assumes "u \<in> fst ` set timespan_units"
  shows "u \<noteq> [] \<and> (\<forall>c \<in> set u. isalpha c)"
proof -
  have "list_all (\<lambda>(u, v). u \<noteq> [] \<and> list_all isalpha u) timespan_units"
    by (simp add: timespan_units_def ctype_simps)
  with assms show ?thesis by (auto simp: list_all_iff)
qed

lemma unit_values_positive:
  assumes "map_of timespan_units u = Some v"
  shows "0 < unat v"
  using map_of_SomeD [OF assms] units_nonzero by (force simp: list_all_iff unat_gt_0)

lemma unit_known: "u \<in> fst ` set timespan_units \<Longrightarrow> \<exists>v. map_of timespan_units u = Some v"
  by (metis map_of_eq_None_iff not_Some_eq)

lemma hd_append_class:
  "(\<And>c. c \<in> set xs \<Longrightarrow> \<not> P c) \<Longrightarrow> ys = [] \<or> \<not> P (hd ys) \<Longrightarrow> xs @ ys = [] \<or> \<not> P (hd (xs @ ys))"
  by (cases xs) auto

text \<open>One iteration of the loop reads one term.\<close>

lemma ts_loop_term:
  assumes ok: "term_ok (n, sp, u, sp')" and v: "map_of timespan_units u = Some v"
    and n: "n < 2 ^ 64 - 1" and rest: "rest = [] \<or> isdigit (hd rest)"
  shows "ts_loop e ts (term_str (n, sp, u, sp') @ rest) =
    (if TS_INVALID - ts \<le> word_of_nat n * v then (TS_INVALID, ERANGE)
     else ts_loop e (ts + word_of_nat n * v) rest)"
proof -
  let ?p = "term_str (n, sp, u, sp') @ rest"
  have u: "u \<noteq> []" "\<And>c. c \<in> set u \<Longrightarrow> isalpha c" using ok unit_names_alpha by auto
  have b: "\<And>c. c \<in> set sp \<Longrightarrow> ts_isblank c" "\<And>c. c \<in> set sp' \<Longrightarrow> ts_isblank c"
    using ok by (auto simp: blanks_def)
  have "sp @ u @ sp' @ rest = [] \<or> \<not> isdigit (hd (sp @ u @ sp' @ rest))"
    by (rule hd_append_class) (use b u ts_isblank_classes isalpha_not_digit in \<open>auto simp: hd_append\<close>)
  then have num: "strtou64 10 ?p e = (word_of_nat n, sp @ u @ sp' @ rest, e)"
    using strtou64_decimal [of n "sp @ u @ sp' @ rest" e] n by simp
  have q1: "dropWhile ts_isblank (sp @ u @ sp' @ rest) = u @ sp' @ rest"
    by (rule dropWhile_append_stop) (use b u isalpha_not_digit in \<open>auto simp: hd_append\<close>)
  have stop: "sp' @ rest = [] \<or> \<not> isalpha (hd (sp' @ rest))"
    by (rule hd_append_class) (use b rest ts_isblank_classes isdigit_not_alpha in auto)
  have t: "takeWhile isalpha (u @ sp' @ rest) = u"
    by (rule takeWhile_append_stop) (use u stop in auto)
  have d: "dropWhile isalpha (u @ sp' @ rest) = sp' @ rest"
    by (rule dropWhile_append_stop) (use u stop in auto)
  have r: "dropWhile ts_isblank (sp' @ rest) = rest"
    by (rule dropWhile_append_stop) (use b rest isdigit_not_alpha in auto)
  have nm: "word_of_nat n \<noteq> (- 1 :: u64)"
  proof
    assume "word_of_nat n = (- 1 :: u64)"
    then have "unat (word_of_nat n :: u64) = unat (- 1 :: u64)" by simp
    with n show False by (simp add: unat_of_nat unat_all_ones)
  qed
  have "isdigit (hd ?p)" "?p \<noteq> []" "sp @ u @ sp' @ rest \<noteq> ?p" by simp_all
  with num q1 t d r nm u v show ?thesis
    by (subst ts_loop.simps) simp
qed

lemma term_us_bound:
  assumes "term_ok (n, sp, u, sp')"
  shows "n \<le> term_us (n, sp, u, sp')"
proof -
  from assms obtain v where "map_of timespan_units u = Some v" using unit_known by auto
  with unit_values_positive [OF this] show ?thesis by simp
qed

text \<open>The loop adds up the terms as long as the sum stays below \<open>TS_INVALID\<close>.\<close>

lemma ts_loop_sum:
  assumes "\<forall>t \<in> set terms. term_ok t" and "unat ts + (\<Sum>t \<leftarrow> terms. term_us t) < 2 ^ 64 - 1"
  shows "ts_loop e ts (concat (map term_str terms)) =
    (ts + word_of_nat (\<Sum>t \<leftarrow> terms. term_us t), e)"
  using assms
proof (induction terms arbitrary: ts)
  case Nil
  then show ?case by (simp add: ts_loop.simps)
next
  case (Cons t terms)
  obtain n sp u sp' where t: "t = (n, sp, u, sp')" by (cases t)
  with Cons.prems have ok: "term_ok (n, sp, u, sp')" by simp
  then obtain v where v: "map_of timespan_units u = Some v" using unit_known by auto
  have allok: "\<forall>t \<in> set terms. term_ok t" using Cons.prems by simp
  let ?rest = "concat (map term_str terms)" and ?S = "\<Sum>t \<leftarrow> terms. term_us t"
  have us: "term_us t = n * unat v" using t v by simp
  from Cons.prems(2) us have bound: "unat ts + n * unat v + ?S < 2 ^ 64 - 1" by simp
  have "n \<le> n * unat v" using term_us_bound [OF ok] us unfolding t by (simp only:)
  with bound have n: "n < 2 ^ 64 - 1" by linarith
  have rest: "?rest = [] \<or> isdigit (hd ?rest)" by (cases terms) auto
  have num: "unat (word_of_nat n * v) = n * unat v"
    using bound n by (simp add: unat_word_ariths unat_of_nat)
  let ?w = "word_of_nat n * v"
  have "unat (TS_INVALID - ts) = 2 ^ 64 - 1 - unat ts"
    using unat_u64_less [of ts] by (simp add: TS_INVALID_def unat_sub_if' unat_all_ones)
  with num bound have "\<not> TS_INVALID - ts \<le> ?w" by (simp add: word_le_nat_alt)
  then have "ts_loop e ts (term_str t @ ?rest) = ts_loop e (ts + ?w) ?rest"
    using ts_loop_term [OF ok v n rest, of e ts] unfolding t by (simp only: if_False)
  also have "unat (ts + ?w) = unat ts + n * unat v"
    using bound num by (simp add: unat_word_ariths)
  with bound have "ts_loop e (ts + ?w) ?rest = (ts + ?w + word_of_nat ?S, e)"
    using Cons.IH [OF allok, of "ts + ?w"] by (simp only:)
  also have "ts + ?w + word_of_nat ?S = ts + word_of_nat (n * unat v + ?S)" by simp
  finally show ?case by (simp only: list.map concat.simps sum_list.Cons us)
qed

section \<open>Whole strings\<close>

lemma trim_end_blanks: "blanks t \<Longrightarrow> trim_end e q t = e"
  by (induction t arbitrary: e q) (auto simp: blanks_def)

lemma trim_end_append:
  "s \<noteq> [] \<Longrightarrow> \<not> ts_isblank (last s) \<Longrightarrow>
    trim_end e q (s @ t) = trim_end (q + length s) (q + length s) t"
proof (induction s arbitrary: e q)
  case (Cons c s)
  then show ?case by (cases "s = []") auto
qed simp

text \<open>The text of a list of terms starts with a digit and ends with the last unit name.\<close>

lemma concat_terms_hd: "terms \<noteq> [] \<Longrightarrow> isdigit (hd (concat (map term_str terms)))"
  by (cases terms) auto

lemma concat_terms_last:
  assumes "terms \<noteq> []" and "term_ok (last terms)" and "snd (snd (snd (last terms))) = []"
  shows "concat (map term_str terms) \<noteq> [] \<and> isalpha (last (concat (map term_str terms)))"
proof -
  obtain ts n sp u where t: "terms = ts @ [(n, sp, u, [])]"
    using assms by (metis append_butlast_last_id prod.collapse)
  with assms have "u \<noteq> [] \<and> (\<forall>c \<in> set u. isalpha c)" using unit_names_alpha by auto
  then show ?thesis by (simp add: t)
qed

lemma not_unitless:
  assumes "term_ok (n, sp, u, sp')" and "n < 2 ^ 64 - 1"
  shows "strtou64 10 (term_str (n, sp, u, sp') @ rest) e =
    (word_of_nat n, sp @ u @ sp' @ rest, e)"
    and "dropWhile ts_isblank (sp @ u @ sp' @ rest) \<noteq> []"
    and "word_of_nat n \<noteq> (- 1 :: u64)"
proof -
  have u: "u \<noteq> []" "\<And>c. c \<in> set u \<Longrightarrow> isalpha c" using assms unit_names_alpha by auto
  have b: "\<And>c. c \<in> set sp \<Longrightarrow> ts_isblank c" using assms by (auto simp: blanks_def)
  have "sp @ u @ sp' @ rest = [] \<or> \<not> isdigit (hd (sp @ u @ sp' @ rest))"
    by (rule hd_append_class) (use b u ts_isblank_classes isalpha_not_digit in \<open>auto simp: hd_append\<close>)
  then show "strtou64 10 (term_str (n, sp, u, sp') @ rest) e = (word_of_nat n, sp @ u @ sp' @ rest, e)"
    using strtou64_decimal [of n "sp @ u @ sp' @ rest" e] assms by simp
  have "hd u \<in> set (sp @ u @ sp' @ rest)" "\<not> ts_isblank (hd u)"
    using u isalpha_not_digit [of "hd u"] by auto
  then show "dropWhile ts_isblank (sp @ u @ sp' @ rest) \<noteq> []"
    by (metis dropWhile_eq_Nil_conv)
  have "unat (word_of_nat n :: u64) \<noteq> unat (- 1 :: u64)"
    using assms by (simp add: unat_of_nat unat_all_ones)
  then show "word_of_nat n \<noteq> (- 1 :: u64)" by metis
qed

lemma from_str_terms:
  assumes lead: "blanks lead" and trail: "blanks trail" and ne: "terms \<noteq> []"
    and ok: "\<forall>t \<in> set terms. term_ok t" and l: "snd (snd (snd (last terms))) = []"
    and bound: "(\<Sum>t \<leftarrow> terms. term_us t) < 2 ^ 64 - 1"
  shows "timespan_from_str e (lead @ concat (map term_str terms) @ trail) =
    (word_of_nat (\<Sum>t \<leftarrow> terms. term_us t), e)"
proof -
  let ?s = "concat (map term_str terms)"
  have hd: "isdigit (hd ?s)" using concat_terms_hd [OF ne] .
  have last: "?s \<noteq> []" "\<not> ts_isblank (last ?s)"
    using concat_terms_last [of terms] ne ok l isalpha_not_digit by auto
  have p: "dropWhile ts_isblank (lead @ ?s @ trail) = ?s @ trail"
    by (rule dropWhile_append_stop) (use lead hd last isdigit_not_alpha in \<open>auto simp: blanks_def\<close>)
  have e: "trim_end 0 0 (?s @ trail) = length ?s"
    using trim_end_append [OF last] trim_end_blanks [OF trail] by simp
  obtain t terms' where t: "terms = t # terms'" using ne by (cases terms) simp_all
  obtain n sp u sp' where tn: "t = (n, sp, u, sp')" by (cases t)
  have tok: "term_ok (n, sp, u, sp')" using ok t tn by simp
  have "n \<le> term_us t" using term_us_bound [OF tok] unfolding tn .
  then have n: "n < 2 ^ 64 - 1" using bound unfolding t by simp
  have s: "?s @ trail = term_str (n, sp, u, sp') @ (concat (map term_str terms') @ trail)"
    by (simp add: t tn)
  obtain q where q: "strtou64 10 (?s @ trail) e = (word_of_nat n, q, e)" "dropWhile ts_isblank q \<noteq> []"
    unfolding s using not_unitless [OF tok n] by blast
  have inf: "?s @ trail \<noteq> ''infinity''"
  proof
    assume "?s @ trail = ''infinity''"
    then have "hd (?s @ trail) = CHR ''i''" by simp
    then have "hd ?s = CHR ''i''" using hd_append2 [OF last(1), of trail] by (simp only:)
    with hd show False by (simp add: ctype_simps)
  qed
  have "timespan_from_str e (lead @ ?s @ trail) = ts_loop e 0 ?s"
    using last(1) hd inf q not_unitless(3) [OF tok n]
    by (simp add: timespan_from_str_def p e del: concat_eq_Nil_conv dropWhile_eq_Nil_conv)
  then show ?thesis using ts_loop_sum [OF ok, of 0 e] bound by simp
qed

section \<open>The terms that are printed\<close>

function span_terms :: "nat \<Rightarrow> u64 \<Rightarrow> span_term list" where
  "span_terms i ts =
     (if ts = 0 then []
      else let j = unit_down i ts in
        (unat (ts div unit_value j), [], unit_name j, []) # span_terms j (ts mod unit_value j))"
  by pat_completeness auto
termination
  by (relation "measure (\<lambda>(i, ts). unat ts)") (simp_all add: mod_unit_less)

declare span_terms.simps [simp del]

lemma to_str_loop_terms:
  "to_str_loop sz i ts out len =
     (out @ take (sz - 1) (concat (map term_str (span_terms i ts))),
      len + length (concat (map term_str (span_terms i ts))))"
proof (induction sz i ts out len rule: to_str_loop.induct)
  case (1 sz i ts out len)
  show ?case
  proof (cases "ts = 0")
    case True
    then show ?thesis by (simp add: to_str_loop.simps [of sz i 0] span_terms.simps [of i 0])
  next
    case False
    let ?j = "unit_down i ts"
    let ?s = "decimal (unat (ts div unit_value ?j)) @ unit_name ?j"
    let ?r = "concat (map term_str (span_terms ?j (ts mod unit_value ?j)))"
    have full: "concat (map term_str (span_terms i ts)) = ?s @ ?r"
      using False by (simp add: span_terms.simps [of i ts] Let_def)
    have "take (sz - 1) (?s @ ?r) =
        take (sz - 1) ?s @ take ((if length ?s < sz then sz - length ?s else min sz 1) - 1) ?r"
      by (auto simp: take_append min_def)
    with 1 [OF False refl refl] False show ?thesis
      unfolding full by (simp add: to_str_loop.simps [of sz i ts] Let_def)
  qed
qed

lemma unit_down_bound: "unit_down i ts \<le> i"
  by (induction i) auto

lemma unit_down_in_table:
  assumes "i \<le> 28" and "ts \<noteq> TS_INVALID"
  shows "unit_down i ts < 28"
proof (cases "i = 28")
  case True
  have "TS_INVALID > ts" using assms unat_u64_less [of ts]
    by (simp add: TS_INVALID_def word_order.not_eq_extremum)
  then have "unit_value 28 > ts" by (simp add: unit_value_def)
  then have "unit_down 28 ts = unit_down 27 ts" by (simp add: numeral_eq_Suc)
  with True unit_down_bound [of 27 ts] show ?thesis by simp
next
  case False
  with assms unit_down_bound [of i ts] show ?thesis by simp
qed

lemma unit_lookup:
  assumes "j < 28"
  shows "map_of timespan_units (unit_name j) = Some (unit_value j)"
proof -
  have "distinct (map fst timespan_units)" by (simp add: timespan_units_def)
  moreover have "(unit_name j, unit_value j) \<in> set timespan_units"
    using assms nth_mem [of j timespan_units] by (simp add: unit_name_def unit_value_def)
  ultimately show ?thesis by (rule map_of_is_SomeI)
qed

lemma span_terms_sum:
  assumes "i \<le> 28" and "ts \<noteq> TS_INVALID"
  shows "(\<Sum>t \<leftarrow> span_terms i ts. term_us t) = unat ts \<and>
    (\<forall>t \<in> set (span_terms i ts). term_ok t \<and> snd (snd (snd t)) = [])"
  using assms
proof (induction i ts rule: span_terms.induct)
  case (1 i ts)
  show ?case
  proof (cases "ts = 0")
    case True
    then show ?thesis by (simp add: span_terms.simps [of i 0])
  next
    case False
    let ?j = "unit_down i ts"
    have j: "?j < 28" using 1 unit_down_in_table by simp
    have "unat (ts mod unit_value ?j) < unat ts" using mod_unit_less [OF False] .
    then have "ts mod unit_value ?j \<noteq> TS_INVALID"
      using unat_u64_less [of ts] by (auto simp: TS_INVALID_def unat_all_ones)
    with 1(1) [OF False refl] j
    have IH: "(\<Sum>t \<leftarrow> span_terms ?j (ts mod unit_value ?j). term_us t) = unat (ts mod unit_value ?j)"
        "\<forall>t \<in> set (span_terms ?j (ts mod unit_value ?j)). term_ok t \<and> snd (snd (snd t)) = []"
      by simp_all
    have "unit_name ?j \<in> fst ` set timespan_units"
      using unit_lookup [OF j] by (metis map_of_eq_None_iff option.distinct(1))
    moreover have "unat (ts div unit_value ?j) * unat (unit_value ?j) + unat (ts mod unit_value ?j) = unat ts"
      by (simp add: unat_div unat_mod)
    ultimately show ?thesis
      using False unit_lookup [OF j] IH by (simp add: span_terms.simps [of i ts] Let_def)
  qed
qed

lemma to_str_terms:
  assumes "ts \<noteq> 0" "ts \<noteq> TS_INVALID" "ts \<noteq> TS_INFINITY"
  shows "timespan_to_str sz ts =
    (int (length (concat (map term_str (span_terms 28 ts)))),
     take (sz - 1) (concat (map term_str (span_terms 28 ts))))"
  using assms by (simp add: timespan_to_str_def to_str_loop_terms)

lemma from_str_unitless:
  assumes "n < 2 ^ 64 - 1"
  shows "timespan_from_str e (decimal n) = (word_of_nat (n * 1000000), e)"
proof -
  have nb: "\<not> ts_isblank c" if "c \<in> set (decimal n)" for c
    using decimal_digits [OF that] isdigit_not_alpha by blast
  have p: "dropWhile ts_isblank (decimal n) = decimal n" using nb by (simp add: dropWhile_eq_self_iff)
  have e: "trim_end 0 0 (decimal n) = length (decimal n)"
    using trim_end_append [of "decimal n" 0 0 "[]"] nb by simp
  have i: "decimal n \<noteq> ''infinity''"
    using decimal_hd_isdigit [of n] by (auto simp: ctype_simps)
  have num: "strtou64 10 (decimal n) e = (word_of_nat n, [], e)"
    using strtou64_decimal [of n "[]" e] assms by simp
  have "unat (word_of_nat n :: u64) \<noteq> unat (- 1 :: u64)"
    using assms by (simp add: unat_of_nat unat_all_ones)
  then have "word_of_nat n \<noteq> (- 1 :: u64)" by metis
  then show ?thesis
    using i decimal_nonempty [of n, THEN not_sym]
    by (simp add: timespan_from_str_def Let_def p e num ts_unit_defs)
qed

section \<open>Properties of time spans\<close>

text \<open>
  C30. A time span written as a sequence of terms (a magnitude, optional blanks, any of the 28 unit
  names, optional blanks), between leading and trailing blanks, is read as the sum of its terms in
  microseconds, whenever that sum is below \<open>TS_INVALID\<close>; \<^verbatim>\<open>errno\<close> is left alone.
\<close>

theorem timespan_sum:
  assumes "blanks lead" and "blanks trail" and "terms \<noteq> []"
    and "\<forall>t \<in> set terms. term_ok t" and "snd (snd (snd (last terms))) = []"
    and "(\<Sum>t \<leftarrow> terms. term_us t) < 2 ^ 64 - 1"
  shows "timespan_from_str e (lead @ concat (map term_str terms) @ trail) =
    (word_of_nat (\<Sum>t \<leftarrow> terms. term_us t), e)"
  using assms by (rule from_str_terms)

theorem timespan_sum_witness:
  "timespan_from_str EOK '' 1min 30s 500 ms '' = (90500000, EOK)"
  using timespan_sum [of "[SPACE]" "[SPACE]"
      "[(1, [], ''min'', [SPACE]), (30, [], ''s'', [SPACE]), (500, [SPACE], ''ms'', [])]" EOK]
  by (simp add: blanks_def ts_isblank_def decimal.simps digit_char_def timespan_units_def ts_unit_defs)

text \<open>
  C29. What \<^verbatim>\<open>timespan_to_str\<close> prints into a buffer that is large enough, \<^verbatim>\<open>timespan_from_str\<close>
  reads back as the same number of microseconds; this includes 0 and \<open>TS_INFINITY\<close>.
\<close>

theorem timespan_roundtrip:
  assumes ts: "ts \<noteq> TS_INVALID" and fits: "fst (timespan_to_str sz ts) < int sz"
  shows "timespan_from_str e (snd (timespan_to_str sz ts)) = (ts, e)"
proof -
  consider "ts = 0" | "ts = TS_INFINITY" | "ts \<noteq> 0" "ts \<noteq> TS_INFINITY" by blast
  then show ?thesis
  proof cases
    case 1
    with fits have "snd (timespan_to_str sz ts) = decimal 0"
      by (simp add: timespan_to_str_def decimal.simps digit_char_def)
    with 1 show ?thesis using from_str_unitless [of 0 e] by simp
  next
    case 2
    with fits have "snd (timespan_to_str sz ts) = ''infinity''"
      by (simp add: timespan_to_str_def TS_INFINITY_def TS_INVALID_def)
    with 2 show ?thesis by (simp add: timespan_from_str_def ts_isblank_def)
  next
    case 3
    let ?ts = "span_terms 28 ts"
    have sum: "(\<Sum>t \<leftarrow> ?ts. term_us t) = unat ts"
      and ok: "\<And>t. t \<in> set ?ts \<Longrightarrow> term_ok t \<and> snd (snd (snd t)) = []"
      using span_terms_sum [of 28 ts] ts by auto
    have ne: "?ts \<noteq> []" using 3 by (simp add: span_terms.simps [of 28 ts] Let_def)
    have "unat ts \<noteq> unat TS_INVALID" using ts by (metis word_unat_eq_iff)
    then have "unat ts < 2 ^ 64 - 1"
      using unat_u64_less [of ts] by (simp add: TS_INVALID_def unat_all_ones)
    then have "timespan_from_str e (concat (map term_str ?ts)) = (ts, e)"
      using from_str_terms [of "[]" "[]" ?ts e] ok ne sum by simp
    with fits 3 ts show ?thesis by (simp add: to_str_terms)
  qed
qed

theorem timespan_roundtrip_witness:
  "timespan_to_str 64 90500000 = (10, ''1m30s500ms'') \<and>
   timespan_from_str EOK ''1m30s500ms'' = (90500000, EOK)"
proof -
  have "timespan_to_str 64 90500000 = (10, ''1m30s500ms'')"
    by (simp add: timespan_to_str_def to_str_loop.simps unit_down_numeral unit_value_table unit_name_def
        timespan_units_def decimal.simps digit_char_def TS_INVALID_def TS_INFINITY_def word_less_nat_alt unat_all_ones)
  then show ?thesis
    using timespan_roundtrip [of 90500000 64 EOK] by (simp add: TS_INVALID_def)
qed

text \<open>
  The buffer contract of \<^verbatim>\<open>timespan_to_str\<close>, as for \<^verbatim>\<open>snprintf\<close>: the return value does not
  depend on the size of the buffer, and a buffer of \<open>sz\<close> bytes receives the first \<open>sz - 1\<close>
  characters of what a sufficient buffer receives.
\<close>

theorem timespan_to_str_truncation:
  assumes "fst (timespan_to_str big ts) < int big" and "ts \<noteq> TS_INVALID"
  shows "fst (timespan_to_str sz ts) = fst (timespan_to_str big ts) \<and>
    snd (timespan_to_str sz ts) = take (sz - 1) (snd (timespan_to_str big ts)) \<and>
    int (length (snd (timespan_to_str big ts))) = fst (timespan_to_str big ts)"
proof -
  consider "ts = 0" | "ts = TS_INFINITY" | "ts \<noteq> 0" "ts \<noteq> TS_INVALID" "ts \<noteq> TS_INFINITY"
    using assms by blast
  then show ?thesis
    using assms
    by cases (auto simp: timespan_to_str_def to_str_loop_terms TS_INFINITY_def TS_INVALID_def)
qed

theorem timespan_to_str_truncation_witness:
  "timespan_to_str 4 TS_INFINITY = (8, ''inf'')"
  using timespan_to_str_truncation [of 64 TS_INFINITY 4]
  by (simp add: timespan_to_str_def TS_INFINITY_def TS_INVALID_def)

text \<open>
  A number without a unit counts seconds, but the product is not checked: the result is the
  number of microseconds modulo $2^{64}$, so that a span too long for the type is silently read as a
  short one (18446744073710 seconds as 448384 microseconds) instead of failing with \<open>ERANGE\<close>.
\<close>

theorem timespan_unitless_wraps:
  assumes "n < 2 ^ 64 - 1"
  shows "timespan_from_str e (decimal n) = (word_of_nat (n * 1000000 mod 2 ^ 64), e)"
proof -
  have "(word_of_nat (n * 1000000 mod 2 ^ 64) :: u64) = word_of_nat (n * 1000000)"
    by (rule word_unat_eq_iff [THEN iffD2]) (simp add: unat_of_nat del: of_nat_mult)
  then show ?thesis using from_str_unitless [OF assms] by (simp only:)
qed

theorem timespan_unitless_wraps_witness:
  "timespan_from_str EOK ''90'' = (90000000, EOK) \<and>
   timespan_from_str EOK ''18446744073710'' = (448384, EOK)"
  using timespan_unitless_wraps [of 90 EOK] timespan_unitless_wraps [of 18446744073710 EOK]
  by (simp add: decimal.simps digit_char_def)

end
