(* ===== verification/Fsdyn.thy ===== *)
theory Fsdyn
  imports Sysv_Prelude "HOL-Library.AList"
begin

text \<open>
  The containers of the external library \<^verbatim>\<open>fsdyn\<close> as the sources use them. Its hash tables are a
  parameter of every definition that uses one: a record of operations on an abstract table type, of
  which nothing is known but the laws of the locale \<open>hash_table\<close> (lookup after insertion and removal,
  the element displaced by an insertion, a traversal that meets every element once in an order the
  library chooses). Lists and byte arrays are represented by the sequences they hold.
\<close>

section \<open>Hash tables\<close>

record ('k, 'v, 'h) hash_ops =
  ht_make :: 'h                                      \<comment> \<open>\<^verbatim>\<open>make_hash_table\<close>\<close>
  ht_get :: "'h \<Rightarrow> 'k \<Rightarrow> 'v option"                   \<comment> \<open>\<^verbatim>\<open>hash_table_get\<close>\<close>
  ht_put :: "'h \<Rightarrow> 'k \<Rightarrow> 'v \<Rightarrow> 'v option \<times> 'h"       \<comment> \<open>\<^verbatim>\<open>hash_table_put\<close>: displaced element, new table\<close>
  ht_pop :: "'h \<Rightarrow> 'k \<Rightarrow> 'v option \<times> 'h"             \<comment> \<open>\<^verbatim>\<open>hash_table_pop\<close>, \<^verbatim>\<open>hash_table_remove\<close>\<close>
  ht_elems :: "'h \<Rightarrow> ('k \<times> 'v) list"                  \<comment> \<open>\<^verbatim>\<open>hash_table_get_any\<close>, \<^verbatim>\<open>hash_table_get_other\<close>\<close>
  ht_size :: "'h \<Rightarrow> nat"                              \<comment> \<open>\<^verbatim>\<open>hash_table_size\<close>\<close>

locale hash_table =
  fixes H :: "('k, 'v, 'h) hash_ops"
  assumes get_make: "ht_get H (ht_make H) k = None"
    and get_put: "ht_get H (snd (ht_put H h k v)) k' = (if k' = k then Some v else ht_get H h k')"
    and put_old: "fst (ht_put H h k v) = ht_get H h k"
    and get_pop: "ht_get H (snd (ht_pop H h k)) k' = (if k' = k then None else ht_get H h k')"
    and pop_old: "fst (ht_pop H h k) = ht_get H h k"
    and elems_get: "(k, v) \<in> set (ht_elems H h) \<longleftrightarrow> ht_get H h k = Some v"
    and elems_distinct: "distinct (map fst (ht_elems H h))"
    and size_elems: "ht_size H h = length (ht_elems H h)"
begin

lemma get_make_fun: "ht_get H (ht_make H) = Map.empty"
  by (rule ext) (simp add: get_make)

lemma get_put_fun: "ht_get H (snd (ht_put H h k v)) = (ht_get H h)(k \<mapsto> v)"
  by (rule ext) (simp add: get_put)

lemma get_pop_fun: "ht_get H (snd (ht_pop H h k)) = (ht_get H h)(k := None)"
  by (rule ext) (simp add: get_pop)

lemmas table_rules [table_laws, simp] = get_make_fun get_put_fun get_pop_fun put_old pop_old

lemma map_of_elems [simp]: "map_of (ht_elems H h) = ht_get H h"
proof
  fix k
  show "map_of (ht_elems H h) k = ht_get H h k"
  proof (cases "ht_get H h k")
    case None
    then have "\<And>v. (k, v) \<notin> set (ht_elems H h)" by (simp add: elems_get)
    then have "k \<notin> fst ` set (ht_elems H h)" by force
    with None show ?thesis by (simp add: map_of_eq_None_iff)
  next
    case (Some v)
    then show ?thesis by (simp add: elems_distinct elems_get)
  qed
qed

lemma elems_all:
  "(\<forall>(k, v) \<in> set (ht_elems H h). P k v) \<longleftrightarrow> (\<forall>k v. ht_get H h k = Some v \<longrightarrow> P k v)"
  unfolding elems_get [symmetric] by blast

lemma finite_dom [simp]: "finite (dom (ht_get H h))"
  using finite_dom_map_of [of "ht_elems H h"] by simp

lemma elems_keys: "fst ` set (ht_elems H h) = dom (ht_get H h)"
  by (metis dom_map_of_conv_image_fst map_of_elems)

lemma elems_values: "snd ` set (ht_elems H h) = ran (ht_get H h)"
proof (intro equalityI subsetI)
  fix v assume "v \<in> snd ` set (ht_elems H h)"
  then obtain k where "(k, v) \<in> set (ht_elems H h)" by auto
  then show "v \<in> ran (ht_get H h)" by (auto simp: elems_get ran_def)
next
  fix v assume "v \<in> ran (ht_get H h)"
  then obtain k where "(k, v) \<in> set (ht_elems H h)" by (auto simp: elems_get ran_def)
  then show "v \<in> snd ` set (ht_elems H h)" by force
qed

lemma size_card: "ht_size H h = card (dom (ht_get H h))"
  by (metis distinct_card elems_distinct elems_keys length_map list.set_map size_elems)

lemma elems_make [simp]: "ht_elems H (ht_make H) = []"
  using elems_keys [of "ht_make H"] by simp

end

text \<open>
  An association list with the keys compared in turn satisfies the laws: the table the witnesses
  of this development run on.
\<close>

definition alist_ops :: "('k, 'v, ('k \<times> 'v) list) hash_ops" where
  "alist_ops = \<lparr> ht_make = [],
                 ht_get = map_of,
                 ht_put = (\<lambda>h k v. (map_of h k, AList.update k v h)),
                 ht_pop = (\<lambda>h k. (map_of h k, AList.delete k h)),
                 ht_elems = AList.clearjunk,
                 ht_size = (\<lambda>h. length (AList.clearjunk h)) \<rparr>"

lemma alist_ops_sel [simp]:
  "ht_make alist_ops = []"
  "ht_get alist_ops = map_of"
  "ht_put alist_ops h k v = (map_of h k, AList.update k v h)"
  "ht_pop alist_ops h k = (map_of h k, AList.delete k h)"
  "ht_elems alist_ops = AList.clearjunk"
  "ht_size alist_ops h = length (AList.clearjunk h)"
  by (simp_all add: alist_ops_def)

interpretation alist_table: hash_table alist_ops
proof unfold_locales
  fix k :: 'a and v :: 'b and h
  show "(k, v) \<in> set (ht_elems alist_ops h) \<longleftrightarrow> ht_get alist_ops h k = Some v"
    using map_of_eq_Some_iff [OF distinct_clearjunk [of h], of k v] by (simp add: map_of_clearjunk)
qed (simp_all add: update_conv' delete_conv' distinct_clearjunk)

section \<open>Byte arrays\<close>

text \<open>A byte array has a maximum size; appending beyond it fails and reports so.\<close>

record byte_array =
  ba_data :: string
  ba_max :: nat

definition SIZE_MAX :: nat where "SIZE_MAX = 2 ^ 64 - 1"

definition make_byte_array :: "nat \<Rightarrow> byte_array" where
  "make_byte_array n = \<lparr> ba_data = [], ba_max = n \<rparr>"

definition byte_array_append :: "byte_array \<Rightarrow> string \<Rightarrow> byte_array option" where
  "byte_array_append ba s =
     (if length (ba_data ba) + length s \<le> ba_max ba
      then Some (ba\<lparr>ba_data := ba_data ba @ s\<rparr>) else None)"

text \<open>A sequence of appends, abandoned at the first that fails.\<close>

fun byte_array_appends :: "byte_array \<Rightarrow> string list \<Rightarrow> byte_array option" where
  "byte_array_appends ba [] = Some ba"
| "byte_array_appends ba (s # ss) =
     (case byte_array_append ba s of None \<Rightarrow> None | Some ba' \<Rightarrow> byte_array_appends ba' ss)"

lemma byte_array_appends_eq:
  "byte_array_appends ba ss =
     (if ss = [] \<or> length (ba_data ba) + length (concat ss) \<le> ba_max ba
      then Some (ba\<lparr>ba_data := ba_data ba @ concat ss\<rparr>) else None)"
  by (induction ss arbitrary: ba) (auto simp: byte_array_append_def)

lemma byte_array_appends_append:
  "byte_array_appends ba (xs @ ys) =
     (case byte_array_appends ba xs of None \<Rightarrow> None | Some ba' \<Rightarrow> byte_array_appends ba' ys)"
  by (induction xs arbitrary: ba) (auto split: option.splits)

section \<open>Strings\<close>

text \<open>\<^verbatim>\<open>charstr_ends_with\<close>\<close>

definition ends_with :: "string \<Rightarrow> string \<Rightarrow> bool" where
  "ends_with s t \<longleftrightarrow> length t \<le> length s \<and> drop (length s - length t) s = t"

lemma ends_with_append [simp]: "ends_with (s @ t) t"
  by (simp add: ends_with_def)

lemma ends_with_iff: "ends_with s t \<longleftrightarrow> (\<exists>r. s = r @ t)"
  by (metis append_take_drop_id ends_with_append ends_with_def)

end
