(* ===== verification/Strlist.thy ===== *)
theory Strlist
  imports Fsdyn
begin

text \<open>
  \<^verbatim>\<open>src/common/strlist.c\<close>, \<^verbatim>\<open>strbool.c\<close> and \<^verbatim>\<open>pair.c\<close>: delimited strings and lists of strings,
  argument vectors, textual booleans, key-value pairs.
\<close>

section \<open>Argument vectors\<close>

text \<open>
  \<^verbatim>\<open>strlist_to_vector\<close> lays out pointers and strings in one block. \<open>vec_size\<close> is its first loop, which
  sizes the two parts; \<open>vec_copy\<close> is its second, which fills them: it returns the offsets that
  become pointers and the bytes of the string area, the first of which is at offset \<open>str\<close>.
\<close>

fun vec_size :: "string list \<Rightarrow> nat \<times> nat \<Rightarrow> nat \<times> nat" where
  "vec_size [] (psz, ssz) = (psz, ssz)"
| "vec_size (s # l) (psz, ssz) = vec_size l (psz + 8, ssz + length s + 1)"

fun vec_copy :: "nat \<Rightarrow> string list \<Rightarrow> nat option list \<times> string" where
  "vec_copy str [] = ([None], [])"
| "vec_copy str (s # l) =
     (let (ptrs, area) = vec_copy (str + length s + 1) l in (Some str # ptrs, s @ [NUL] @ area))"

record vector =
  vec_alloc :: nat              \<comment> \<open>bytes allocated\<close>
  vec_base :: nat               \<comment> \<open>offset of the string area\<close>
  vec_ptrs :: "nat option list" \<comment> \<open>offsets of the strings; \<open>None\<close> is the null pointer\<close>
  vec_area :: string            \<comment> \<open>bytes written to the string area\<close>

definition strlist_to_vector :: "string list \<Rightarrow> vector" where
  "strlist_to_vector l =
     (let (psz0, ssz) = vec_size l (0, 0);
          psz = psz0 + 8;
          (ptrs, area) = vec_copy psz l
      in \<lparr> vec_alloc = psz + ssz, vec_base = psz, vec_ptrs = ptrs, vec_area = area \<rparr>)"

text \<open>The C string that a pointer into the block refers to.\<close>

definition vec_string :: "vector \<Rightarrow> nat \<Rightarrow> string" where
  "vec_string v off = takeWhile (\<lambda>c. c \<noteq> NUL) (drop (off - vec_base v) (vec_area v))"

section \<open>Delimited strings\<close>

text \<open>
  The loop of \<^verbatim>\<open>strlist_from_delim\<close>: \<open>w\<close> is the text between \<^verbatim>\<open>p\<close> and \<^verbatim>\<open>q\<close>, the last argument
  what \<^verbatim>\<open>q\<close> points at, \<open>h\<close> the table of words seen, if there is one. The \<^verbatim>\<open>continue\<close> for a
  word seen before skips the assignment that would move \<^verbatim>\<open>p\<close> past the delimiter.
\<close>

fun from_delim_loop ::
  "(string, string, 'h) hash_ops \<Rightarrow> char \<Rightarrow> bool \<Rightarrow> 'h option \<Rightarrow> string list \<Rightarrow> string \<Rightarrow> string
   \<Rightarrow> string list" where
  "from_delim_loop H d blank h l w [] =
     (if blank \<or> w \<noteq> [] then
        (case h of None \<Rightarrow> l @ [w]
         | Some t \<Rightarrow> if ht_get H t w \<noteq> None then l else l @ [w])
      else l)"
| "from_delim_loop H d blank h l w (c # q) =
     (if c = d then
        (if blank \<or> w \<noteq> [] then
           (case h of None \<Rightarrow> from_delim_loop H d blank None (l @ [w]) [] q
            | Some t \<Rightarrow>
                if ht_get H t w \<noteq> None then from_delim_loop H d blank h l (w @ [c]) q
                else from_delim_loop H d blank (Some (snd (ht_put H t w w))) (l @ [w]) [] q)
         else from_delim_loop H d blank h l [] q)
      else from_delim_loop H d blank h l (w @ [c]) q)"

definition strlist_from_delim ::
  "(string, string, 'h) hash_ops \<Rightarrow> string \<Rightarrow> char \<Rightarrow> bool \<Rightarrow> bool \<Rightarrow> string list" where
  "strlist_from_delim H str delim blank dedup =
     (let d = (if delim = NUL then CHR '':'' else delim);
          h = (if dedup then Some (ht_make H) else None)
      in from_delim_loop H d blank h [] [] str)"

text \<open>
  The loop of \<^verbatim>\<open>strlist_to_delim\<close> appends every element and a delimiter to the byte array \<open>ba\<close>; the
  caller then cuts the last delimiter off.
\<close>

fun to_delim_loop ::
  "(string, string, 'h) hash_ops \<Rightarrow> char \<Rightarrow> 'h option \<Rightarrow> string \<Rightarrow> string list \<Rightarrow> string" where
  "to_delim_loop H d h ba [] = ba"
| "to_delim_loop H d h ba (s # l) =
     (case h of None \<Rightarrow> to_delim_loop H d None (ba @ s @ [d]) l
      | Some t \<Rightarrow>
          if ht_get H t s \<noteq> None then to_delim_loop H d h ba l
          else to_delim_loop H d (Some (snd (ht_put H t s s))) (ba @ s @ [d]) l)"

definition strlist_to_delim ::
  "(string, string, 'h) hash_ops \<Rightarrow> string list \<Rightarrow> char \<Rightarrow> bool \<Rightarrow> string" where
  "strlist_to_delim H l delim dedup =
     (let d = (if delim = NUL then CHR '':'' else delim);
          h = (if dedup then Some (ht_make H) else None);
          ba = to_delim_loop H d h [] l
      in if length ba > 0 then take (length ba - 1) ba else ba)"

section \<open>Textual booleans\<close>

text \<open>\<^verbatim>\<open>strbool\<close>; \<open>None\<close> is the null pointer.\<close>

definition strbool :: "string option \<Rightarrow> int" where
  "strbool str =
     (case str of None \<Rightarrow> - 1
      | Some s \<Rightarrow>
          if s = ''1'' \<or> strcaseeq s ''yes'' \<or> strcaseeq s ''true'' \<or> strcaseeq s ''on'' then 1
          else if s = ''0'' \<or> s = ''no'' \<or> strcaseeq s ''false'' \<or> strcaseeq s ''off'' then 0
          else - 1)"

section \<open>Pairs\<close>

record pair =
  pair_key :: string
  pair_value :: string

definition pair_create_len :: "string \<Rightarrow> nat \<Rightarrow> string \<Rightarrow> nat \<Rightarrow> pair" where
  "pair_create_len key klen value vlen = \<lparr> pair_key = take klen key, pair_value = take vlen value \<rparr>"

definition pair_create :: "string \<Rightarrow> string \<Rightarrow> pair" where
  "pair_create key value = pair_create_len key (length key) value (length value)"

definition pair_clone :: "pair \<Rightarrow> pair" where
  "pair_clone p = pair_create (pair_key p) (pair_value p)"

lemma pair_create_simp [simp]: "pair_create k v = \<lparr> pair_key = k, pair_value = v \<rparr>"
  by (simp add: pair_create_def pair_create_len_def)

lemma pair_clone_id [simp]: "pair_clone p = p"
  by (simp add: pair_clone_def)

section \<open>Reference definitions\<close>

text \<open>
  What the delimited-string functions are meant to compute: \<open>splits\<close> cuts a string at every delimiter,
  \<open>join_delim\<close> puts a delimiter between the elements of a list, \<open>firsts\<close> keeps the first occurrence of
  every element.
\<close>

fun splits :: "char \<Rightarrow> string \<Rightarrow> string \<Rightarrow> string list" where
  "splits d w [] = [w]"
| "splits d w (c # q) = (if c = d then w # splits d [] q else splits d (w @ [c]) q)"

fun join_delim :: "char \<Rightarrow> string list \<Rightarrow> string" where
  "join_delim d [] = []"
| "join_delim d [s] = s"
| "join_delim d (s # t # l) = s @ d # join_delim d (t # l)"

fun firsts :: "'a set \<Rightarrow> 'a list \<Rightarrow> 'a list" where
  "firsts S [] = []"
| "firsts S (x # xs) = (if x \<in> S then firsts S xs else x # firsts (insert x S) xs)"

lemma set_firsts: "set (firsts S xs) = set xs - S"
  by (induction S xs rule: firsts.induct) auto

lemma distinct_firsts: "distinct (firsts S xs)"
  by (induction S xs rule: firsts.induct) (auto simp: set_firsts)

lemma subseq_firsts: "subseq (firsts S xs) xs"
  by (induction S xs rule: firsts.induct) auto

lemma firsts_id: "distinct xs \<Longrightarrow> set xs \<inter> S = {} \<Longrightarrow> firsts S xs = xs"
  by (induction S xs rule: firsts.induct) auto

lemma splits_nonempty [simp]: "splits d w q \<noteq> []"
  by (induction q arbitrary: w) auto

lemma join_Cons: "l \<noteq> [] \<Longrightarrow> join_delim d (s # l) = s @ d # join_delim d l"
  by (cases l) auto

lemma join_splits: "join_delim d (splits d w q) = w @ q"
  by (induction q arbitrary: w) (auto simp: join_Cons)

lemma splits_word: "d \<notin> set s \<Longrightarrow> splits d w (s @ q) = splits d (w @ s) q"
  by (induction s arbitrary: w) auto

lemma splits_join:
  "l \<noteq> [] \<Longrightarrow> (\<And>s. s \<in> set l \<Longrightarrow> d \<notin> set s) \<Longrightarrow> splits d [] (join_delim d l) = l"
proof (induction d l rule: join_delim.induct)
  case (2 d s)
  then show ?case using splits_word [of d s "[]" "[]"] by simp
qed (auto simp: splits_word)

lemma join_take:
  "l \<noteq> [] \<Longrightarrow> concat (map (\<lambda>s. s @ [d]) l) = join_delim d l @ [d]"
  by (induction d l rule: join_delim.induct) auto

section \<open>The loops compute the reference definitions\<close>

lemma from_delim_loop_None:
  "from_delim_loop H d blank None l w q = l @ filter (\<lambda>s. blank \<or> s \<noteq> []) (splits d w q)"
  by (induction q arbitrary: l w) auto

lemma to_delim_loop_None: "to_delim_loop H d None ba l = ba @ concat (map (\<lambda>s. s @ [d]) l)"
  by (induction l arbitrary: ba) auto

lemma delim_default: "d \<noteq> NUL \<Longrightarrow> (if d = NUL then CHR '':'' else d) = d"
  by simp

lemma from_delim_plain:
  "d \<noteq> NUL \<Longrightarrow> strlist_from_delim H s d blank False = filter (\<lambda>s. blank \<or> s \<noteq> []) (splits d [] s)"
  by (simp add: strlist_from_delim_def from_delim_loop_None)

lemma to_delim_plain: "d \<noteq> NUL \<Longrightarrow> strlist_to_delim H l d False = join_delim d l"
  by (cases "l = []") (simp_all add: strlist_to_delim_def to_delim_loop_None join_take)

text \<open>A table whose keys are the words seen so far.\<close>

locale word_table = hash_table H for H :: "(string, string, 'h) hash_ops"
begin

lemma to_delim_loop_firsts:
  assumes "\<And>k. k \<in> S \<longleftrightarrow> ht_get H t k \<noteq> None"
  shows "to_delim_loop H d (Some t) ba l = ba @ concat (map (\<lambda>s. s @ [d]) (firsts S l))"
  using assms
proof (induction l arbitrary: t ba S)
  case Nil
  then show ?case by simp
next
  case (Cons s l)
  have "to_delim_loop H d (Some (snd (ht_put H t s s))) (ba @ s @ [d]) l =
    (ba @ s @ [d]) @ concat (map (\<lambda>s. s @ [d]) (firsts (insert s S) l))"
    by (rule Cons.IH) (use Cons.prems in auto)
  with Cons.IH [OF Cons.prems] Cons.prems [of s] show ?case by simp
qed

lemma to_delim_dedup:
  "d \<noteq> NUL \<Longrightarrow> strlist_to_delim H l d True = join_delim d (firsts {} l)"
  using to_delim_loop_firsts [of "{}" "ht_make H"]
  by (cases "firsts {} l = []") (simp_all add: strlist_to_delim_def join_take)

lemma from_delim_loop_distinct:
  assumes "distinct (filter (\<lambda>s. blank \<or> s \<noteq> []) (splits d w q))"
    and "\<And>s. s \<in> set (splits d w q) \<Longrightarrow> blank \<or> s \<noteq> [] \<Longrightarrow> ht_get H t s = None"
  shows "from_delim_loop H d blank (Some t) l w q =
    l @ filter (\<lambda>s. blank \<or> s \<noteq> []) (splits d w q)"
  using assms
proof (induction q arbitrary: l w t)
  case Nil
  then show ?case by auto
next
  case (Cons c q)
  show ?case
  proof (cases "c = d \<and> (blank \<or> w \<noteq> [])")
    case True
    with Cons.prems(2) have "ht_get H t w = None" by auto
    moreover have "from_delim_loop H d blank (Some (snd (ht_put H t w w))) (l @ [w]) [] q
      = (l @ [w]) @ filter (\<lambda>s. blank \<or> s \<noteq> []) (splits d [] q)"
      by (rule Cons.IH) (use True Cons.prems in auto)
    ultimately show ?thesis using True by auto
  next
    case False
    with Cons show ?thesis by auto
  qed
qed

lemma from_delim_distinct:
  assumes "d \<noteq> NUL" and "distinct (filter (\<lambda>s. blank \<or> s \<noteq> []) (splits d [] str))"
  shows "strlist_from_delim H str d blank True = strlist_from_delim H str d blank False"
  using assms from_delim_loop_distinct [OF assms(2), of "ht_make H" "[]"]
  by (simp add: strlist_from_delim_def from_delim_loop_None)

end

interpretation alist_words: word_table alist_ops ..

section \<open>Vectors\<close>

lemma vec_size_eq:
  "vec_size l (p, s) = (p + 8 * length l, s + length (concat (map (\<lambda>s. s @ [NUL]) l)))"
  by (induction l arbitrary: p s) auto

lemma vec_copy_Cons:
  "vec_copy str (s # l) = (Some str # fst (vec_copy (str + length s + 1) l),
                           s @ [NUL] @ snd (vec_copy (str + length s + 1) l))"
  by (simp add: Let_def split: prod.splits)

declare vec_copy.simps(2) [simp del] vec_copy_Cons [simp]

lemma vec_copy_area: "snd (vec_copy str l) = concat (map (\<lambda>s. s @ [NUL]) l)"
  by (induction l arbitrary: str) simp_all

lemma vec_copy_length: "length (fst (vec_copy str l)) = length l + 1"
  by (induction l arbitrary: str) simp_all

lemma vec_copy_last: "fst (vec_copy str l) ! length l = None"
  by (induction l arbitrary: str) simp_all

lemma vec_copy_ptr:
  "i < length l \<Longrightarrow>
   fst (vec_copy str l) ! i = Some (str + length (concat (map (\<lambda>s. s @ [NUL]) (take i l))))"
proof (induction l arbitrary: str i)
  case Nil
  then show ?case by simp
next
  case (Cons s l)
  show ?case
  proof (cases i)
    case 0
    then show ?thesis by simp
  next
    case (Suc j)
    with Cons.prems have "fst (vec_copy (str + length s + 1) l) ! j =
      Some (str + length s + 1 + length (concat (map (\<lambda>s. s @ [NUL]) (take j l))))"
      using Cons.IH [of j] by simp
    with Suc show ?thesis by simp
  qed
qed

lemma area_drop:
  "i < length l \<Longrightarrow>
   drop (length (concat (map (\<lambda>s. s @ [NUL]) (take i l)))) (concat (map (\<lambda>s. s @ [NUL]) l))
   = concat (map (\<lambda>s. s @ [NUL]) (drop i l))"
  by (metis append_eq_conv_conj append_take_drop_id concat_append map_append)

section \<open>Properties\<close>

text \<open>
  C39. Splitting a string at a delimiter, keeping empty elements, and joining the list again gives the
  string back; joining a non-empty list of delimiter-free strings and splitting again gives the
  list back.
\<close>

theorem delim_roundtrip:
  assumes "d \<noteq> NUL" and "l \<noteq> []" and "\<forall>s \<in> set l. d \<notin> set s"
  shows "strlist_to_delim H (strlist_from_delim H str d True False) d False = str
    \<and> strlist_from_delim H (strlist_to_delim H l d False) d True False = l"
  using assms by (simp add: from_delim_plain to_delim_plain join_splits splits_join)

theorem delim_roundtrip_witness:
  "strlist_to_delim alist_ops (strlist_from_delim alist_ops ''/usr/bin/'' (CHR ''/'') True False)
     (CHR ''/'') False = ''/usr/bin/''
   \<and> strlist_from_delim alist_ops (strlist_to_delim alist_ops [''a'', [], ''b''] (CHR ''/'') False)
     (CHR ''/'') True False = [''a'', [], ''b'']"
  using delim_roundtrip [of "CHR ''/''" "[''a'', [], ''b'']" alist_ops "''/usr/bin/''"] by simp

text \<open>
  With de-duplication, joining emits exactly the first occurrence of every element, in the order of
  the list: what comes out splits into a subsequence of the input without repetitions and with the
  same elements.
\<close>

theorem to_delim_dedup_first:
  assumes "hash_table H" and "d \<noteq> NUL" and "l \<noteq> []" and "\<forall>s \<in> set l. d \<notin> set s"
  shows "\<exists>l'. strlist_to_delim H l d True = strlist_to_delim H l' d False
    \<and> strlist_from_delim H (strlist_to_delim H l d True) d True False = l'
    \<and> distinct l' \<and> set l' = set l \<and> subseq l' l \<and> hd l' = hd l"
proof (intro exI conjI)
  from assms(1) have H: "word_table H" by (rule word_table.intro)
  note to = word_table.to_delim_dedup [OF H assms(2), of l]
  have ne: "firsts {} l \<noteq> []" using assms(3) set_firsts [of "{}" l] by auto
  show "strlist_to_delim H l d True = strlist_to_delim H (firsts {} l) d False"
    using assms(2) by (simp add: to to_delim_plain)
  show "strlist_from_delim H (strlist_to_delim H l d True) d True False = firsts {} l"
    using assms(2,4) splits_join [OF ne, of d] by (simp add: to from_delim_plain set_firsts)
  show "hd (firsts {} l) = hd l" using assms(3) by (cases l) auto
qed (simp_all add: distinct_firsts set_firsts subseq_firsts)

theorem to_delim_dedup_first_witness:
  "\<exists>l'. strlist_to_delim alist_ops [''foo'', ''bar'', ''foo''] (CHR '':'') True =
      strlist_to_delim alist_ops l' (CHR '':'') False
    \<and> strlist_from_delim alist_ops
        (strlist_to_delim alist_ops [''foo'', ''bar'', ''foo''] (CHR '':'') True) (CHR '':'') True False = l'
    \<and> distinct l' \<and> set l' = set [''foo'', ''bar'', ''foo'']
    \<and> subseq l' [''foo'', ''bar'', ''foo''] \<and> hd l' = ''foo''"
  using to_delim_dedup_first [OF alist_table.hash_table_axioms, of "CHR '':''" "[''foo'', ''bar'', ''foo'']"]
  by simp

text \<open>
  Splitting with de-duplication agrees with splitting without it when no element is repeated. When
  an element \<open>x\<close> is repeated and followed by another, the repetition is not dropped as documented:
  the element after it comes out glued to the repetition, delimiter included.
\<close>

theorem from_delim_dedup:
  assumes "hash_table H" and "d \<noteq> NUL"
    and "distinct (filter (\<lambda>s. blank \<or> s \<noteq> []) (splits d [] str))"
    and "x \<noteq> []" and "y \<noteq> []" and "d \<notin> set x" and "d \<notin> set y"
  shows "strlist_from_delim H str d blank True = strlist_from_delim H str d blank False
    \<and> strlist_from_delim H (x @ d # x @ d # y) d blank True = [x, x @ d # y]"
proof
  from assms(1) have H: "word_table H" by (rule word_table.intro)
  show "strlist_from_delim H str d blank True = strlist_from_delim H str d blank False"
    by (rule word_table.from_delim_distinct [OF H assms(2,3)])
  have scan: "from_delim_loop H d blank h l w (z @ q) = from_delim_loop H d blank h l (w @ z) q"
    if "d \<notin> set z" for h l w z q
    using that by (induction z arbitrary: w) auto
  have last: "from_delim_loop H d blank h l w y = from_delim_loop H d blank h l (w @ y) []" for h l w
    using scan [of y h l w "[]"] assms(7) by simp
  show "strlist_from_delim H (x @ d # x @ d # y) d blank True = [x, x @ d # y]"
    using assms by (simp add: strlist_from_delim_def scan last hash_table.table_rules)
qed

theorem from_delim_dedup_witness:
  "strlist_from_delim alist_ops ''a:b'' (CHR '':'') False True
     = strlist_from_delim alist_ops ''a:b'' (CHR '':'') False False
   \<and> strlist_from_delim alist_ops ''foo:foo:bar'' (CHR '':'') False True = [''foo'', ''foo:bar'']"
  using from_delim_dedup [OF alist_table.hash_table_axioms,
      of "CHR '':''" False "''a:b''" "''foo''" "''bar''"]
  by simp

text \<open>
  The argument vector for \<^verbatim>\<open>execve\<close>: the pointer part is full and ends in a null pointer, the strings
  fill the rest of the allocated block exactly, and every pointer refers to a string equal to the
  list element it stands for.
\<close>

theorem vector_layout:
  assumes "\<forall>s \<in> set l. NUL \<notin> set s" and "i < length l"
  defines "v \<equiv> strlist_to_vector l"
  shows "vec_base v = 8 * length (vec_ptrs v) \<and> length (vec_ptrs v) = length l + 1
    \<and> vec_base v + length (vec_area v) = vec_alloc v \<and> vec_ptrs v ! length l = None
    \<and> (\<exists>off. vec_ptrs v ! i = Some off \<and> vec_base v \<le> off \<and> off < vec_alloc v
          \<and> vec_string v off = l ! i)"
proof -
  let ?area = "\<lambda>l. concat (map (\<lambda>s. s @ [NUL]) l)"
  have v: "vec_alloc v = 8 * length l + 8 + length (?area l)" "vec_base v = 8 * length l + 8"
    "vec_ptrs v = fst (vec_copy (8 * length l + 8) l)" "vec_area v = ?area l"
    using vec_copy_area [of "8 * length l + 8" l]
    by (simp_all add: v_def strlist_to_vector_def vec_size_eq case_prod_unfold Let_def)
  from assms(2) have l: "drop i l = l ! i # drop (Suc i) l" by (simp add: Cons_nth_drop_Suc)
  have "?area l = ?area (take i l) @ ?area (drop i l)"
    by (metis append_take_drop_id concat_append map_append)
  then have "length (?area (take i l)) < length (?area l)" by (simp add: l)
  moreover have "takeWhile (\<lambda>c. c \<noteq> NUL) (l ! i @ NUL # ?area (drop (Suc i) l)) = l ! i"
    by (rule takeWhile_append_stop) (use assms in auto)
  ultimately show ?thesis
    using area_drop [OF assms(2)] l assms(2)
    by (simp add: v vec_copy_length vec_copy_last vec_copy_ptr vec_string_def)
qed

theorem vector_layout_witness:
  "vec_base (strlist_to_vector [''ls'', ''-l'']) = 24
   \<and> vec_alloc (strlist_to_vector [''ls'', ''-l'']) = 30
   \<and> (\<exists>off. vec_ptrs (strlist_to_vector [''ls'', ''-l'']) ! 1 = Some off
       \<and> vec_string (strlist_to_vector [''ls'', ''-l'']) off = ''-l'')"
  using vector_layout [of "[''ls'', ''-l'']" 1] by (auto simp: strlist_to_vector_def)

end
