(* ===== verification/Environment.thy ===== *)
theory Environment
  imports Strlist
begin

text \<open>
  \<^verbatim>\<open>src/common/environment.c\<close>: process environments. An environment is its table of variables, from
  names to pairs; the table operations are the parameter \<open>H\<close>.
\<close>

section \<open>Operations\<close>

definition environment_create :: "(string, pair, 'h) hash_ops \<Rightarrow> 'h" where
  "environment_create H = ht_make H"

text \<open>
  \<^verbatim>\<open>environment_set\<close>: \<open>Some EEXIST\<close> stands for the return value \<open>-1\<close> with that \<^verbatim>\<open>errno\<close>. When
  the variable exists and is not to be overwritten, the pair and the element are destroyed although
  they are still in the table.
\<close>

definition environment_set ::
  "(string, pair, 'h) hash_ops \<Rightarrow> 'h \<Rightarrow> string \<Rightarrow> string \<Rightarrow> bool \<Rightarrow> (errno option \<times> 'h) outcome" where
  "environment_set H env name val overwrite =
     (let e = ht_get H env name;
          env' = (if e = None \<or> overwrite
                  then snd (ht_put H env name (pair_create name val)) else env)
      in if e \<noteq> None then (if overwrite then Defined (Some EEXIST, env') else UB)
         else Defined (None, env'))"

text \<open>
  \<^verbatim>\<open>environment_put\<close>. The lookup is made with the pointer \<^verbatim>\<open>name\<close>, which is the whole string
  \<open>NAME=VALUE\<close>; the insertion is made with the name alone.
\<close>

definition environment_put ::
  "(string, pair, 'h) hash_ops \<Rightarrow> 'h \<Rightarrow> string \<Rightarrow> bool \<Rightarrow> (errno option \<times> 'h) outcome" where
  "environment_put H env name_value overwrite =
     (let eq = length (takeWhile (\<lambda>c. c \<noteq> CHR ''='') name_value);
          val = (if eq < length name_value then drop (eq + 1) name_value else []);
          e = ht_get H env name_value
      in if e = None \<or> overwrite then
           let p = pair_create_len name_value eq val (length val);
               (e', env') = ht_put H env (pair_key p) p
           in Defined (if e' \<noteq> None then Some EEXIST else None, env')
         else UB)"

definition environment_get :: "(string, pair, 'h) hash_ops \<Rightarrow> 'h \<Rightarrow> string \<Rightarrow> string option" where
  "environment_get H env name =
     (case ht_get H env name of None \<Rightarrow> None | Some p \<Rightarrow> Some (pair_value p))"

text \<open>The loop of \<^verbatim>\<open>environment_merge\<close> over the elements of the second environment.\<close>

fun merge_loop ::
  "(string, pair, 'h) hash_ops \<Rightarrow> 'h \<Rightarrow> (string \<times> pair) list \<Rightarrow> bool \<Rightarrow> 'h outcome" where
  "merge_loop H env [] overwrite = Defined env"
| "merge_loop H env ((k, p) # es) overwrite =
     (case environment_set H env (pair_key p) (pair_value p) overwrite of
        UB \<Rightarrow> UB
      | Defined (r, env') \<Rightarrow> merge_loop H env' es overwrite)"

definition environment_merge :: "(string, pair, 'h) hash_ops \<Rightarrow> 'h \<Rightarrow> 'h \<Rightarrow> bool \<Rightarrow> 'h outcome" where
  "environment_merge H env other overwrite = merge_loop H env (ht_elems H other) overwrite"

definition environment_clone :: "(string, pair, 'h) hash_ops \<Rightarrow> 'h \<Rightarrow> 'h outcome" where
  "environment_clone H other = environment_merge H (environment_create H) other True"

fun environment_remove_keys :: "(string, pair, 'h) hash_ops \<Rightarrow> 'h \<Rightarrow> string list \<Rightarrow> 'h" where
  "environment_remove_keys H env [] = env"
| "environment_remove_keys H env (k # ks) = environment_remove_keys H (snd (ht_pop H env k)) ks"

definition environment_list :: "(string, pair, 'h) hash_ops \<Rightarrow> 'h \<Rightarrow> string list" where
  "environment_list H env = map (\<lambda>(k, p). pair_key p @ ''='' @ pair_value p) (ht_elems H env)"

text \<open>\<open>None\<close> as the second argument is the null pointer: a new byte array is made.\<close>

definition environment_to_byte_array ::
  "(string, pair, 'h) hash_ops \<Rightarrow> 'h \<Rightarrow> byte_array option \<Rightarrow> byte_array option" where
  "environment_to_byte_array H env ba =
     byte_array_appends (case ba of None \<Rightarrow> make_byte_array SIZE_MAX | Some b \<Rightarrow> b)
       (map (\<lambda>(k, p). pair_key p @ ''='' @ pair_value p @ [NL]) (ht_elems H env))"

definition environment_to_string :: "(string, pair, 'h) hash_ops \<Rightarrow> 'h \<Rightarrow> string option" where
  "environment_to_string H env =
     (case environment_to_byte_array H env (Some (make_byte_array SIZE_MAX)) of
        None \<Rightarrow> None
      | Some ba \<Rightarrow> Some (ba_data ba))"

section \<open>Environments as maps\<close>

text \<open>Well-formed: every pair is stored under its own key.\<close>

definition env_wf :: "(string, pair, 'h) hash_ops \<Rightarrow> 'h \<Rightarrow> bool" where
  "env_wf H env \<longleftrightarrow> (\<forall>(k, p) \<in> set (ht_elems H env). pair_key p = k)"

text \<open>Inserting a list of \<open>NAME=VALUE\<close> strings, replacing what is there.\<close>

fun put_all :: "(string, pair, 'h) hash_ops \<Rightarrow> 'h \<Rightarrow> string list \<Rightarrow> 'h outcome" where
  "put_all H env [] = Defined env"
| "put_all H env (s # ss) =
     (case environment_put H env s True of UB \<Rightarrow> UB | Defined (r, env') \<Rightarrow> put_all H env' ss)"

text \<open>The effect of a sequence of assignments on a map of variables.\<close>

fun assign_all :: "(string \<rightharpoonup> string) \<Rightarrow> (string \<times> pair) list \<Rightarrow> string \<rightharpoonup> string" where
  "assign_all m [] = m"
| "assign_all m ((k, p) # es) = assign_all (m(k \<mapsto> pair_value p)) es"

lemma assign_all_distinct:
  "distinct (map fst es) \<Longrightarrow> assign_all m es = m ++ (map_option pair_value \<circ> map_of es)"
proof (induction es arbitrary: m)
  case (Cons e es)
  obtain k p where e: "e = (k, p)" by (cases e)
  with Cons.prems have "map_of es k = None" by (simp add: map_of_eq_None_iff)
  with Cons e show ?case by (auto simp: fun_eq_iff map_add_def split: option.splits)
qed (auto simp: map_add_def)

locale env_table = hash_table H for H :: "(string, pair, 'h) hash_ops"
begin

lemma wf_iff: "env_wf H env \<longleftrightarrow> (\<forall>k p. ht_get H env k = Some p \<longrightarrow> pair_key p = k)"
  unfolding env_wf_def by (rule elems_all)

lemma environment_get_eq: "environment_get H env = map_option pair_value \<circ> ht_get H env"
  by (rule ext) (simp add: environment_get_def split: option.split)

lemma get_create [simp]: "environment_get H (environment_create H) = Map.empty"
  by (rule ext) (simp add: environment_get_def environment_create_def)

lemma wf_create: "env_wf H (environment_create H)"
  by (simp add: wf_iff environment_create_def)

lemma put_get:
  "env_wf H env \<Longrightarrow> env_wf H (snd (ht_put H env k (pair_create k v)))"
  "environment_get H (snd (ht_put H env k (pair_create k v))) = (environment_get H env)(k \<mapsto> v)"
  by (simp_all add: wf_iff environment_get_eq fun_eq_iff)

lemma set_defined:
  assumes "env_wf H env" and "overwrite \<or> environment_get H env name = None"
  shows "\<exists>env'. environment_set H env name val overwrite =
      Defined (if environment_get H env name = None then None else Some EEXIST, env') \<and>
    env_wf H env' \<and> environment_get H env' = (environment_get H env)(name \<mapsto> val)"
proof -
  have "environment_get H env name = None \<longleftrightarrow> ht_get H env name = None"
    by (simp add: environment_get_eq)
  with assms put_get [of env name val] show ?thesis by (auto simp: environment_set_def Let_def)
qed

lemma put_split:
  assumes "CHR ''='' \<notin> set name"
  shows "environment_put H env (name @ ''='' @ val) overwrite =
    (if ht_get H env (name @ ''='' @ val) = None \<or> overwrite then
       Defined (if ht_get H env name \<noteq> None then Some EEXIST else None,
         snd (ht_put H env name (pair_create name val)))
     else UB)"
proof -
  have "takeWhile (\<lambda>c. c \<noteq> CHR ''='') (name @ ''='' @ val) = name"
    by (rule takeWhile_append_stop) (use assms in auto)
  moreover obtain o' env' where "ht_put H env name (pair_create name val) = (o', env')"
    by (cases "ht_put H env name (pair_create name val)")
  moreover from this have "o' = ht_get H env name" using put_old by (metis fst_conv)
  ultimately show ?thesis
    by (simp add: environment_put_def Let_def pair_create_len_def)
qed

lemma merge_loop_overwrite:
  assumes "env_wf H env" and "\<forall>(k, p) \<in> set es. pair_key p = k"
  shows "\<exists>env'. merge_loop H env es True = Defined env' \<and> env_wf H env' \<and>
    environment_get H env' = assign_all (environment_get H env) es"
  using assms
proof (induction es arbitrary: env)
  case (Cons e es)
  obtain k p where e: "e = (k, p)" by (cases e)
  with Cons.prems have k: "pair_key p = k" by simp
  obtain env1 where 1: "environment_set H env k (pair_value p) True =
      Defined (if environment_get H env k = None then None else Some EEXIST, env1)"
      "env_wf H env1" "environment_get H env1 = (environment_get H env)(k \<mapsto> pair_value p)"
    using set_defined [of env True] Cons.prems by blast
  with Cons.IH [OF 1(2)] Cons.prems k e show ?case by (simp del: fun_upd_apply)
qed simp

lemma assign_elems: "assign_all m (ht_elems H h) = m ++ environment_get H h"
  using assign_all_distinct [OF elems_distinct] by (simp add: environment_get_eq)

lemma merge_overwrite:
  assumes "env_wf H env" and "env_wf H other"
  shows "\<exists>env'. environment_merge H env other True = Defined env' \<and> env_wf H env' \<and>
    environment_get H env' = environment_get H env ++ environment_get H other"
  using merge_loop_overwrite [OF assms(1), of "ht_elems H other"] assms(2)
  by (simp add: environment_merge_def env_wf_def assign_elems)

lemma pop_get:
  "env_wf H env \<Longrightarrow> env_wf H (snd (ht_pop H env k))"
  "environment_get H (snd (ht_pop H env k)) = (environment_get H env)(k := None)"
  by (simp_all add: wf_iff environment_get_eq fun_eq_iff)

lemma remove_keys_get:
  "env_wf H env \<Longrightarrow> env_wf H (environment_remove_keys H env ks) \<and>
    environment_get H (environment_remove_keys H env ks) = environment_get H env |` (- set ks)"
proof (induction ks arbitrary: env)
  case (Cons k ks)
  have "environment_get H env |` (- set (k # ks)) = (environment_get H env)(k := None) |` (- set ks)"
    by (simp add: restrict_map_def fun_eq_iff)
  with Cons.IH [OF pop_get(1) [OF Cons.prems]] show ?case by (simp only: environment_remove_keys.simps pop_get(2))
qed (simp add: restrict_map_def)

lemma put_all_lines:
  assumes "env_wf H env" and "\<forall>(k, p) \<in> set es. pair_key p = k \<and> CHR ''='' \<notin> set k"
  shows "\<exists>env'. put_all H env (map (\<lambda>(k, p). pair_key p @ ''='' @ pair_value p) es) = Defined env' \<and>
    env_wf H env' \<and> environment_get H env' = assign_all (environment_get H env) es"
  using assms
proof (induction es arbitrary: env)
  case (Cons e es)
  obtain k p where e: "e = (k, p)" by (cases e)
  with Cons.prems have k: "pair_key p = k" "CHR ''='' \<notin> set k" by auto
  define env1 where "env1 = snd (ht_put H env k (pair_create k (pair_value p)))"
  have wf: "env_wf H env1" using Cons.prems put_get(1) unfolding env1_def by blast
  have "environment_get H env1 = (environment_get H env)(k \<mapsto> pair_value p)"
    unfolding env1_def by (rule put_get(2))
  with Cons.IH [OF wf] Cons.prems k e put_split [OF k(2), of env "pair_value p" True, folded env1_def]
  show ?case by (simp del: fun_upd_apply)
qed simp

end

interpretation alist_env: env_table alist_ops
  by (rule env_table.intro) (rule alist_table.hash_table_axioms)

lemma alist_env_get:
  "environment_get alist_ops [] = Map.empty"
  "environment_get alist_ops ((k, p) # es) = (environment_get alist_ops es)(k \<mapsto> pair_value p)"
  by (auto simp: environment_get_def fun_eq_iff)

section \<open>Properties of environments\<close>

text \<open>
  Setting a variable that may be overwritten or is new succeeds: it keeps the environment
  well-formed, gives the variable its value, leaves every other variable alone and reports whether
  the variable existed.
\<close>

theorem environment_set_get:
  assumes "hash_table H" and "env_wf H env" and "overwrite \<or> environment_get H env name = None"
  shows "\<exists>env'. environment_set H env name val overwrite =
      Defined (if environment_get H env name = None then None else Some EEXIST, env') \<and>
    env_wf H env' \<and> environment_get H env' = (environment_get H env)(name \<mapsto> val)"
  by (rule env_table.set_defined [OF env_table.intro [OF assms(1)] assms(2,3)])

theorem environment_set_get_witness:
  "\<exists>env'. environment_set alist_ops [(''A'', pair_create ''A'' ''1'')] ''A'' ''2'' True =
      Defined (Some EEXIST, env') \<and> environment_get alist_ops env' ''A'' = Some ''2''"
  using environment_set_get [OF alist_table.hash_table_axioms,
      of "[(''A'', pair_create ''A'' ''1'')]" True "''A''" "''2''"]
  by (auto simp: env_wf_def alist_env_get)

text \<open>
  C38. Merging with overwriting is the right-biased union of the two environments, and a clone has
  the same variables as the original.
\<close>

theorem environment_merge_union:
  assumes "hash_table H" and "env_wf H env" and "env_wf H other"
  shows "(\<exists>env'. environment_merge H env other True = Defined env' \<and> env_wf H env' \<and>
      environment_get H env' = environment_get H env ++ environment_get H other) \<and>
    (\<exists>env'. environment_clone H other = Defined env' \<and> env_wf H env' \<and>
      environment_get H env' = environment_get H other)"
proof -
  from assms(1) have t: "env_table H" by (rule env_table.intro)
  note merge = env_table.merge_overwrite [OF t _ assms(3)]
  from merge [OF assms(2)] merge [OF env_table.wf_create [OF t]] show ?thesis
    by (simp add: environment_clone_def env_table.get_create [OF t])
qed

theorem environment_merge_union_witness:
  "\<exists>env'. environment_merge alist_ops
        [(''A'', pair_create ''A'' ''1''), (''B'', pair_create ''B'' ''2'')]
        [(''B'', pair_create ''B'' ''3'')] True = Defined env' \<and>
      environment_get alist_ops env' ''A'' = Some ''1'' \<and>
      environment_get alist_ops env' ''B'' = Some ''3''"
  using environment_merge_union [OF alist_table.hash_table_axioms,
      of "[(''A'', pair_create ''A'' ''1''), (''B'', pair_create ''B'' ''2'')]"
        "[(''B'', pair_create ''B'' ''3'')]"]
  by (auto simp: env_wf_def alist_env_get)

text \<open>
  The list form is faithful: putting every string of \<^verbatim>\<open>environment_list\<close> into an empty
  environment gives an environment with the same variables, when no name contains an equal sign.
\<close>

theorem environment_list_roundtrip:
  assumes "hash_table H" and "env_wf H env"
    and "\<forall>name. environment_get H env name \<noteq> None \<longrightarrow> CHR ''='' \<notin> set name"
  shows "\<exists>env'. put_all H (environment_create H) (environment_list H env) = Defined env' \<and>
    environment_get H env' = environment_get H env"
proof -
  from assms(1) have t: "env_table H" by (rule env_table.intro)
  have "\<forall>(k, p) \<in> set (ht_elems H env). pair_key p = k \<and> CHR ''='' \<notin> set k"
  proof (clarify, intro conjI)
    fix k p assume kp: "(k, p) \<in> set (ht_elems H env)"
    with assms(2) show "pair_key p = k" by (auto simp: env_wf_def)
    from kp have "environment_get H env k = Some (pair_value p)"
      by (simp add: environment_get_def hash_table.elems_get [OF assms(1)])
    with assms(3) show "CHR ''='' \<notin> set k" by auto
  qed
  from env_table.put_all_lines [OF t env_table.wf_create [OF t] this] show ?thesis
    by (auto simp: environment_list_def env_table.assign_elems [OF t] env_table.get_create [OF t])
qed

theorem environment_list_roundtrip_witness:
  "environment_list alist_ops [(''A'', pair_create ''A'' ''b=c'')] = [''A=b=c''] \<and>
   (\<exists>env'. put_all alist_ops [] [''A=b=c''] = Defined env' \<and>
      environment_get alist_ops env' ''A'' = Some ''b=c'')"
  using environment_list_roundtrip [OF alist_table.hash_table_axioms,
      of "[(''A'', pair_create ''A'' ''b=c'')]"]
  by (fastforce simp: env_wf_def alist_env_get environment_list_def environment_create_def
      simp del: put_all.simps split: if_splits)

text \<open>
  Without permission to overwrite, existing variables are not kept as promised:
  \<^verbatim>\<open>environment_set\<close> frees a pair that is still in the table, and \<^verbatim>\<open>environment_put\<close>, which looks
  for a variable named by the whole string, replaces the value.
\<close>

theorem environment_keep_broken:
  assumes "hash_table H" and "environment_get H env name \<noteq> None" and "CHR ''='' \<notin> set name"
    and "environment_get H env (name @ ''='' @ val) = None"
  shows "environment_set H env name val False = UB \<and>
    (\<exists>env'. environment_put H env (name @ ''='' @ val) False = Defined (Some EEXIST, env') \<and>
      environment_get H env' name = Some val)"
proof -
  from assms(1) have t: "env_table H" by (rule env_table.intro)
  from assms have "ht_get H env name \<noteq> None" "ht_get H env (name @ ''='' @ val) = None"
    by (auto simp: environment_get_def split: option.splits)
  moreover have "environment_get H (snd (ht_put H env name (pair_create name val))) name = Some val"
    using assms(1) by (simp add: environment_get_def hash_table.get_put)
  ultimately show ?thesis
    using env_table.put_split [OF t assms(3), of env val False] by (simp add: environment_set_def)
qed

theorem environment_keep_broken_witness:
  "environment_set alist_ops [(''HOME'', pair_create ''HOME'' ''/'')] ''HOME'' ''/root'' False = UB"
  using environment_keep_broken [OF alist_table.hash_table_axioms,
      of "[(''HOME'', pair_create ''HOME'' ''/'')]" "''HOME''" "''/root''"]
  by (simp add: alist_env_get)

end
