(* ===== verification/Unit_File.thy ===== *)
theory Unit_File
  imports Strlist
begin

text \<open>
  \<^verbatim>\<open>src/common/unit.c\<close>: unit files in memory, a table of named sections each of which is a table of
  pairs. The tables of sections and of pairs have the operations \<open>Hs\<close> and \<open>Hp\<close>. The second half of
  the theory is the contract by which the parser and the services use units: a locale for stores of
  values under two keys, and the proof that units are such a store.
\<close>

section \<open>Operations\<close>

record 'p unit_section =
  section_name :: string
  section_pairs :: 'p

record 's unit_file =
  unit_file_name :: string
  unit_sections :: 's

type_synonym ('p, 's) section_ops = "(string, 'p unit_section, 's) hash_ops"
type_synonym 'p pair_ops = "(string, pair, 'p) hash_ops"

definition section_create :: "'p pair_ops \<Rightarrow> string \<Rightarrow> 'p unit_section" where
  "section_create Hp name = \<lparr> section_name = name, section_pairs = ht_make Hp \<rparr>"

definition unit_create :: "('p, 's) section_ops \<Rightarrow> string \<Rightarrow> 's unit_file" where
  "unit_create Hs name = \<lparr> unit_file_name = name, unit_sections = ht_make Hs \<rparr>"

text \<open>
  \<^verbatim>\<open>unit_update_value\<close>. The section is mutated in place, which the model writes as a second
  insertion under the same name. A value of \<open>None\<close> is the null pointer: the old pair is freed but
  stays in the table, so nothing is guaranteed when there is one.
\<close>

definition unit_update_value ::
  "('p, 's) section_ops \<Rightarrow> 'p pair_ops \<Rightarrow> 's unit_file \<Rightarrow> string \<Rightarrow> string \<Rightarrow> string option \<Rightarrow> bool \<Rightarrow>
   (int \<times> 's unit_file) outcome" where
  "unit_update_value Hs Hp u sec key val app =
     (let (s, secs) =
            (case ht_get Hs (unit_sections u) sec of
               None \<Rightarrow> let s = section_create Hp sec in (s, snd (ht_put Hs (unit_sections u) (section_name s) s))
             | Some s \<Rightarrow> (s, unit_sections u));
          e = ht_get Hp (section_pairs s) key;
          store = (\<lambda>p. u\<lparr>unit_sections := snd (ht_put Hs secs sec
                     (s\<lparr>section_pairs := snd (ht_put Hp (section_pairs s) (pair_key p) p)\<rparr>))\<rparr>)
      in case val of
           None \<Rightarrow> if e \<noteq> None then UB else Defined (0, u\<lparr>unit_sections := secs\<rparr>)
         | Some v \<Rightarrow>
             (case e of
                None \<Rightarrow> Defined (0, store (pair_create key v))
              | Some old \<Rightarrow>
                  Defined (1, store (pair_create key
                    (if app then pair_value old @ '' '' @ v else v)))))"

definition unit_set_value ::
  "('p, 's) section_ops \<Rightarrow> 'p pair_ops \<Rightarrow> 's unit_file \<Rightarrow> string \<Rightarrow> string \<Rightarrow> string option \<Rightarrow>
   (int \<times> 's unit_file) outcome" where
  "unit_set_value Hs Hp u sec key val = unit_update_value Hs Hp u sec key val False"

definition unit_append_value ::
  "('p, 's) section_ops \<Rightarrow> 'p pair_ops \<Rightarrow> 's unit_file \<Rightarrow> string \<Rightarrow> string \<Rightarrow> string option \<Rightarrow>
   (int \<times> 's unit_file) outcome" where
  "unit_append_value Hs Hp u sec key val = unit_update_value Hs Hp u sec key val True"

definition unit_delete_key ::
  "('p, 's) section_ops \<Rightarrow> 'p pair_ops \<Rightarrow> 's unit_file \<Rightarrow> string \<Rightarrow> string \<Rightarrow>
   (int \<times> 's unit_file) outcome" where
  "unit_delete_key Hs Hp u sec key = unit_update_value Hs Hp u sec key None False"

definition unit_get_value ::
  "('p, 's) section_ops \<Rightarrow> 'p pair_ops \<Rightarrow> 's unit_file \<Rightarrow> string \<Rightarrow> string \<Rightarrow> string option" where
  "unit_get_value Hs Hp u sec key =
     (case ht_get Hs (unit_sections u) sec of
        None \<Rightarrow> None
      | Some s \<Rightarrow>
          (case ht_get Hp (section_pairs s) key of
             None \<Rightarrow> None
           | Some p \<Rightarrow> Some (pair_value p)))"

definition unit_get_bool ::
  "('p, 's) section_ops \<Rightarrow> 'p pair_ops \<Rightarrow> 's unit_file \<Rightarrow> string \<Rightarrow> string \<Rightarrow> int" where
  "unit_get_bool Hs Hp u sec key = strbool (unit_get_value Hs Hp u sec key)"

text \<open>The pieces that \<^verbatim>\<open>unit_to_byte_array\<close> appends, in its order.\<close>

definition section_lines :: "'p pair_ops \<Rightarrow> 'p unit_section \<Rightarrow> string list" where
  "section_lines Hp s =
     (''['' @ section_name s @ '']'' @ [NL]) #
       map (\<lambda>(k, p). pair_key p @ ''='' @ pair_value p @ [NL]) (ht_elems Hp (section_pairs s))"

definition unit_lines :: "('p, 's) section_ops \<Rightarrow> 'p pair_ops \<Rightarrow> 's unit_file \<Rightarrow> string list" where
  "unit_lines Hs Hp u = concat (map (\<lambda>(n, s). section_lines Hp s) (ht_elems Hs (unit_sections u)))"

definition unit_to_byte_array ::
  "('p, 's) section_ops \<Rightarrow> 'p pair_ops \<Rightarrow> 's unit_file \<Rightarrow> byte_array option \<Rightarrow> byte_array option" where
  "unit_to_byte_array Hs Hp u ba =
     byte_array_appends (case ba of None \<Rightarrow> make_byte_array SIZE_MAX | Some b \<Rightarrow> b) (unit_lines Hs Hp u)"

definition unit_to_string ::
  "('p, 's) section_ops \<Rightarrow> 'p pair_ops \<Rightarrow> 's unit_file \<Rightarrow> string option" where
  "unit_to_string Hs Hp u =
     (case unit_to_byte_array Hs Hp u (Some (make_byte_array SIZE_MAX)) of
        None \<Rightarrow> None
      | Some ba \<Rightarrow> Some (ba_data ba))"

section \<open>Stores of values\<close>

text \<open>
  The meaning of an update on a map from sections and keys to values: a new value is stored, an
  existing one is replaced or, when appending, extended by a space and the new value.
\<close>

type_synonym valuation = "string \<Rightarrow> string \<Rightarrow> string option"

definition kv_update :: "valuation \<Rightarrow> string \<Rightarrow> string \<Rightarrow> string \<Rightarrow> bool \<Rightarrow> valuation" where
  "kv_update m sec key v app =
     (\<lambda>s k. if s = sec \<and> k = key then
        Some (case m sec key of None \<Rightarrow> v | Some old \<Rightarrow> if app then old @ '' '' @ v else v)
      else m s k)"

lemma kv_update_cases:
  "m sec key = None \<Longrightarrow>
    kv_update m sec key v app = (\<lambda>s k. if s = sec \<and> k = key then Some v else m s k)"
  "m sec key = Some old \<Longrightarrow>
    kv_update m sec key v app =
      (\<lambda>s k. if s = sec \<and> k = key then Some (if app then old @ '' '' @ v else v) else m s k)"
  by (auto simp: kv_update_def fun_eq_iff)

type_synonym update = "string \<times> string \<times> string \<times> bool"

fun kv_updates :: "valuation \<Rightarrow> update list \<Rightarrow> valuation" where
  "kv_updates m [] = m"
| "kv_updates m ((sec, key, v, app) # us) = kv_updates (kv_update m sec key v app) us"

lemma kv_updates_append: "kv_updates m (us @ us') = kv_updates (kv_updates m us) us'"
  by (induction us arbitrary: m) auto

text \<open>What a user of units relies on: updates are defined and have the effect of \<open>kv_update\<close>.\<close>

locale value_store =
  fixes get :: "'u \<Rightarrow> valuation"
    and upd :: "'u \<Rightarrow> string \<Rightarrow> string \<Rightarrow> string option \<Rightarrow> bool \<Rightarrow> (int \<times> 'u) outcome"
    and wf :: "'u \<Rightarrow> bool"
    and empty :: "string \<Rightarrow> 'u"
  assumes get_empty: "get (empty n) = (\<lambda>s k. None)"
    and wf_empty: "wf (empty n)"
    and upd_ok: "wf u \<Longrightarrow> \<exists>u'. upd u sec key (Some v) app =
        Defined (if get u sec key = None then 0 else 1, u') \<and>
      wf u' \<and> get u' = kv_update (get u) sec key v app"
section \<open>Units are stores\<close>

definition unit_wf :: "('p, 's) section_ops \<Rightarrow> 'p pair_ops \<Rightarrow> 's unit_file \<Rightarrow> bool" where
  "unit_wf Hs Hp u \<longleftrightarrow>
     (\<forall>(n, s) \<in> set (ht_elems Hs (unit_sections u)).
        section_name s = n \<and> (\<forall>(k, p) \<in> set (ht_elems Hp (section_pairs s)). pair_key p = k))"

locale unit_tables = s: hash_table Hs + p: hash_table Hp
  for Hs :: "('p, 's) section_ops" and Hp :: "'p pair_ops"
begin

lemma unit_wf_iff:
  "unit_wf Hs Hp u \<longleftrightarrow>
     (\<forall>n s. ht_get Hs (unit_sections u) n = Some s \<longrightarrow> section_name s = n \<and>
        (\<forall>k p. ht_get Hp (section_pairs s) k = Some p \<longrightarrow> pair_key p = k))"
  unfolding unit_wf_def s.elems_all p.elems_all by (rule refl)

lemma get_create: "unit_get_value Hs Hp (unit_create Hs n) = (\<lambda>s k. None)"
  by (simp add: unit_get_value_def unit_create_def fun_eq_iff)

lemma wf_create: "unit_wf Hs Hp (unit_create Hs n)"
  by (simp add: unit_wf_iff unit_create_def)

text \<open>Storing a section and a pair in it, the common part of all successful updates.\<close>

lemma store_pair:
  assumes wf: "unit_wf Hs Hp u"
    and secs: "ht_get Hs secs = (ht_get Hs (unit_sections u))(sec := x)"
    and s: "section_name s = sec"
      "ht_get Hp (section_pairs s) = (case ht_get Hs (unit_sections u) sec of
         None \<Rightarrow> Map.empty | Some s \<Rightarrow> ht_get Hp (section_pairs s))"
    and u': "u' = u\<lparr>unit_sections := snd (ht_put Hs secs sec
         (s\<lparr>section_pairs := snd (ht_put Hp (section_pairs s) key (pair_create key v))\<rparr>))\<rparr>"
  shows "unit_wf Hs Hp u' \<and>
    unit_get_value Hs Hp u' =
      (\<lambda>s k. if s = sec \<and> k = key then Some v else unit_get_value Hs Hp u s k)"
proof
  show "unit_wf Hs Hp u'"
    using wf unfolding unit_wf_iff
    by (auto simp: u' secs s split: if_splits option.splits)
  show "unit_get_value Hs Hp u' =
      (\<lambda>s k. if s = sec \<and> k = key then Some v else unit_get_value Hs Hp u s k)"
    by (auto simp: unit_get_value_def u' secs s fun_eq_iff split: option.splits)
qed

lemma update_ok:
  assumes wf: "unit_wf Hs Hp u"
  shows "\<exists>u'. unit_update_value Hs Hp u sec key (Some v) app =
      Defined (if unit_get_value Hs Hp u sec key = None then 0 else 1, u') \<and>
    unit_wf Hs Hp u' \<and>
    unit_get_value Hs Hp u' = kv_update (unit_get_value Hs Hp u) sec key v app"
proof (cases "ht_get Hs (unit_sections u) sec")
  case None
  let ?s = "section_create Hp sec"
  have s: "section_name ?s = sec" "ht_get Hp (section_pairs ?s) = Map.empty"
    by (simp_all add: section_create_def)
  have "unit_get_value Hs Hp u sec key = None" using None by (simp add: unit_get_value_def)
  with s None show ?thesis
    using store_pair [OF wf _ s(1), of "snd (ht_put Hs (unit_sections u) sec ?s)" "Some ?s" _ key v]
    by (simp add: unit_update_value_def Let_def kv_update_cases)
next
  case (Some s)
  then have n: "section_name s = sec" using wf unfolding unit_wf_iff by blast
  have secs: "ht_get Hs (unit_sections u) = (ht_get Hs (unit_sections u))(sec := Some s)"
    using Some by auto
  note store = store_pair [OF wf secs n _ refl]
  show ?thesis
  proof (cases "ht_get Hp (section_pairs s) key")
    case None
    with Some have "unit_get_value Hs Hp u sec key = None" by (simp add: unit_get_value_def)
    with None Some store [of key v] show ?thesis
      by (simp add: unit_update_value_def Let_def kv_update_cases)
  next
    case p: (Some p)
    with Some have "unit_get_value Hs Hp u sec key = Some (pair_value p)"
      by (simp add: unit_get_value_def)
    with p Some store [of key "if app then pair_value p @ '' '' @ v else v"] show ?thesis
      by (simp add: unit_update_value_def Let_def kv_update_cases)
  qed
qed

end

sublocale unit_tables \<subseteq> value_store "unit_get_value Hs Hp" "unit_update_value Hs Hp" "unit_wf Hs Hp"
    "unit_create Hs"
  by unfold_locales (rule get_create wf_create update_ok, assumption?)+

interpretation alist_unit: unit_tables alist_ops alist_ops
  by unfold_locales

lemma unit_tablesI: "hash_table Hs \<Longrightarrow> hash_table Hp \<Longrightarrow> unit_tables Hs Hp"
  by (rule unit_tables.intro)

lemma alist_unit_get:
  "unit_get_value alist_ops alist_ops \<lparr> unit_file_name = n, unit_sections = [] \<rparr> sec key = None"
  "unit_get_value alist_ops alist_ops \<lparr> unit_file_name = n, unit_sections = (m, s) # ss \<rparr> sec key =
     (if sec = m then map_option pair_value (map_of (section_pairs s) key)
      else unit_get_value alist_ops alist_ops \<lparr> unit_file_name = n, unit_sections = ss \<rparr> sec key)"
  by (auto simp: unit_get_value_def split: option.splits)

section \<open>Properties of units\<close>

text \<open>
  C15. Units refine maps from sections and keys to values: an update with a value is defined, keeps
  the unit well-formed, has the effect of \<open>kv_update\<close> on the values (new keys are set, existing ones
  replaced or, when appending, extended after a space, everything else unchanged) and reports
  whether the key existed.
\<close>

theorem unit_update_refines:
  assumes "hash_table Hs" and "hash_table Hp" and "unit_wf Hs Hp u"
  shows "\<exists>u'. unit_update_value Hs Hp u sec key (Some v) app =
      Defined (if unit_get_value Hs Hp u sec key = None then 0 else 1, u') \<and>
    unit_wf Hs Hp u' \<and>
    unit_get_value Hs Hp u' = kv_update (unit_get_value Hs Hp u) sec key v app"
  by (rule unit_tables.update_ok [OF unit_tablesI [OF assms(1,2)] assms(3)])

theorem unit_update_refines_witness:
  "\<exists>u'. unit_update_value alist_ops alist_ops
      \<lparr> unit_file_name = ''x'', unit_sections = [(''Unit'',
          \<lparr> section_name = ''Unit'', section_pairs = [(''After'', pair_create ''After'' ''a'')] \<rparr>)] \<rparr>
      ''Unit'' ''After'' (Some ''b'') True = Defined (1, u') \<and>
    unit_get_value alist_ops alist_ops u' ''Unit'' ''After'' = Some ''a b''"
  using unit_update_refines [OF alist_table.hash_table_axioms alist_table.hash_table_axioms,
      of "\<lparr> unit_file_name = ''x'', unit_sections = [(''Unit'',
          \<lparr> section_name = ''Unit'', section_pairs = [(''After'', pair_create ''After'' ''a'')] \<rparr>)] \<rparr>"
        "''Unit''" "''After''" "''b''" True]
  by (auto simp: unit_wf_def alist_unit_get kv_update_def)

text \<open>
  Deleting a key that has no value changes no value, but deleting one that has a value frees a
  pair that remains in the table.
\<close>

theorem unit_delete_key_broken:
  assumes "hash_table Hs" and "hash_table Hp"
  shows "case unit_get_value Hs Hp u sec key of
      None \<Rightarrow> \<exists>u'. unit_delete_key Hs Hp u sec key = Defined (0, u') \<and>
        unit_get_value Hs Hp u' = unit_get_value Hs Hp u
    | Some v \<Rightarrow> unit_delete_key Hs Hp u sec key = UB"
  using assms
  by (auto simp: unit_delete_key_def unit_update_value_def unit_get_value_def section_create_def
      fun_eq_iff hash_table.get_put hash_table.get_make Let_def split: option.splits)

theorem unit_delete_key_broken_witness:
  "unit_delete_key alist_ops alist_ops
      \<lparr> unit_file_name = ''x'', unit_sections = [(''Unit'',
          \<lparr> section_name = ''Unit'', section_pairs = [(''After'', pair_create ''After'' ''a'')] \<rparr>)] \<rparr>
      ''Unit'' ''After'' = UB"
  using unit_delete_key_broken [OF alist_table.hash_table_axioms alist_table.hash_table_axioms,
      of "\<lparr> unit_file_name = ''x'', unit_sections = [(''Unit'',
          \<lparr> section_name = ''Unit'', section_pairs = [(''After'', pair_create ''After'' ''a'')] \<rparr>)] \<rparr>"
        "''Unit''" "''After''"]
  by (simp add: alist_unit_get)

end
