(* ===== verification/Text.thy ===== *)
theory Text
  imports Sysv_Prelude
begin

text \<open>
  \<^verbatim>\<open>src/common/text.c\<close>: texts as ranges of a buffer, their lines and words, and searches in them. The
  buffer is a list of characters and pointers into it are indices; a text whose \<^verbatim>\<open>parent\<close> matters is
  passed together with its parent. The definitions read \<open>buf ! p\<close> exactly where the code reads \<^verbatim>\<open>*p\<close>.
\<close>

section \<open>Texts\<close>

record text_range =
  txt_beg :: nat
  txt_end :: nat
  txt_len :: nat

definition text_create :: "nat \<Rightarrow> nat \<Rightarrow> text_range" where
  "text_create buf len = \<lparr> txt_beg = buf, txt_end = buf + len, txt_len = len \<rparr>"

text \<open>
  \<^verbatim>\<open>text_from_file\<close>: \<open>fd\<close> is what \<^verbatim>\<open>open\<close> returns, \<open>st_size\<close> the size that \<^verbatim>\<open>fstat\<close> reports, if it
  succeeds, and \<open>rd\<close> the bytes that \<^verbatim>\<open>read\<close> delivers when asked for so many, if it succeeds. The
  buffer is terminated behind what was read.
\<close>

definition text_from_file ::
  "int \<Rightarrow> nat option \<Rightarrow> (nat \<Rightarrow> string option) \<Rightarrow> (string \<times> text_range) option" where
  "text_from_file fd st_size rd =
     (if fd < 1 then None
      else case st_size of
        None \<Rightarrow> None
      | Some n \<Rightarrow>
          (case rd n of
             None \<Rightarrow> None
           | Some s \<Rightarrow> Some (s @ [NUL], \<lparr> txt_beg = 0, txt_end = length s, txt_len = length s \<rparr>)))"

text \<open>
  The loop of \<^verbatim>\<open>text_line_from_stream\<close>: \<open>s\<close> is the unread stream, \<open>sz\<close> the size of the allocation,
  \<open>line\<close> what has been stored behind the header of \<open>TEXT_HDR\<close> bytes. A store outside the allocation
  is \<open>UB\<close>. The result has the line, the unread rest and whether the loop ended at the end of the
  stream.
\<close>

definition TEXT_HDR :: nat where "TEXT_HDR = 32"

fun line_loop :: "string \<Rightarrow> nat \<Rightarrow> string \<Rightarrow> (string \<times> string \<times> bool) outcome" where
  "line_loop [] sz line = (if TEXT_HDR + length line < sz then Defined (line, [], True) else UB)"
| "line_loop (ch # s) sz line =
     (if ch = NL then (if TEXT_HDR + length line < sz then Defined (line, s, False) else UB)
      else
        let sz' = (if length line \<ge> sz - TEXT_HDR - 1 then sz * 2 else sz) in
        if TEXT_HDR + length line < sz' then line_loop s sz' (line @ [ch]) else UB)"

definition text_line_from_stream :: "string \<Rightarrow> ((string \<times> text_range) option \<times> string) outcome" where
  "text_line_from_stream s =
     (case line_loop s 256 [] of
        UB \<Rightarrow> UB
      | Defined (line, rest, eof) \<Rightarrow>
          if eof \<and> line = [] then Defined (None, rest)
          else Defined (Some (line @ [NUL],
            \<lparr> txt_beg = 0, txt_end = length line, txt_len = length line \<rparr>), rest))"

definition text_narrow :: "text_range \<Rightarrow> nat \<Rightarrow> nat \<Rightarrow> text_range option" where
  "text_narrow parent beg len =
     (if beg < txt_beg parent \<or> beg + len > txt_end parent then None
      else Some \<lparr> txt_beg = beg, txt_end = beg + len, txt_len = len \<rparr>)"

section \<open>Lines and words\<close>

text \<open>The loops that advance a pointer below \<^verbatim>\<open>end\<close> while it is at no NUL and \<open>Q\<close> holds there.\<close>

function scan :: "(char \<Rightarrow> bool) \<Rightarrow> string \<Rightarrow> nat \<Rightarrow> nat \<Rightarrow> nat" where
  "scan Q buf e p = (if p < e \<and> buf ! p \<noteq> NUL \<and> Q (buf ! p) then scan Q buf e (p + 1) else p)"
  by pat_completeness auto
termination
  by (relation "measure (\<lambda>(Q, buf, e, p). e - p)") auto

declare scan.simps [simp del]

abbreviation range_text :: "nat \<Rightarrow> nat \<Rightarrow> text_range" where
  "range_text b e \<equiv> \<lparr> txt_beg = b, txt_end = e, txt_len = e - b \<rparr>"

definition text_first_line :: "string \<Rightarrow> text_range \<Rightarrow> text_range" where
  "text_first_line buf txt =
     (let e = scan (\<lambda>c. c \<noteq> NL) buf (txt_end txt) (txt_beg txt) in range_text (txt_beg txt) e)"

definition text_next_line :: "string \<Rightarrow> text_range \<Rightarrow> text_range \<Rightarrow> text_range option" where
  "text_next_line buf txt line =
     (let b = txt_end line + 1 in
      if b \<ge> txt_end txt \<or> buf ! txt_end line = NUL then None
      else let e = scan (\<lambda>c. c \<noteq> NL) buf (txt_end txt) b in Some (range_text b e))"

definition text_first_word :: "string \<Rightarrow> text_range \<Rightarrow> text_range" where
  "text_first_word buf txt =
     (let b = scan isspace buf (txt_end txt) (txt_beg txt);
          e = scan (\<lambda>c. \<not> isspace c) buf (txt_end txt) b
      in range_text b e)"

definition text_next_word :: "string \<Rightarrow> text_range \<Rightarrow> text_range \<Rightarrow> text_range option" where
  "text_next_word buf txt word =
     (let b = scan isspace buf (txt_end txt) (txt_end word + 1) in
      if b \<ge> txt_end txt \<or> buf ! b = NUL then None
      else let e = scan (\<lambda>c. \<not> isspace c) buf (txt_end txt) b in Some (range_text b e))"

section \<open>Searches\<close>

text \<open>
  The pattern of a search: the whole string when \<^verbatim>\<open>len\<close> is 0, at most \<^verbatim>\<open>len\<close> characters of it
  otherwise. \<open>match\<close> is the comparison loop; what it leaves of the pattern is empty when
  \<^verbatim>\<open>s == end || *s == '\0'\<close>.
\<close>

definition pattern :: "string \<Rightarrow> nat \<Rightarrow> string" where
  "pattern str len = (if len = 0 then str else take len str)"

fun match :: "string \<Rightarrow> nat \<Rightarrow> nat \<Rightarrow> string \<Rightarrow> nat \<times> string" where
  "match buf e q [] = (q, [])"
| "match buf e q (s # ss) =
     (if q < e \<and> buf ! q \<noteq> NUL \<and> buf ! q = s then match buf e (q + 1) ss else (q, s # ss))"

lemma match_ge: "fst (match buf e q pat) \<ge> q"
  by (induction buf e q pat rule: match.induct) auto

text \<open>
  \<^verbatim>\<open>text_find\<close> tests \<^verbatim>\<open>*p == *str\<close> before it compares the pattern; with an empty string this is a
  comparison with the terminator, which fails inside the text.
\<close>

function find_loop :: "string \<Rightarrow> nat \<Rightarrow> nat \<Rightarrow> string \<Rightarrow> string \<Rightarrow> nat option" where
  "find_loop buf e p str pat =
     (if p < e \<and> buf ! p \<noteq> NUL then
        if str \<noteq> [] \<and> buf ! p = hd str \<and> snd (match buf e p pat) = [] then Some p
        else find_loop buf e (p + 1) str pat
      else None)"
  by pat_completeness auto
termination
  by (relation "measure (\<lambda>(buf, e, p, str, pat). e - p)") auto

declare find_loop.simps [simp del]

definition text_find :: "string \<Rightarrow> text_range \<Rightarrow> string \<Rightarrow> nat \<Rightarrow> nat option" where
  "text_find buf txt str len = find_loop buf (txt_end txt) (txt_beg txt) str (pattern str len)"

lemma scan_ge: "scan Q buf e p \<ge> p"
proof (induction Q buf e p rule: scan.induct)
  case (1 Q buf e p)
  then show ?case by (subst scan.simps) force
qed

text \<open>The loop shared by the two searches for a prefix: the first line from \<open>p\<close> that matches.\<close>

function prefix_loop :: "string \<Rightarrow> nat \<Rightarrow> nat \<Rightarrow> string \<Rightarrow> (nat \<times> nat) option" where
  "prefix_loop buf e p pat =
     (if p < e \<and> buf ! p \<noteq> NUL then
        let (q, s) = match buf e p pat;
            q' = scan (\<lambda>c. c \<noteq> NL) buf e q
        in if s = [] then Some (p, q') else prefix_loop buf e (q' + 1) pat
      else None)"
  by pat_completeness auto
termination
proof (relation "measure (\<lambda>(buf, e, p, pat). e - p)", goal_cases)
  case (2 buf e p pat x q s q')
  then have "q \<ge> p" using match_ge [of p buf e pat] by (metis fst_conv)
  then show ?case using 2 scan_ge [of q "\<lambda>c. c \<noteq> NL" buf e] by auto
qed simp

declare prefix_loop.simps [simp del]

text \<open>The loop shared by the two searches for an equal line.\<close>

function equals_loop :: "string \<Rightarrow> nat \<Rightarrow> nat \<Rightarrow> string \<Rightarrow> (nat \<times> nat) option" where
  "equals_loop buf e p pat =
     (if p < e \<and> buf ! p \<noteq> NUL then
        let (q, s) = match buf e p pat in
        if s = [] \<and> (q = e \<or> buf ! q = NUL \<or> buf ! q = NL) then Some (p, q)
        else equals_loop buf e (scan (\<lambda>c. c \<noteq> NL) buf e q + 1) pat
      else None)"
  by pat_completeness auto
termination
proof (relation "measure (\<lambda>(buf, e, p, pat). e - p)", goal_cases)
  case (2 buf e p pat x q s)
  then have "q \<ge> p" using match_ge [of p buf e pat] by (metis fst_conv)
  then show ?case using 2 scan_ge [of q "\<lambda>c. c \<noteq> NL" buf e] by auto
qed simp

declare equals_loop.simps [simp del]

definition text_first_line_prefix :: "string \<Rightarrow> text_range \<Rightarrow> string \<Rightarrow> nat \<Rightarrow> text_range option" where
  "text_first_line_prefix buf txt str len =
     (case prefix_loop buf (txt_end txt) (txt_beg txt) (pattern str len) of
        None \<Rightarrow> None
      | Some (p, q) \<Rightarrow> text_narrow txt p (q - p))"

definition text_next_line_prefix :: "string \<Rightarrow> text_range \<Rightarrow> text_range \<Rightarrow> string \<Rightarrow> nat \<Rightarrow> text_range option" where
  "text_next_line_prefix buf txt line str len =
     (let b = txt_end line + 1 in
      if b \<ge> txt_end txt \<or> buf ! txt_end line = NUL then None
      else case prefix_loop buf (txt_end txt) b (pattern str len) of
             None \<Rightarrow> None
           | Some (p, q) \<Rightarrow> Some (range_text p q))"

definition text_first_line_equals :: "string \<Rightarrow> text_range \<Rightarrow> string \<Rightarrow> nat \<Rightarrow> text_range option" where
  "text_first_line_equals buf txt str len =
     (case equals_loop buf (txt_end txt) (txt_beg txt) (pattern str len) of
        None \<Rightarrow> None
      | Some (p, q) \<Rightarrow> text_narrow txt p (q - p))"

definition text_next_line_equals :: "string \<Rightarrow> text_range \<Rightarrow> text_range \<Rightarrow> string \<Rightarrow> nat \<Rightarrow> text_range option" where
  "text_next_line_equals buf txt line str len =
     (let b = txt_end line + 1 in
      if b \<ge> txt_end txt \<or> buf ! txt_end line = NUL then None
      else case equals_loop buf (txt_end txt) b (pattern str len) of
             None \<Rightarrow> None
           | Some (p, q) \<Rightarrow> Some (range_text p q))"

section \<open>Facts on the loops\<close>

lemma scan_step:
  "p < e \<Longrightarrow> buf ! p \<noteq> NUL \<Longrightarrow> Q (buf ! p) \<Longrightarrow> scan Q buf e p = scan Q buf e (p + 1)"
  "\<not> (p < e \<and> buf ! p \<noteq> NUL \<and> Q (buf ! p)) \<Longrightarrow> scan Q buf e p = p"
  using scan.simps [of Q buf e p] by (simp_all only: simp_thms if_True if_False)

lemma scan_le: "p \<le> e \<Longrightarrow> scan Q buf e p \<le> e"
proof (induction Q buf e p rule: scan.induct)
  case (1 Q buf e p)
  then show ?case by (subst scan.simps) force
qed

lemma scan_stop: "scan Q buf e p < e \<Longrightarrow> buf ! scan Q buf e p = NUL \<or> \<not> Q (buf ! scan Q buf e p)"
proof (induction Q buf e p rule: scan.induct)
  case (1 Q buf e p)
  then show ?case using scan_step [of p e buf Q] by (cases "p < e \<and> buf ! p \<noteq> NUL \<and> Q (buf ! p)") auto
qed

lemma scan_all: "p \<le> i \<Longrightarrow> i < scan Q buf e p \<Longrightarrow> buf ! i \<noteq> NUL \<and> Q (buf ! i) \<and> i < e"
proof (induction Q buf e p rule: scan.induct)
  case (1 Q buf e p)
  have g: "p < e \<and> buf ! p \<noteq> NUL \<and> Q (buf ! p)"
    using 1(2,3) scan_step(2) [of p e buf Q] by (metis leD)
  show ?case
  proof (cases "i = p")
    case False
    then show ?thesis using 1(1) [OF g] 1(2,3) g scan_step(1) [of p e buf Q] by simp
  qed (use g in simp)
qed

lemma scan_mid: "p \<le> q \<Longrightarrow> q \<le> scan Q buf e p \<Longrightarrow> scan Q buf e q = scan Q buf e p"
proof (induction Q buf e p rule: scan.induct)
  case (1 Q buf e p)
  show ?case
  proof (cases "q = p")
    case False
    then have "p < scan Q buf e p" using 1(2,3) by simp
    then have g: "p < e \<and> buf ! p \<noteq> NUL \<and> Q (buf ! p)" using scan_all [of p p Q buf e] by simp
    with False show ?thesis using 1(1) [OF g] 1(2,3) scan_step(1) [of p e buf Q] by simp
  qed simp
qed

text \<open>The loops only depend on the buffer below \<open>e\<close>.\<close>

lemma scan_local: "(\<And>i. i < e \<Longrightarrow> buf ! i = buf' ! i) \<Longrightarrow> scan Q buf e p = scan Q buf' e p"
proof (induction Q buf e p rule: scan.induct)
  case (1 Q buf e p)
  then show ?case
    using scan_step [of p e buf Q] scan_step [of p e buf' Q]
    by (cases "p < e \<and> buf ! p \<noteq> NUL \<and> Q (buf ! p)") auto
qed

lemma match_local: "(\<And>i. i < e \<Longrightarrow> buf ! i = buf' ! i) \<Longrightarrow> match buf e q pat = match buf' e q pat"
  by (induction buf e q pat rule: match.induct) auto

lemma match_le: "q \<le> e \<Longrightarrow> fst (match buf e q pat) \<le> e"
  by (induction buf e q pat rule: match.induct) auto

lemma find_loop_local:
  "(\<And>i. i < e \<Longrightarrow> buf ! i = buf' ! i) \<Longrightarrow> find_loop buf e p str pat = find_loop buf' e p str pat"
proof (induction buf e p str pat rule: find_loop.induct)
  case (1 buf e p str pat)
  then show ?case
    using match_local [of e buf buf' p pat] by (subst (1 2) find_loop.simps) auto
qed

lemma prefix_loop_local:
  "(\<And>i. i < e \<Longrightarrow> buf ! i = buf' ! i) \<Longrightarrow> prefix_loop buf e p pat = prefix_loop buf' e p pat"
proof (induction buf e p pat rule: prefix_loop.induct)
  case (1 buf e p pat)
  obtain q s where m: "match buf e p pat = (q, s)" by (cases "match buf e p pat")
  with 1 show ?case
    using match_local [of e buf buf' p pat] scan_local [of e buf buf' "\<lambda>c. c \<noteq> NL" q]
    by (subst (1 2) prefix_loop.simps) (auto simp: Let_def)
qed

lemma equals_loop_local:
  "(\<And>i. i < e \<Longrightarrow> buf ! i = buf' ! i) \<Longrightarrow> equals_loop buf e p pat = equals_loop buf' e p pat"
proof (induction buf e p pat rule: equals_loop.induct)
  case (1 buf e p pat)
  obtain q s where m: "match buf e p pat = (q, s)" by (cases "match buf e p pat")
  show ?case
  proof (cases "p < e \<and> buf ! p \<noteq> NUL")
    case True
    then have "q \<le> e" using match_le [of p e buf pat] m by simp
    then have "q = e \<or> buf ! q = buf' ! q" using 1(2) by (cases "q < e") auto
    with True m 1 show ?thesis
      using match_local [of e buf buf' p pat] scan_local [of e buf buf' "\<lambda>c. c \<noteq> NL" q]
      by (subst (1 2) equals_loop.simps) auto
  next
    case False
    with 1(2) show ?thesis by (subst (1 2) equals_loop.simps) auto
  qed
qed

section \<open>Lines as ranges\<close>

text \<open>The characters of a range, and the ranges of the lines from position \<open>p\<close>.\<close>

definition segment :: "string \<Rightarrow> nat \<Rightarrow> nat \<Rightarrow> string" where
  "segment buf b e = take (e - b) (drop b buf)"

abbreviation line_end :: "string \<Rightarrow> nat \<Rightarrow> nat \<Rightarrow> nat" where
  "line_end \<equiv> scan (\<lambda>c. c \<noteq> NL)"

function line_ranges :: "string \<Rightarrow> nat \<Rightarrow> nat \<Rightarrow> (nat \<times> nat) list" where
  "line_ranges buf e p =
     (if p < e \<and> buf ! p \<noteq> NUL then (p, line_end buf e p) # line_ranges buf e (line_end buf e p + 1)
      else [])"
  by pat_completeness auto
termination
proof (relation "measure (\<lambda>(buf, e, p). e - p)", goal_cases)
  case (2 buf e p)
  then show ?case using scan_ge [of p "\<lambda>c. c \<noteq> NL" buf e] by auto
qed simp

declare line_ranges.simps [simp del]

lemma segment_Cons: "b < e \<Longrightarrow> e \<le> length buf \<Longrightarrow> segment buf b e = buf ! b # segment buf (b + 1) e"
  by (simp add: segment_def Cons_nth_drop_Suc [symmetric] take_Cons' Suc_diff_Suc)

lemma segment_length [simp]: "e \<le> length buf \<Longrightarrow> length (segment buf b e) = e - b"
  by (simp add: segment_def)

lemma set_segment:
  assumes "e \<le> length buf" and "c \<in> set (segment buf b e)"
  shows "\<exists>i. b \<le> i \<and> i < e \<and> c = buf ! i"
proof -
  from assms obtain i where "i < e - b" "c = buf ! (b + i)"
    by (auto simp: segment_def in_set_conv_nth)
  then show ?thesis by (intro exI [of _ "b + i"]) simp
qed

lemma segment_split:
  assumes "b \<le> m" and "m \<le> e"
  shows "segment buf b e = segment buf b m @ segment buf m e"
proof -
  have eq: "e - b = (m - b) + (e - m)" and m: "m - b + b = m" using assms by simp_all
  show ?thesis unfolding segment_def eq by (simp only: take_add drop_drop m)
qed

lemma line_chars:
  "e \<le> length buf \<Longrightarrow> c \<in> set (segment buf p (line_end buf e p)) \<Longrightarrow> p \<le> e \<Longrightarrow> c \<noteq> NL \<and> c \<noteq> NUL"
  using set_segment [of "line_end buf e p" buf c p] scan_le [of p e] scan_all [of p _ "\<lambda>c. c \<noteq> NL" buf e]
  by force

text \<open>The comparison loop never leaves a line when the pattern has no newline.\<close>

lemma match_line:
  assumes "e \<le> length buf" and "NL \<notin> set pat" and "match buf e p pat = (q, s)"
  shows "p \<le> q \<and> q \<le> line_end buf e p \<and>
    (s = [] \<longleftrightarrow> prefix pat (segment buf p (line_end buf e p))) \<and> (s = [] \<longrightarrow> q = p + length pat)"
  using assms
proof (induction buf e p pat arbitrary: q s rule: match.induct)
  case (1 buf e p)
  then show ?case using scan_ge [of p "\<lambda>c. c \<noteq> NL" buf e] by simp
next
  case (2 buf e p c cs)
  have ge: "p \<le> line_end buf e p" by (rule scan_ge)
  show ?case
  proof (cases "p < e \<and> buf ! p \<noteq> NUL \<and> buf ! p = c")
    case True
    with "2.prems"(2) have step: "line_end buf e p = line_end buf e (p + 1)"
      using scan_step(1) [of p e buf "\<lambda>c. c \<noteq> NL"] by auto
    then have lt: "p < line_end buf e p" using scan_ge [of "p + 1" "\<lambda>c. c \<noteq> NL" buf e] by simp
    have "line_end buf e p \<le> length buf" using scan_le [of p e] True "2.prems"(1) by (meson le_trans less_imp_le)
    with lt have sl: "segment buf p (line_end buf e p) = c # segment buf (p + 1) (line_end buf e (p + 1))"
      using segment_Cons [of p "line_end buf e p" buf] True step by simp
    show ?thesis using "2.IH" [OF True "2.prems"(1), of q s] "2.prems" True step sl by auto
  next
    case False
    have "\<not> prefix (c # cs) (segment buf p (line_end buf e p))"
    proof
      assume "prefix (c # cs) (segment buf p (line_end buf e p))"
      then obtain r where r: "segment buf p (line_end buf e p) = c # r" by (auto simp: prefix_def)
      then have "p < line_end buf e p" by (cases "line_end buf e p - p") (auto simp: segment_def)
      then have "p < e \<and> buf ! p \<noteq> NUL" using scan_all [of p p "\<lambda>c. c \<noteq> NL" buf e] by simp
      moreover have "buf ! p = c"
        using r "2.prems"(1) calculation by (auto simp: segment_def take_Cons' Cons_nth_drop_Suc [symmetric] split: if_splits)
      ultimately show False using False by simp
    qed
    with False "2.prems" ge show ?thesis by auto
  qed
qed

lemma line_ranges_step:
  "p < e \<Longrightarrow> buf ! p \<noteq> NUL \<Longrightarrow>
    line_ranges buf e p = (p, line_end buf e p) # line_ranges buf e (line_end buf e p + 1)"
  "\<not> (p < e \<and> buf ! p \<noteq> NUL) \<Longrightarrow> line_ranges buf e p = []"
  using line_ranges.simps [of buf e p] by (simp_all only: simp_thms if_True if_False)

text \<open>Both searches return the first line of the rest of the text that qualifies.\<close>

lemma prefix_loop_find:
  assumes "e \<le> length buf" and "NL \<notin> set pat"
  shows "prefix_loop buf e p pat = List.find (\<lambda>(b, q). prefix pat (segment buf b q)) (line_ranges buf e p)"
  using assms
proof (induction buf e p rule: line_ranges.induct)
  case (1 buf e p)
  show ?case
  proof (cases "p < e \<and> buf ! p \<noteq> NUL")
    case True
    obtain q s where m: "match buf e p pat = (q, s)" by (cases "match buf e p pat")
    note ml = match_line [OF 1(2,3) m]
    have "line_end buf e q = line_end buf e p" using ml scan_mid by blast
    moreover have "s = [] \<longleftrightarrow> prefix pat (segment buf p (line_end buf e p))" using ml by blast
    ultimately show ?thesis
      using 1(1) [OF True 1(2,3)] True m line_ranges_step(1) [of p e buf]
      by (subst prefix_loop.simps) (simp add: Let_def)
  next
    case False
    then show ?thesis using line_ranges_step(2) [OF False] by (subst prefix_loop.simps) auto
  qed
qed

lemma equals_cond:
  assumes e: "e \<le> length buf" and nl: "NL \<notin> set pat" and m: "match buf e p pat = (q, s)" and p: "p < e"
  shows "s = [] \<and> (q = e \<or> buf ! q = NUL \<or> buf ! q = NL) \<longleftrightarrow> segment buf p (line_end buf e p) = pat"
    and "segment buf p (line_end buf e p) = pat \<Longrightarrow> q = line_end buf e p"
proof -
  let ?L = "line_end buf e p"
  note ml = match_line [OF e nl m]
  have le: "?L \<le> e" using scan_le p by simp
  then have len: "length (segment buf p ?L) = ?L - p" using e by simp
  show qL: "q = ?L" if "segment buf p ?L = pat" using that ml len scan_ge [of p _ buf e] by auto
  show "s = [] \<and> (q = e \<or> buf ! q = NUL \<or> buf ! q = NL) \<longleftrightarrow> segment buf p ?L = pat"
  proof
    assume a: "s = [] \<and> (q = e \<or> buf ! q = NUL \<or> buf ! q = NL)"
    then have "\<not> q < ?L" using ml scan_all [of p q "\<lambda>c. c \<noteq> NL" buf e] by auto
    with a ml have "q = ?L" "q = p + length pat" "prefix pat (segment buf p ?L)" by auto
    moreover from this len have "length (segment buf p ?L) = length pat" by linarith
    ultimately show "segment buf p ?L = pat" by (auto simp: prefix_def)
  next
    assume s: "segment buf p ?L = pat"
    then have "s = []" "q = ?L" using ml qL by auto
    then show "s = [] \<and> (q = e \<or> buf ! q = NUL \<or> buf ! q = NL)"
      using le scan_stop [of "\<lambda>c. c \<noteq> NL" buf e p] by (cases "?L = e") auto
  qed
qed

lemma equals_loop_find:
  assumes "e \<le> length buf" and "NL \<notin> set pat"
  shows "equals_loop buf e p pat = List.find (\<lambda>(b, q). segment buf b q = pat) (line_ranges buf e p)"
  using assms
proof (induction buf e p rule: line_ranges.induct)
  case (1 buf e p)
  show ?case
  proof (cases "p < e \<and> buf ! p \<noteq> NUL")
    case True
    obtain q s where m: "match buf e p pat = (q, s)" by (cases "match buf e p pat")
    note eq = equals_cond [OF 1(2,3) m]
    have "line_end buf e q = line_end buf e p" using match_line [OF 1(2,3) m] scan_mid by blast
    then show ?thesis
      using 1(1) [OF True 1(2,3)] True m eq line_ranges_step(1) [of p e buf]
      by (subst equals_loop.simps) (simp add: Let_def)
  next
    case False
    then show ?thesis using line_ranges_step(2) [OF False] by (subst equals_loop.simps) auto
  qed
qed

text \<open>Walking over the lines of a text with \<^verbatim>\<open>text_first_line\<close> and \<^verbatim>\<open>text_next_line\<close>.\<close>

function lines_from :: "string \<Rightarrow> text_range \<Rightarrow> text_range \<Rightarrow> text_range list" where
  "lines_from buf txt line =
     line # (case text_next_line buf txt line of None \<Rightarrow> [] | Some l \<Rightarrow> lines_from buf txt l)"
  by pat_completeness auto
termination
proof (relation "measure (\<lambda>(buf, txt, line). txt_end txt - txt_end line)", goal_cases)
  case (2 buf t line l)
  then show ?case
    using scan_ge [of "txt_end line + 1" "\<lambda>c. c \<noteq> NL" buf "txt_end t"]
    by (auto simp: text_next_line_def Let_def split: if_splits)
qed simp

declare lines_from.simps [simp del]

lemma lines_from_ranges:
  assumes "\<forall>i. p \<le> i \<and> i < txt_end txt \<longrightarrow> buf ! i \<noteq> NUL" and "p < txt_end txt"
  shows "lines_from buf txt (range_text p (line_end buf (txt_end txt) p)) =
    map (\<lambda>(b, q). range_text b q) (line_ranges buf (txt_end txt) p)"
  using assms
proof (induction "txt_end txt - p" arbitrary: p rule: less_induct)
  case less
  let ?L = "line_end buf (txt_end txt) p"
  have ge: "p \<le> ?L" by (rule scan_ge)
  have step: "line_ranges buf (txt_end txt) p = (p, ?L) # line_ranges buf (txt_end txt) (?L + 1)"
    using less.prems by (intro line_ranges_step(1)) auto
  show ?case
  proof (cases "?L + 1 < txt_end txt")
    case True
    moreover from this ge less.prems have "buf ! ?L \<noteq> NUL" by auto
    ultimately have "text_next_line buf txt (range_text p ?L) =
        Some (range_text (?L + 1) (line_end buf (txt_end txt) (?L + 1)))"
      by (simp add: text_next_line_def Let_def)
    moreover have "lines_from buf txt (range_text (?L + 1) (line_end buf (txt_end txt) (?L + 1))) =
        map (\<lambda>(b, q). range_text b q) (line_ranges buf (txt_end txt) (?L + 1))"
      using less.hyps [of "?L + 1"] less.prems True ge by auto
    ultimately show ?thesis using step by (simp add: lines_from.simps [of buf "txt" "range_text p ?L"])
  next
    case False
    then have "line_ranges buf (txt_end txt) (?L + 1) = []" by (intro line_ranges_step(2)) simp
    moreover have "text_next_line buf txt (range_text p ?L) = None"
      using False by (simp add: text_next_line_def Let_def)
    ultimately show ?thesis using step by (simp add: lines_from.simps [of buf "txt" "range_text p ?L"])
  qed
qed

lemma line_ranges_join:
  assumes "e \<le> length buf" and "\<forall>i. p \<le> i \<and> i < e \<longrightarrow> buf ! i \<noteq> NUL" and "p < e"
  shows "concat (map (\<lambda>(b, q). segment buf b q @ [NL]) (line_ranges buf e p)) =
    (if buf ! (e - 1) = NL then segment buf p e else segment buf p e @ [NL])"
  using assms
proof (induction "e - p" arbitrary: p rule: less_induct)
  case less
  let ?L = "line_end buf e p"
  have ge: "p \<le> ?L" by (rule scan_ge)
  have le: "?L \<le> e" using scan_le less.prems(3) by simp
  have step: "line_ranges buf e p = (p, ?L) # line_ranges buf e (?L + 1)"
    using less.prems by (intro line_ranges_step(1)) auto
  have nl: "?L < e \<Longrightarrow> buf ! ?L = NL" using scan_stop [of "\<lambda>c. c \<noteq> NL" buf e p] less.prems ge by auto
  consider "?L + 1 < e" | "?L + 1 = e" | "?L = e" using le by linarith
  then show ?case
  proof cases
    case 1
    have "segment buf p e = segment buf p ?L @ buf ! ?L # segment buf (?L + 1) e"
      using segment_split [of p ?L e buf] segment_Cons [of ?L e buf] ge le 1 less.prems(1) by simp
    then show ?thesis
      using step less.hyps [of "?L + 1"] less.prems 1 ge nl by (auto simp: segment_def)
  next
    case 2
    have "segment buf p e = segment buf p ?L @ buf ! ?L # segment buf (?L + 1) e"
      using segment_split [of p ?L e buf] segment_Cons [of ?L e buf] ge le 2 less.prems(1) by simp
    moreover have "e - 1 = ?L" using 2 by simp
    ultimately show ?thesis
      using step 2 nl line_ranges_step(2) [of "?L + 1" e buf] by (simp add: segment_def)
  next
    case 3
    then have "buf ! (e - 1) \<noteq> NL"
      using scan_all [of p "e - 1" "\<lambda>c. c \<noteq> NL" buf e] less.prems(3) by auto
    then show ?thesis using step 3 line_ranges_step(2) [of "?L + 1" e buf] by simp
  qed
qed

lemma line_ranges_in:
  "(b, q) \<in> set (line_ranges buf e p) \<Longrightarrow> p \<le> b \<and> b < e \<and> q = line_end buf e b"
proof (induction buf e p rule: line_ranges.induct)
  case (1 buf e p)
  show ?case
  proof (cases "p < e \<and> buf ! p \<noteq> NUL")
    case True
    with 1 line_ranges_step(1) [of p e buf] scan_ge [of p "\<lambda>c. c \<noteq> NL" buf e] show ?thesis by force
  next
    case False
    with 1 line_ranges_step(2) [OF False] show ?thesis by simp
  qed
qed

lemma line_ranges_no_NL:
  assumes "e \<le> length buf" and "(b, q) \<in> set (line_ranges buf e p)"
  shows "NL \<notin> set (segment buf b q)"
  using line_chars [OF assms(1), of NL b] line_ranges_in [OF assms(2)] by fastforce

lemma line_loop_spec:
  assumes "TEXT_HDR + length line < sz" and "TEXT_HDR + 1 < sz"
  shows "line_loop s sz line =
    Defined (line @ takeWhile (\<lambda>c. c \<noteq> NL) s, tl (dropWhile (\<lambda>c. c \<noteq> NL) s), NL \<notin> set s)"
  using assms
proof (induction s sz line rule: line_loop.induct)
  case (2 ch s sz line)
  then show ?case by (auto simp: Let_def TEXT_HDR_def)
qed simp

section \<open>Searching a text made of lines\<close>

definition unlines :: "string list \<Rightarrow> string" where
  "unlines ls = concat (map (\<lambda>l. l @ [NL]) ls)"

lemma unlines_simps [simp]: "unlines [] = []" "unlines (l # ls) = l @ NL # unlines ls"
    "unlines (ls @ ls') = unlines ls @ unlines ls'"
  by (simp_all add: unlines_def)

lemma segment_append:
  assumes "e \<le> length buf" and "segment buf p e = a @ b" and "p \<le> e"
  shows "segment buf p (p + length a) = a" and "segment buf (p + length a) e = b" and "p + length a \<le> e"
proof -
  have len: "length a + length b = e - p" using assms(1,2) by (metis length_append segment_length)
  then show le: "p + length a \<le> e" using assms(3) by linarith
  have "segment buf p e = segment buf p (p + length a) @ segment buf (p + length a) e"
    using le by (intro segment_split) auto
  moreover have "length (segment buf p (p + length a)) = length a" using assms(1) le by simp
  ultimately show "segment buf p (p + length a) = a" "segment buf (p + length a) e = b"
    using assms(2) by auto
qed

lemma line_end_eq:
  assumes "e \<le> length buf" and "segment buf p e = a @ NL # b" and "NL \<notin> set a" and "NUL \<notin> set a"
  shows "line_end buf e p = p + length a"
  using assms
proof (induction a arbitrary: p)
  case Nil
  then have "p < e" by (cases "p < e") (auto simp: segment_def)
  with Nil have "buf ! p = NL" using segment_Cons [of p e buf] by simp
  then show ?case using scan_step(2) [of p e buf "\<lambda>c. c \<noteq> NL"] by simp
next
  case (Cons c a)
  then have "p < e" by (cases "p < e") (auto simp: segment_def)
  with Cons have "buf ! p = c" "segment buf (p + 1) e = a @ NL # b"
    using segment_Cons [of p e buf] by simp_all
  with Cons \<open>p < e\<close> show ?case using scan_step(1) [of p e buf "\<lambda>c. c \<noteq> NL"] by auto
qed

text \<open>The first line that qualifies is found at its place.\<close>

lemma find_line:
  assumes "e \<le> length buf" and "segment buf p e = unlines (as @ l # bs)" and "p \<le> e"
    and "\<forall>a \<in> set (as @ [l]). NL \<notin> set a \<and> NUL \<notin> set a" and "\<forall>a \<in> set as. \<not> Q a" and "Q l"
  shows "List.find (\<lambda>(b, q). Q (segment buf b q)) (line_ranges buf e p) =
    Some (p + length (unlines as), p + length (unlines as) + length l)"
  using assms
proof (induction as arbitrary: p)
  case Nil
  then have seg: "segment buf p e = l @ NL # unlines bs" by simp
  then have le: "line_end buf e p = p + length l" using line_end_eq Nil by auto
  have "p < e" using seg by (cases "p < e") (auto simp: segment_def)
  moreover have "buf ! p = hd (l @ [NL])"
    using seg calculation segment_Cons [of p e buf] Nil.prems(1) by (cases l) auto
  moreover have "hd (l @ [NL]) \<noteq> NUL" using Nil.prems(4) by (cases l) auto
  ultimately have "line_ranges buf e p = (p, p + length l) # line_ranges buf e (p + length l + 1)"
    using line_ranges_step(1) [of p e buf] le by simp
  moreover have "segment buf p (p + length l) = l" using segment_append(1) [OF Nil.prems(1) seg Nil.prems(3)] .
  ultimately show ?case using Nil.prems(6) by simp
next
  case (Cons a as)
  then have seg: "segment buf p e = a @ NL # unlines (as @ l # bs)" by simp
  then have le: "line_end buf e p = p + length a" using line_end_eq Cons by auto
  have "p < e" using seg by (cases "p < e") (auto simp: segment_def)
  moreover have "buf ! p = hd (a @ [NL])"
    using seg calculation segment_Cons [of p e buf] Cons.prems(1) by (cases a) auto
  moreover have "hd (a @ [NL]) \<noteq> NUL" using Cons.prems(4) by (cases a) auto
  ultimately have "line_ranges buf e p = (p, p + length a) # line_ranges buf e (p + length a + 1)"
    using line_ranges_step(1) [of p e buf] le by simp
  moreover have "segment buf p (p + length a) = a" using segment_append(1) [OF Cons.prems(1) seg Cons.prems(3)] .
  moreover have "segment buf (p + length (a @ [NL])) e = unlines (as @ l # bs)" "p + length (a @ [NL]) \<le> e"
    using segment_append(2,3) [of e buf p "a @ [NL]" "unlines (as @ l # bs)"] seg Cons.prems(1,3) by auto
  ultimately show ?case using Cons.IH [of "p + length a + 1"] Cons.prems by simp
qed

lemma scan_segment:
  assumes "e \<le> length buf" and "segment buf p e = a @ b" and "p \<le> e"
    and "\<forall>c \<in> set a. Q c \<and> c \<noteq> NUL" and "b = [] \<or> \<not> Q (hd b)"
  shows "scan Q buf e p = p + length a"
  using assms
proof (induction a arbitrary: p)
  case Nil
  show ?case
  proof (cases "p < e")
    case True
    then show ?thesis using Nil segment_Cons [of p e buf] scan_step(2) [of p e buf Q] by auto
  qed (simp add: scan_step(2))
next
  case (Cons c a)
  then have "p < e" by (cases "p < e") (auto simp: segment_def)
  with Cons have "buf ! p = c" "segment buf (p + 1) e = a @ b"
    using segment_Cons [of p e buf] by simp_all
  with Cons \<open>p < e\<close> show ?case using scan_step(1) [of p e buf Q] by auto
qed

lemma match_segment:
  assumes "e \<le> length buf" and "segment buf p e = pat" and "p \<le> e" and "NUL \<notin> set pat"
  shows "match buf e p pat = (e, [])"
  using assms
proof (induction pat arbitrary: p)
  case Nil
  then have "e - p = 0" by (metis list.size(3) segment_length)
  with Nil show ?case by simp
next
  case (Cons c pat)
  then have "p < e" by (cases "p < e") (auto simp: segment_def)
  with Cons have "buf ! p = c" "segment buf (p + 1) e = pat"
    using segment_Cons [of p e buf] by simp_all
  with Cons \<open>p < e\<close> show ?case by auto
qed

section \<open>Properties of texts\<close>

text \<open>
  C36. Walking over a non-empty text without NUL with \<^verbatim>\<open>text_first_line\<close> and \<^verbatim>\<open>text_next_line\<close> ends and
  visits exactly its lines: none of the ranges visited contains a newline, and the ranges, each
  followed by a newline, make up the text (completed by a newline if it does not end in one).
\<close>

theorem text_lines_partition:
  assumes "txt_end t \<le> length buf" and "txt_beg t < txt_end t"
    and "NUL \<notin> set (segment buf (txt_beg t) (txt_end t))"
  shows "\<exists>ls. map (\<lambda>l. segment buf (txt_beg l) (txt_end l))
        (lines_from buf t (text_first_line buf t)) = ls \<and>
    (\<forall>l \<in> set ls. NL \<notin> set l) \<and>
    concat (map (\<lambda>l. l @ [NL]) ls) =
      (let s = segment buf (txt_beg t) (txt_end t) in if last s = NL then s else s @ [NL])"
proof -
  let ?e = "txt_end t" and ?b = "txt_beg t"
  have nul: "\<forall>i. ?b \<le> i \<and> i < ?e \<longrightarrow> buf ! i \<noteq> NUL"
  proof (intro allI impI)
    fix i assume i: "?b \<le> i \<and> i < ?e"
    then have lt: "i - ?b < ?e - ?b" by (simp add: diff_less_mono)
    with i have "segment buf ?b ?e ! (i - ?b) = buf ! i" "i - ?b < length (segment buf ?b ?e)"
      using assms(1) by (simp_all add: segment_def)
    with assms(3) show "buf ! i \<noteq> NUL" by (metis nth_mem)
  qed
  have last: "last (segment buf ?b ?e) = buf ! (?e - 1)"
    using assms(1,2) by (subst last_conv_nth) (auto simp: segment_def)
  let ?r = "line_ranges buf ?e ?b"
  have "lines_from buf t (text_first_line buf t) = map (\<lambda>(b, q). range_text b q) ?r"
    using lines_from_ranges [OF nul assms(2)] by (simp add: text_first_line_def Let_def)
  then have "map (\<lambda>l. segment buf (txt_beg l) (txt_end l)) (lines_from buf t (text_first_line buf t)) =
      map (\<lambda>(b, q). segment buf b q) ?r"
    by (simp add: split_beta)
  moreover have "\<forall>l \<in> set (map (\<lambda>(b, q). segment buf b q) ?r). NL \<notin> set l"
    using line_ranges_no_NL [OF assms(1)] by fastforce
  moreover have "concat (map (\<lambda>l. l @ [NL]) (map (\<lambda>(b, q). segment buf b q) ?r)) =
      concat (map (\<lambda>(b, q). segment buf b q @ [NL]) ?r)"
    by (simp add: comp_def case_prod_unfold)
  ultimately show ?thesis
    using line_ranges_join [OF assms(1) nul assms(2)] last by (simp add: Let_def)
qed

theorem text_lines_partition_witness:
  "\<exists>ls. map (\<lambda>l. segment [CHR ''a'', NL, NL, CHR ''b''] (txt_beg l) (txt_end l))
        (lines_from [CHR ''a'', NL, NL, CHR ''b''] (text_create 0 4)
          (text_first_line [CHR ''a'', NL, NL, CHR ''b''] (text_create 0 4))) = ls \<and>
    concat (map (\<lambda>l. l @ [NL]) ls) = [CHR ''a'', NL, NL, CHR ''b'', NL]"
  using text_lines_partition [of "text_create 0 4" "[CHR ''a'', NL, NL, CHR ''b'']"]
  by (simp add: text_create_def segment_def)

text \<open>
  The searches find the first line of the text, and the first line after a given line, that
  equals the string or starts with it (for strings without newline), and nothing else.
\<close>

theorem text_search_first:
  assumes "txt_end t \<le> length buf" and "NL \<notin> set (pattern str len)"
  shows "text_first_line_equals buf t str len =
      map_option (\<lambda>(b, q). range_text b q)
        (List.find (\<lambda>(b, q). segment buf b q = pattern str len) (line_ranges buf (txt_end t) (txt_beg t))) \<and>
    text_first_line_prefix buf t str len =
      map_option (\<lambda>(b, q). range_text b q)
        (List.find (\<lambda>(b, q). prefix (pattern str len) (segment buf b q))
          (line_ranges buf (txt_end t) (txt_beg t))) \<and>
    (txt_end line < txt_end t \<longrightarrow> buf ! txt_end line \<noteq> NUL \<longrightarrow>
      text_next_line_equals buf t line str len =
        map_option (\<lambda>(b, q). range_text b q)
          (List.find (\<lambda>(b, q). segment buf b q = pattern str len)
            (line_ranges buf (txt_end t) (txt_end line + 1))) \<and>
      text_next_line_prefix buf t line str len =
        map_option (\<lambda>(b, q). range_text b q)
          (List.find (\<lambda>(b, q). prefix (pattern str len) (segment buf b q))
            (line_ranges buf (txt_end t) (txt_end line + 1))))"
proof -
  have narrow: "text_narrow t b (q - b) = Some (range_text b q)"
    if "List.find P (line_ranges buf (txt_end t) (txt_beg t)) = Some (b, q)" for P b q
  proof -
    from that have "(b, q) \<in> set (line_ranges buf (txt_end t) (txt_beg t))"
      by (metis find_Some_iff nth_mem)
    then have "txt_beg t \<le> b" "b \<le> q" "q \<le> txt_end t"
      using line_ranges_in [of b q buf "txt_end t" "txt_beg t"] scan_ge scan_le by auto
    then show ?thesis by (simp add: text_narrow_def)
  qed
  have none: "txt_end t \<le> txt_end line + 1 \<Longrightarrow> line_ranges buf (txt_end t) (txt_end line + 1) = []"
    by (rule line_ranges_step(2)) simp
  show ?thesis
    using narrow none
    by (auto simp: text_first_line_equals_def text_first_line_prefix_def text_next_line_equals_def
        text_next_line_prefix_def equals_loop_find [OF assms] prefix_loop_find [OF assms] Let_def
        split: option.splits)
qed

theorem text_search_first_witness:
  "text_first_line_equals [CHR ''a'', NL, CHR ''b'', NL] (text_create 0 4) ''b'' 0 = Some (range_text 2 3)"
  using text_search_first [of "text_create 0 4" "[CHR ''a'', NL, CHR ''b'', NL]" "''b''" 0]
  by (simp add: text_create_def pattern_def segment_def line_ranges_step scan_step)

text \<open>
  C37. \<^verbatim>\<open>text_line_from_stream\<close> never stores outside its allocation; it consumes one line and returns
  it without its newline, and returns nothing exactly at the end of the stream.
\<close>

theorem text_line_from_stream_ok:
  "text_line_from_stream s =
     (let line = takeWhile (\<lambda>c. c \<noteq> NL) s in
      Defined (if s = [] then None
               else Some (line @ [NUL], \<lparr> txt_beg = 0, txt_end = length line, txt_len = length line \<rparr>),
        drop (length line + 1) s))"
proof -
  have "line_loop s 256 [] =
      Defined (takeWhile (\<lambda>c. c \<noteq> NL) s, tl (dropWhile (\<lambda>c. c \<noteq> NL) s), NL \<notin> set s)"
    using line_loop_spec [of "[]" 256 s] by (simp add: TEXT_HDR_def)
  moreover have "tl (dropWhile (\<lambda>c. c \<noteq> NL) s) = drop (length (takeWhile (\<lambda>c. c \<noteq> NL) s) + 1) s"
    by (simp add: dropWhile_eq_drop drop_Suc tl_drop)
  moreover have "NL \<notin> set s \<and> takeWhile (\<lambda>c. c \<noteq> NL) s = [] \<longleftrightarrow> s = []"
    by (cases s) auto
  ultimately show ?thesis by (simp add: text_line_from_stream_def Let_def)
qed

text \<open>
  No function reads behind the end of a text: two buffers that agree below \<^verbatim>\<open>end\<close> give the same
  lines, words and search results.
\<close>

theorem text_reads_inside:
  assumes "\<forall>i < txt_end t. buf ! i = buf' ! i"
  shows "text_first_line buf t = text_first_line buf' t \<and>
    text_next_line buf t line = text_next_line buf' t line \<and>
    text_first_word buf t = text_first_word buf' t \<and>
    text_next_word buf t line = text_next_word buf' t line \<and>
    text_find buf t str len = text_find buf' t str len \<and>
    text_first_line_prefix buf t str len = text_first_line_prefix buf' t str len \<and>
    text_next_line_prefix buf t line str len = text_next_line_prefix buf' t line str len \<and>
    text_first_line_equals buf t str len = text_first_line_equals buf' t str len \<and>
    text_next_line_equals buf t line str len = text_next_line_equals buf' t line str len"
proof -
  have ag: "\<And>i. i < txt_end t \<Longrightarrow> buf ! i = buf' ! i" using assms(1) by simp
  have loc: "scan Q buf (txt_end t) p = scan Q buf' (txt_end t) p"
      "find_loop buf (txt_end t) p str pat = find_loop buf' (txt_end t) p str pat"
      "prefix_loop buf (txt_end t) p pat = prefix_loop buf' (txt_end t) p pat"
      "equals_loop buf (txt_end t) p pat = equals_loop buf' (txt_end t) p pat" for Q p pat
    using ag by (auto intro: scan_local find_loop_local prefix_loop_local equals_loop_local)
  have "txt_end line + 1 < txt_end t \<Longrightarrow> buf ! txt_end line = buf' ! txt_end line" using ag by simp
  then have "text_next_line buf t line = text_next_line buf' t line"
      "text_next_line_prefix buf t line str len = text_next_line_prefix buf' t line str len"
      "text_next_line_equals buf t line str len = text_next_line_equals buf' t line str len"
    by (auto simp: text_next_line_def text_next_line_prefix_def text_next_line_equals_def Let_def loc)
  moreover have "text_next_word buf t line = text_next_word buf' t line"
    using ag by (auto simp: text_next_word_def Let_def loc not_le)
  ultimately show ?thesis
    by (simp add: text_first_line_def text_first_word_def text_find_def text_first_line_prefix_def
        text_first_line_equals_def Let_def loc)
qed

theorem text_reads_inside_witness:
  "text_next_word (''ab cd'' @ [NUL]) (text_create 0 5) (range_text 0 2) =
   text_next_word ''ab cdef'' (text_create 0 5) (range_text 0 2)"
  using text_reads_inside [of "text_create 0 5" "''ab cd'' @ [NUL]" "''ab cdef''" "range_text 0 2"]
  by (simp add: text_create_def less_Suc_eq numeral_eq_Suc)

end
