(* ===== verification/Systemd.thy ===== *)
theory Systemd
  imports Unit_File Text
begin

text \<open>
  \<^verbatim>\<open>src/sysvrun/systemd.c\<close>: service names, quoted words, the parser of unit files and the search for a
  unit file. Every read of the parser is guarded by \<^verbatim>\<open>< end\<close>, so that the text between \<^verbatim>\<open>cur\<close> and
  \<^verbatim>\<open>end\<close> is a list of characters, and a pointer is the part of the list from there on.
\<close>

section \<open>Service names and quoted words\<close>

definition DOT_SERVICE :: string where "DOT_SERVICE = ''.service''"

text \<open>The return value, and the string after truncation.\<close>

definition deservicify :: "string \<Rightarrow> bool \<times> string" where
  "deservicify str =
     (if ends_with str DOT_SERVICE then (True, take (length str - length DOT_SERVICE) str)
      else (False, str))"

text \<open>The table \<^verbatim>\<open>escape\<close>; \<open>None\<close> stands for its zero entries.\<close>

definition escape :: "char \<Rightarrow> char option" where
  "escape c =
     map_of [(CHR ''a'', CHR 0x07), (CHR ''b'', CHR 0x08), (CHR ''f'', CHR 0x0C), (CHR ''n'', NL),
       (CHR ''r'', CHR 0x0D), (CHR ''s'', SPACE), (CHR ''t'', TAB), (CHR ''v'', CHR 0x0B),
       (CHR 0x5C, CHR 0x5C), (CHR 0x22, CHR 0x22), (CHR 0x27, CHR 0x27)] c"

abbreviation BACKSLASH :: char where "BACKSLASH \<equiv> CHR 0x5C"

definition isquote :: "char \<Rightarrow> bool" where
  "isquote c \<longleftrightarrow> c = CHR 0x22 \<or> c = CHR 0x27"

text \<open>
  The inner loop of \<^verbatim>\<open>systemd_split_quoted\<close>: \<open>q\<close> is the open quote, \<open>word\<close> what has been collected. A
  backslash is replaced by the meaning of the character behind it, which is not consumed. The
  result has the quote that is still open, the word and the unread rest.
\<close>

fun word_loop :: "char option \<Rightarrow> string \<Rightarrow> string \<Rightarrow> char option \<times> string \<times> string" where
  "word_loop q word [] = (q, word, [])"
| "word_loop q word (ch # p) =
     (if isquote ch \<and> q = None then word_loop (Some ch) word p
      else if isquote ch \<and> q = Some ch then word_loop None word p
      else if ch = BACKSLASH \<and> p = [] then (q, word, p)
      else
        let c = (if ch = BACKSLASH then (case escape (hd p) of None \<Rightarrow> hd p | Some e \<Rightarrow> e) else ch) in
        if isblank c \<and> q = None then (q, word, p) else word_loop q (word @ [c]) p)"

lemma word_loop_rest: "length (snd (snd (word_loop q word p))) \<le> length p"
proof (induction q word p rule: word_loop.induct)
  case (2 q word ch p)
  then show ?case by (auto simp: Let_def le_SucI)
qed simp

lemma word_loop_shorter: "length (snd (snd (word_loop q word (ch # p)))) \<le> length p"
  using word_loop_rest by (auto simp: Let_def)

function split_loop :: "char option \<Rightarrow> string list \<Rightarrow> string \<Rightarrow> string list" where
  "split_loop q l p =
     (case dropWhile isblank p of
        [] \<Rightarrow> l
      | c # p' \<Rightarrow>
          (case word_loop q [] (c # p') of (q', word, r) \<Rightarrow> split_loop q' (l @ [word]) r))"
  by pat_completeness auto
termination
proof (relation "measure (\<lambda>(q, l, p). length p)", goal_cases)
  case (2 q l p c p' x1 x2 x3 x4)
  then have "length (c # p') \<le> length p" by (metis length_dropWhile_le)
  moreover have "length x4 \<le> length p'" using 2(2,3) word_loop_shorter [of q "[]" c p'] by (metis snd_conv)
  ultimately show ?case by simp
qed simp

declare split_loop.simps [simp del]

definition systemd_split_quoted :: "string \<Rightarrow> string list" where
  "systemd_split_quoted str = split_loop None [] str"

section \<open>Unit files\<close>

definition issectionname :: "char \<Rightarrow> bool" where
  "issectionname ch \<longleftrightarrow> isprint ch \<and> ch \<noteq> CHR ''['' \<and> ch \<noteq> CHR '']''"

definition iskey :: "char \<Rightarrow> bool" where
  "iskey ch \<longleftrightarrow> isdigit ch \<or> isalpha ch \<or> ch = CHR ''-''"

definition isvalue :: "char \<Rightarrow> bool" where
  "isvalue ch \<longleftrightarrow> isprint ch \<or> ch = TAB"

datatype parse_error =
    Unexpected_eof | Expected_section | Expected_bracket | Expected_eol | Section_too_long
  | Expected_key | Expected_equals | Key_too_long | Value_too_long | No_section

definition at_eof :: "string \<Rightarrow> bool" where
  "at_eof p \<longleftrightarrow> p = [] \<or> hd p = NUL"

definition to_eol :: "string \<Rightarrow> string" where
  "to_eol = dropWhile (\<lambda>c. c \<noteq> NUL \<and> c \<noteq> NL)"

lemma to_eol_length: "length (to_eol p) \<le> length p"
  by (simp add: to_eol_def length_dropWhile_le)

text \<open>
  The loop that skips comment lines inside a continued line. \<open>r\<close> is at the end of a line; the result
  has the number of lines skipped.
\<close>

function skip_comments :: "nat \<Rightarrow> string \<Rightarrow> nat \<times> string" where
  "skip_comments n r =
     (if tl r \<noteq> [] \<and> (hd (tl r) = CHR ''#'' \<or> hd (tl r) = CHR '';'')
      then skip_comments (n + 1) (to_eol (tl r)) else (n, r))"
  by pat_completeness auto
termination
proof (relation "measure (\<lambda>(n, r). length r)", goal_cases)
  case (2 n r)
  then have "length (tl r) < length r" by (cases r) auto
  then show ?case using to_eol_length [of "tl r"] by simp
qed simp

declare skip_comments.simps [simp del]

lemma skip_comments_length: "length (snd (skip_comments n r)) \<le> length r"
proof (induction n r rule: skip_comments.induct)
  case (1 n r)
  then show ?case
    using to_eol_length [of "tl r"] by (subst skip_comments.simps) (auto intro: le_trans)
qed

text \<open>
  The loop that reads a value, with whitespace normalised. \<open>value_step\<close> is the first half of its body:
  the line ends passed, the character and the rest after the character \<open>ch\<close> with \<open>r\<close> behind it;
  \<open>value_push\<close> is the second half. \<open>val\<close> has all \<^verbatim>\<open>v\<close> characters, of which the buffer holds the
  first 1024.
\<close>

definition value_step :: "char \<Rightarrow> string \<Rightarrow> nat \<times> char \<times> string" where
  "value_step ch r =
     (if ch = BACKSLASH \<and> r \<noteq> [] \<and> hd r = NL
      then (case skip_comments 1 r of (n, r') \<Rightarrow> (n, SPACE, tl r'))
      else (0, if ch = TAB then SPACE else ch, r))"

definition value_push :: "string \<Rightarrow> char \<Rightarrow> string" where
  "value_push val c =
     (if c = SPACE \<and> length val > 0 \<and> length val < 1024 \<and> last val = SPACE then val else val @ [c])"

lemma value_step_length: "value_step ch r = (n, c, r') \<Longrightarrow> length r' \<le> length r"
  using skip_comments_length [of 1 r] by (auto simp: value_step_def split: if_splits prod.splits)

function value_loop :: "nat \<Rightarrow> string \<Rightarrow> string \<Rightarrow> nat \<times> string \<times> string" where
  "value_loop lno val [] = (lno, val, [])"
| "value_loop lno val (ch # r) =
     (if isvalue ch
      then (case value_step ch r of (n, c, r') \<Rightarrow> value_loop (lno + n) (value_push val c) r')
      else (lno, val, ch # r))"
  by pat_completeness auto
termination
proof (relation "measure (\<lambda>(lno, val, r). length r)", goal_cases)
  case (2 lno val ch r n x2 c r')
  then have "length r' \<le> length r" by (metis value_step_length)
  then show ?case by simp
qed simp

definition trim_value :: "string \<Rightarrow> string" where
  "trim_value val = (if val \<noteq> [] \<and> length val < 1024 \<and> last val = SPACE then butlast val else val)"

lemma value_loop_length:
  "length (snd (snd (value_loop lno val r))) \<le> length r"
proof (induction lno val r rule: value_loop.induct)
  case (2 lno val ch r)
  obtain n c r' where s: "value_step ch r = (n, c, r')" by (cases "value_step ch r")
  with 2 value_step_length [OF s] show ?case by force
qed simp

text \<open>The four forms of a line; \<open>None\<close> in the result keeps the section.\<close>

datatype line_result =
    Failed parse_error nat
  | Skip string                                \<comment> \<open>next line\<close>
  | Section_line string string                 \<comment> \<open>section, next line\<close>
  | Pair_line nat string string string         \<comment> \<open>line number, key, value, next line\<close>

definition parse_comment :: "nat \<Rightarrow> string \<Rightarrow> line_result" where
  "parse_comment lno cur =
     (let p = to_eol cur in if at_eof p then Failed Unexpected_eof lno else Skip (tl p))"

definition parse_section :: "nat \<Rightarrow> string \<Rightarrow> line_result" where
  "parse_section lno cur =
     (let p = tl cur; sec = takeWhile issectionname p; q = dropWhile issectionname p in
      if at_eof q then Failed Unexpected_eof lno
      else if sec = [] then Failed Expected_section lno
      else if hd q \<noteq> CHR '']'' then Failed Expected_bracket lno
      else let r = tl q in
        if at_eof r then Failed Unexpected_eof lno
        else if hd r \<noteq> NL then Failed Expected_eol lno
        else if min (length sec) 256 \<ge> 255 then Failed Section_too_long lno
        else Section_line sec (tl r))"

definition parse_pair :: "nat \<Rightarrow> string \<Rightarrow> string \<Rightarrow> line_result" where
  "parse_pair lno sec cur =
     (let key = takeWhile iskey cur; p = dropWhile iskey cur in
      if at_eof p then Failed Unexpected_eof lno
      else if key = [] then Failed Expected_key lno
      else let q = dropWhile isblank p in
        if at_eof q then Failed Unexpected_eof lno
        else if hd q \<noteq> CHR ''='' then Failed Expected_equals lno
        else let q1 = dropWhile isblank (tl q) in
          if at_eof q1 then Failed Unexpected_eof lno
          else let (lno', val, r) = value_loop lno [] q1; v = trim_value val in
            if at_eof r then Failed Unexpected_eof lno'
            else if length key \<ge> 255 then Failed Key_too_long lno'
            else if length v \<ge> 1023 then Failed Value_too_long lno'
            else if sec = [] then Failed No_section lno'
            else Pair_line lno' key v (tl r))"

definition parse_line :: "nat \<Rightarrow> string \<Rightarrow> string \<Rightarrow> line_result" where
  "parse_line lno sec cur =
     (if hd cur = NUL then Failed Unexpected_eof lno
      else if hd cur = NL then Skip (tl cur)
      else if hd cur = CHR ''#'' \<or> hd cur = CHR '';'' then parse_comment lno cur
      else if hd cur = CHR ''['' then parse_section lno cur
      else parse_pair lno sec cur)"

fun next_line :: "line_result \<Rightarrow> string" where
  "next_line (Failed e n) = []"
| "next_line (Skip r) = r"
| "next_line (Section_line s r) = r"
| "next_line (Pair_line n k v r) = r"

lemma tl_shorter: "\<not> at_eof p \<Longrightarrow> length p \<le> n \<Longrightarrow> length (tl p) < n"
  by (cases p) (auto simp: at_eof_def)

lemma parse_section_shorter: "cur \<noteq> [] \<Longrightarrow> length (next_line (parse_section lno cur)) < length cur"
proof -
  assume "cur \<noteq> []"
  then have "length (tl cur) < length cur" by (cases cur) auto
  moreover have "length (dropWhile issectionname (tl cur)) \<le> length (tl cur)" by (rule length_dropWhile_le)
  ultimately show ?thesis by (auto simp: parse_section_def Let_def)
qed

lemma parse_pair_shorter: "cur \<noteq> [] \<Longrightarrow> length (next_line (parse_pair lno sec cur)) < length cur"
proof -
  assume ne: "cur \<noteq> []"
  let ?q = "dropWhile isblank (dropWhile iskey cur)" and ?q1 = "dropWhile isblank (tl (dropWhile isblank (dropWhile iskey cur)))"
  have "length ?q \<le> length cur" by (meson length_dropWhile_le le_trans)
  moreover have "length ?q1 \<le> length (tl ?q)" by (rule length_dropWhile_le)
  moreover have "length (snd (snd (value_loop lno [] ?q1))) \<le> length ?q1" by (rule value_loop_length)
  ultimately have "length (snd (snd (value_loop lno [] ?q1))) \<le> length cur" by simp
  with ne show ?thesis
    using tl_shorter [of "snd (snd (value_loop lno [] ?q1))" "length cur"]
    by (auto simp: parse_pair_def Let_def split_beta)
qed

lemma parse_line_shorter: "cur \<noteq> [] \<Longrightarrow> length (next_line (parse_line lno sec cur)) < length cur"
  using parse_section_shorter [of cur lno] parse_pair_shorter [of cur lno sec]
    tl_shorter [OF _ to_eol_length [of cur]]
  by (simp add: parse_line_def parse_comment_def Let_def)

text \<open>
  The main loop; \<open>upd\<close> is \<^verbatim>\<open>unit_update_value\<close>. An error has its kind and the line number reported.
\<close>

function parse_loop ::
  "('u \<Rightarrow> string \<Rightarrow> string \<Rightarrow> string option \<Rightarrow> bool \<Rightarrow> (int \<times> 'u) outcome) \<Rightarrow> nat \<Rightarrow> string \<Rightarrow> 'u \<Rightarrow>
   string \<Rightarrow> (parse_error \<times> nat + 'u) outcome" where
  "parse_loop upd lno sec u cur =
     (if cur = [] then Defined (Inr u)
      else case parse_line lno sec cur of
        Failed e n \<Rightarrow> Defined (Inl (e, n))
      | Skip r \<Rightarrow> parse_loop upd (lno + 1) sec u r
      | Section_line sec' r \<Rightarrow> parse_loop upd (lno + 1) sec' u r
      | Pair_line n key val r \<Rightarrow>
          (case upd u sec key (Some val) (val \<noteq> []) of
             UB \<Rightarrow> UB
           | Defined (x, u') \<Rightarrow> parse_loop upd (n + 1) sec u' r))"
  by pat_completeness auto
termination
proof (relation "measure (\<lambda>(upd, lno, sec, u, cur). length cur)", goal_cases)
  case (2 upd lno sec u cur r)
  then show ?case using parse_line_shorter [of cur lno sec] by simp
next
  case (3 upd lno sec u cur sec' r)
  then show ?case using parse_line_shorter [of cur lno sec] by simp
next
  case (4 upd lno sec u cur n key val r x1 x2 u')
  then show ?case using parse_line_shorter [of cur lno sec] by simp
qed simp

declare parse_loop.simps [simp del]

text \<open>
  \<^verbatim>\<open>systemd_parse_unit_file\<close> on the text \<open>txt\<close> of the buffer \<open>buf\<close>; \<open>Inl\<close> is the null pointer.
\<close>

definition systemd_parse_unit_file ::
  "('p, 's) section_ops \<Rightarrow> 'p pair_ops \<Rightarrow> string \<Rightarrow> string \<Rightarrow> text_range \<Rightarrow>
   (parse_error \<times> nat + 's unit_file) outcome" where
  "systemd_parse_unit_file Hs Hp name buf txt =
     parse_loop (unit_update_value Hs Hp) 1 [] (unit_create Hs name)
       (segment buf (txt_beg txt) (txt_beg txt + txt_len txt))"

section \<open>Looking for a unit file\<close>

definition systemd_unit_path :: "string list" where
  "systemd_unit_path = [''/etc/systemd/system'', ''/run/systemd/system'', ''/usr/lib/systemd/system'', ''.'']"

text \<open>
  The loop of \<^verbatim>\<open>systemd_find_service\<close> over the directories: \<open>stat\<close> gives the \<^verbatim>\<open>errno\<close> of the system call
  for a path, \<open>EOK\<close> if it succeeds. The result is the path that is handed to \<^verbatim>\<open>service_from_file\<close> or
  the error reported.
\<close>

fun unit_path_loop ::
  "(string \<Rightarrow> errno) \<Rightarrow> string \<Rightarrow> string \<Rightarrow> string \<Rightarrow> string list \<Rightarrow> errno + string" where
  "unit_path_loop stat root name sfx [] = Inl ENOENT"
| "unit_path_loop stat root name sfx (dir # dirs) =
     (let path = root @ dir @ ''/'' @ name @ sfx in
      if length path \<ge> 1024 then Inl EOVERFLOW
      else if stat path = EOK then Inr path
      else if stat path \<noteq> ENOENT \<and> stat path \<noteq> ENOTDIR then Inl (stat path)
      else unit_path_loop stat root name sfx dirs)"

definition systemd_find_service :: "(string \<Rightarrow> errno) \<Rightarrow> string \<Rightarrow> string \<Rightarrow> errno + string" where
  "systemd_find_service stat root name =
     (let sfx = (if ends_with name DOT_SERVICE then [] else DOT_SERVICE)
      in unit_path_loop stat root name sfx systemd_unit_path)"

section \<open>Values with normalised whitespace\<close>

text \<open>
  The meaning of the text of a value: runs of blanks become one space, and none is left at the end.
\<close>

fun squeeze :: "string \<Rightarrow> string" where
  "squeeze [] = []"
| "squeeze (c # cs) =
     (if isblank c then (case squeeze cs of [] \<Rightarrow> [] | d # ds \<Rightarrow> if d = SPACE then d # ds else SPACE # d # ds)
      else c # squeeze cs)"

definition untab :: "char \<Rightarrow> char" where
  "untab c = (if c = TAB then SPACE else c)"

lemma untab_SPACE [simp]: "untab SPACE = SPACE"
  by (simp add: untab_def)

lemma untab_blank: "isblank c \<Longrightarrow> untab c = SPACE" "\<not> isblank c \<Longrightarrow> untab c = c \<and> c \<noteq> SPACE"
  by (auto simp: untab_def isblank_def)

text \<open>Collecting the characters one by one and trimming the end squeezes the text.\<close>

lemma push_squeeze:
  shows "length val + length raw < 1023 \<Longrightarrow> (val = [] \<or> last val \<noteq> SPACE) \<Longrightarrow>
      trim_value (foldl value_push val (map untab raw)) = val @ squeeze raw"
    and "Suc (length val) + length raw < 1023 \<Longrightarrow>
      trim_value (foldl value_push (val @ [SPACE]) (map untab raw)) = val @ squeeze (SPACE # raw)"
proof (induction raw arbitrary: val)
  case Nil
  {
    case 1
    then show ?case by (auto simp: trim_value_def)
  next
    case 2
    then show ?case by (simp add: trim_value_def isblank_def)
  }
next
  case (Cons c raw)
  {
    case 1
    show ?case
    proof (cases "isblank c")
      case True
      then have "untab c = SPACE" "value_push val SPACE = val @ [SPACE]"
        using 1 untab_blank by (auto simp: value_push_def)
      then show ?thesis using Cons(2) [of val] 1 True by (simp add: isblank_def)
    next
      case False
      then have "untab c = c" "value_push val c = val @ [c]" "c \<noteq> SPACE"
        using untab_blank(2) [of c] by (auto simp: value_push_def)
      then show ?thesis using Cons(1) [of "val @ [c]"] 1 False by simp
    qed
  next
    case 2
    show ?case
    proof (cases "isblank c")
      case True
      then have "untab c = SPACE" "value_push (val @ [SPACE]) SPACE = val @ [SPACE]"
        using 2 untab_blank by (auto simp: value_push_def)
      moreover have "squeeze (SPACE # c # raw) = squeeze (SPACE # raw)"
        using True by (auto simp: isblank_def split: list.splits)
      ultimately show ?thesis using Cons(2) [of val] 2 by (simp del: squeeze.simps)
    next
      case False
      then have "untab c = c" "value_push (val @ [SPACE]) c = val @ [SPACE, c]" "c \<noteq> SPACE"
        using untab_blank(2) [of c] by (auto simp: value_push_def)
      moreover have "squeeze (SPACE # c # raw) = SPACE # c # squeeze raw"
        using False calculation(3) by (simp add: isblank_def)
      ultimately show ?thesis using Cons(1) [of "val @ [SPACE, c]"] 2 by (simp del: squeeze.simps)
    qed
  }
qed

section \<open>Unit files line by line\<close>

text \<open>
  The lines of a unit file: blank lines, comments, section headers, and assignments with blanks
  around the equal sign and a value that may be continued over several lines, with comment lines in
  between. \<open>line_text\<close> is the text of a line, \<open>line_ok\<close> what the syntax asks of it.
\<close>

datatype unit_line =
    Blank
  | Comment string
  | Header string
  | Assign string string string string "(string list \<times> string) list"

definition comment_ok :: "string \<Rightarrow> bool" where
  "comment_ok c \<longleftrightarrow> c \<noteq> [] \<and> (hd c = CHR ''#'' \<or> hd c = CHR '';'') \<and> NL \<notin> set c \<and> NUL \<notin> set c"

definition value_text :: "string \<Rightarrow> (string list \<times> string) list \<Rightarrow> string" where
  "value_text raw conts =
     raw @ concat (map (\<lambda>(cs, r). BACKSLASH # NL # unlines cs @ r) conts)"

definition value_logical :: "string \<Rightarrow> (string list \<times> string) list \<Rightarrow> string" where
  "value_logical raw conts = raw @ concat (map (\<lambda>(cs, r). SPACE # r) conts)"

definition cont_ok :: "string list \<times> string \<Rightarrow> bool" where
  "cont_ok = (\<lambda>(cs, r). (\<forall>c \<in> set cs. comment_ok c) \<and> (\<forall>c \<in> set r. isvalue c) \<and>
     (r = [] \<or> hd r \<noteq> CHR ''#'' \<and> hd r \<noteq> CHR '';''))"

definition value_ok :: "string \<Rightarrow> (string list \<times> string) list \<Rightarrow> bool" where
  "value_ok raw conts \<longleftrightarrow> (\<forall>c \<in> set raw. isvalue c) \<and> (raw = [] \<or> \<not> isblank (hd raw)) \<and>
     (\<forall>x \<in> set conts. cont_ok x) \<and>
     (let l = (if conts = [] then raw else snd (last conts)) in l = [] \<or> last l \<noteq> BACKSLASH) \<and>
     length (value_logical raw conts) < 1023"

fun line_text :: "unit_line \<Rightarrow> string" where
  "line_text Blank = [NL]"
| "line_text (Comment c) = c @ [NL]"
| "line_text (Header s) = ''['' @ s @ '']'' @ [NL]"
| "line_text (Assign k b1 b2 raw conts) = k @ b1 @ ''='' @ b2 @ value_text raw conts @ [NL]"

fun line_ok :: "unit_line \<Rightarrow> bool" where
  "line_ok Blank \<longleftrightarrow> True"
| "line_ok (Comment c) \<longleftrightarrow> comment_ok c"
| "line_ok (Header s) \<longleftrightarrow> s \<noteq> [] \<and> (\<forall>c \<in> set s. issectionname c) \<and> length s < 255"
| "line_ok (Assign k b1 b2 raw conts) \<longleftrightarrow> k \<noteq> [] \<and> (\<forall>c \<in> set k. iskey c) \<and> length k < 255 \<and>
     (\<forall>c \<in> set (b1 @ b2). isblank c) \<and> value_ok raw conts"

text \<open>
  What the lines mean: the updates they make, given the section at the start. An empty value
  replaces, any other is appended.
\<close>

fun doc_updates :: "string \<Rightarrow> unit_line list \<Rightarrow> update list" where
  "doc_updates sec [] = []"
| "doc_updates sec (Header s # ls) = doc_updates s ls"
| "doc_updates sec (Assign k b1 b2 raw conts # ls) =
     (let v = squeeze (value_logical raw conts) in (sec, k, v, v \<noteq> []) # doc_updates sec ls)"
| "doc_updates sec (l # ls) = doc_updates sec ls"

text \<open>No assignment before the first header.\<close>

fun sections_ok :: "string \<Rightarrow> unit_line list \<Rightarrow> bool" where
  "sections_ok sec [] \<longleftrightarrow> True"
| "sections_ok sec (Header s # ls) \<longleftrightarrow> sections_ok s ls"
| "sections_ok sec (Assign k b1 b2 raw conts # ls) \<longleftrightarrow> sec \<noteq> [] \<and> sections_ok sec ls"
| "sections_ok sec (l # ls) \<longleftrightarrow> sections_ok sec ls"

section \<open>The parser on well-formed lines\<close>

lemma isvalue_NL: "\<not> isvalue NL" "\<not> isvalue NUL" "isvalue BACKSLASH" "isvalue c \<Longrightarrow> c \<noteq> NL"
  by (auto simp: isvalue_def ctype_simps)

lemma value_loop_plain:
  assumes "\<forall>c \<in> set raw. isvalue c" and "raw = [] \<or> last raw \<noteq> BACKSLASH \<or> (rest \<noteq> [] \<and> hd rest \<noteq> NL)"
  shows "value_loop lno val (raw @ rest) = value_loop lno (foldl value_push val (map untab raw)) rest"
  using assms
proof (induction raw arbitrary: val)
  case (Cons c raw)
  have "value_step c (raw @ rest) = (0, untab c, raw @ rest)"
    using Cons.prems isvalue_NL by (cases raw) (auto simp: value_step_def untab_def)
  with Cons show ?case by (cases raw) auto
qed simp

lemma to_eol_comment: "comment_ok c \<Longrightarrow> to_eol (c @ NL # rest) = NL # rest"
  unfolding to_eol_def by (rule dropWhile_append_stop) (auto simp: comment_ok_def)

lemma skip_comments_text:
  assumes "\<forall>c \<in> set cs. comment_ok c" and "rest = [] \<or> hd rest \<noteq> CHR ''#'' \<and> hd rest \<noteq> CHR '';''"
  shows "skip_comments n (NL # unlines cs @ rest) = (n + length cs, NL # rest)"
  using assms
proof (induction cs arbitrary: n)
  case Nil
  then show ?case by (subst skip_comments.simps) (auto simp: unlines_def)
next
  case (Cons c cs)
  then have "c \<noteq> []" "hd c = CHR ''#'' \<or> hd c = CHR '';''" by (auto simp: comment_ok_def)
  then have "skip_comments n (NL # unlines (c # cs) @ rest) =
      skip_comments (n + 1) (to_eol (c @ NL # unlines cs @ rest))"
    by (subst skip_comments.simps) (auto simp: unlines_def)
  with Cons to_eol_comment [of c "unlines cs @ rest"] show ?case by simp
qed

lemma value_loop_cont:
  assumes "\<forall>c \<in> set cs. comment_ok c" and "rest = [] \<or> hd rest \<noteq> CHR ''#'' \<and> hd rest \<noteq> CHR '';''"
  shows "value_loop lno val (BACKSLASH # NL # unlines cs @ rest) =
    value_loop (lno + 1 + length cs) (value_push val SPACE) rest"
  using skip_comments_text [OF assms, of 1] by (simp add: value_step_def isvalue_NL)

abbreviation conts_text :: "(string list \<times> string) list \<Rightarrow> string" where
  "conts_text conts \<equiv> concat (map (\<lambda>(cs, r). BACKSLASH # NL # unlines cs @ r) conts)"

lemma value_loop_conts:
  assumes "\<forall>x \<in> set conts. cont_ok x" and "conts = [] \<or> snd (last conts) = [] \<or> last (snd (last conts)) \<noteq> BACKSLASH"
  shows "\<exists>n. value_loop lno val (conts_text conts @ NL # rest) =
    (n, foldl value_push val (map untab (concat (map (\<lambda>(cs, r). SPACE # r) conts))), NL # rest)"
  using assms
proof (induction conts arbitrary: lno val)
  case Nil
  then show ?case by (simp add: isvalue_NL)
next
  case (Cons x conts)
  obtain cs r where x: "x = (cs, r)" by (cases x)
  with Cons.prems have ok: "\<forall>c \<in> set cs. comment_ok c" "\<forall>c \<in> set r. isvalue c"
      "r = [] \<or> hd r \<noteq> CHR ''#'' \<and> hd r \<noteq> CHR '';''" by (auto simp: cont_ok_def)
  let ?t = "conts_text conts @ NL # rest"
  have t: "conts \<noteq> [] \<Longrightarrow> hd ?t = BACKSLASH" "conts = [] \<Longrightarrow> hd ?t = NL" by (cases conts; auto)+
  have start: "r @ ?t = [] \<or> hd (r @ ?t) \<noteq> CHR ''#'' \<and> hd (r @ ?t) \<noteq> CHR '';''"
    using ok(3) t by (cases r; cases "conts = []") auto
  have plain: "r = [] \<or> last r \<noteq> BACKSLASH \<or> (?t \<noteq> [] \<and> hd ?t \<noteq> NL)"
    using Cons.prems(2) t x by (cases "conts = []") auto
  have "value_loop lno val (conts_text (x # conts) @ NL # rest) =
      value_loop (lno + 1 + length cs) (foldl value_push (value_push val SPACE) (map untab r)) ?t"
    using value_loop_cont [OF ok(1) start, of lno val] value_loop_plain [OF ok(2) plain] x by simp
  moreover have "conts = [] \<or> snd (last conts) = [] \<or> last (snd (last conts)) \<noteq> BACKSLASH"
    using Cons.prems(2) by auto
  ultimately show ?case
    using Cons.IH [of "lno + 1 + length cs" "foldl value_push (value_push val SPACE) (map untab r)"] Cons.prems(1) x
    by auto
qed

lemma value_loop_text:
  assumes "value_ok raw conts"
  shows "\<exists>n val. value_loop lno [] (value_text raw conts @ NL # rest) = (n, val, NL # rest) \<and>
    trim_value val = squeeze (value_logical raw conts)"
proof -
  let ?t = "conts_text conts @ NL # rest"
  have "raw = [] \<or> last raw \<noteq> BACKSLASH \<or> (?t \<noteq> [] \<and> hd ?t \<noteq> NL)"
    using assms by (cases conts) (auto simp: value_ok_def Let_def)
  then have "value_loop lno [] (value_text raw conts @ NL # rest) =
      value_loop lno (foldl value_push [] (map untab raw)) ?t"
    using value_loop_plain [of raw ?t lno "[]"] assms by (auto simp: value_text_def value_ok_def)
  moreover obtain n where "value_loop lno (foldl value_push [] (map untab raw)) ?t =
      (n, foldl value_push [] (map untab (value_logical raw conts)), NL # rest)"
    using value_loop_conts [of conts lno "foldl value_push [] (map untab raw)" rest] assms
    by (auto simp: value_ok_def value_logical_def Let_def split: if_splits)
  moreover have "trim_value (foldl value_push [] (map untab (value_logical raw conts))) =
      squeeze (value_logical raw conts)"
    using push_squeeze(1) [of "[]" "value_logical raw conts"] assms by (simp add: value_ok_def)
  ultimately show ?thesis by auto
qed

lemma iskey_facts: "\<not> iskey NL" "\<not> iskey NUL" "\<not> iskey (CHR ''='')" "isblank c \<Longrightarrow> \<not> iskey c"
    "iskey c \<Longrightarrow> c \<noteq> NUL \<and> c \<noteq> NL \<and> c \<noteq> CHR ''#'' \<and> c \<noteq> CHR '';'' \<and> c \<noteq> CHR ''[''"
    "isblank c \<Longrightarrow> c \<noteq> NUL" "\<not> isblank (CHR ''='')" "\<not> isblank NL" "\<not> isblank BACKSLASH"
  by (auto simp: iskey_def ctype_simps)

lemma squeeze_length: "length (squeeze s) \<le> length s"
  by (induction s) (auto split: list.splits)

lemma value_text_start:
  assumes "value_ok raw conts"
  shows "dropWhile isblank (value_text raw conts @ NL # rest) = value_text raw conts @ NL # rest"
    and "\<not> at_eof (value_text raw conts @ NL # rest)"
proof -
  have "raw \<noteq> [] \<Longrightarrow> isvalue (hd raw) \<and> \<not> isblank (hd raw)" using assms by (auto simp: value_ok_def)
  then have "\<not> isblank (hd (value_text raw conts @ NL # rest)) \<and> hd (value_text raw conts @ NL # rest) \<noteq> NUL"
    using isvalue_NL iskey_facts by (cases raw; cases conts) (auto simp: value_text_def)
  then show "dropWhile isblank (value_text raw conts @ NL # rest) = value_text raw conts @ NL # rest"
      "\<not> at_eof (value_text raw conts @ NL # rest)"
    by (auto simp: dropWhile_eq_self_iff at_eof_def)
qed

lemma parse_line_assign:
  assumes ok: "line_ok (Assign k b1 b2 raw conts)" and sec: "sec \<noteq> []"
  shows "\<exists>n. parse_line lno sec (line_text (Assign k b1 b2 raw conts) @ rest) =
    Pair_line n k (squeeze (value_logical raw conts)) rest"
proof -
  have k: "k \<noteq> []" "\<And>c. c \<in> set k \<Longrightarrow> iskey c" "length k < 255" and b: "\<And>c. c \<in> set b1 \<union> set b2 \<Longrightarrow> isblank c"
    and v: "value_ok raw conts"
    using ok by auto
  let ?v = "value_text raw conts @ NL # rest"
  let ?p = "b1 @ CHR ''='' # b2 @ ?v"
  have stop: "?p = [] \<or> \<not> iskey (hd ?p)" using b iskey_facts by (cases b1) auto
  have tk: "takeWhile iskey (k @ ?p) = k" by (rule takeWhile_append_stop) (use k stop in auto)
  have dk: "dropWhile iskey (k @ ?p) = ?p" by (rule dropWhile_append_stop) (use k stop in auto)
  have q: "dropWhile isblank ?p = CHR ''='' # b2 @ ?v"
    by (rule dropWhile_append_stop) (use b iskey_facts in auto)
  have "dropWhile isblank (b2 @ ?v) = dropWhile isblank ?v" using b by (simp add: dropWhile_append3)
  then have q1: "dropWhile isblank (b2 @ ?v) = ?v" using value_text_start(1) [OF v] by simp
  obtain n val where vl: "value_loop lno [] ?v = (n, val, NL # rest)"
      "trim_value val = squeeze (value_logical raw conts)"
    using value_loop_text [OF v] by blast
  have len: "length (squeeze (value_logical raw conts)) < 1023"
    using v squeeze_length [of "value_logical raw conts"] by (simp add: value_ok_def)
  have hk: "iskey (hd (k @ ?p))" using k by simp
  have eof: "\<not> at_eof ?p" using b iskey_facts by (cases b1) (auto simp: at_eof_def)
  have "parse_pair lno sec (k @ ?p) = Pair_line n k (squeeze (value_logical raw conts)) rest"
    using k sec value_text_start(2) [OF v, of rest] eof len
    by (simp add: parse_pair_def tk dk q q1 vl Let_def at_eof_def [of "_ # _"])
  moreover have "parse_line lno sec (k @ ?p) = parse_pair lno sec (k @ ?p)"
    using iskey_facts(5) [OF hk] by (simp only: parse_line_def if_False simp_thms)
  ultimately show ?thesis by auto
qed

lemma parse_line_header:
  assumes "line_ok (Header s)"
  shows "parse_line lno sec (line_text (Header s) @ rest) = Section_line s rest"
proof -
  have t: "takeWhile issectionname (s @ CHR '']'' # NL # rest) = s"
    by (rule takeWhile_append_stop) (use assms in \<open>auto simp: issectionname_def\<close>)
  have d: "dropWhile issectionname (s @ CHR '']'' # NL # rest) = CHR '']'' # NL # rest"
    by (rule dropWhile_append_stop) (use assms in \<open>auto simp: issectionname_def\<close>)
  have "\<not> issectionname (CHR '']'')" by (simp add: issectionname_def)
  then show ?thesis using assms by (simp add: parse_line_def parse_section_def t d Let_def at_eof_def)
qed

lemma parse_line_comment:
  assumes "line_ok (Comment c)"
  shows "parse_line lno sec (line_text (Comment c) @ rest) = Skip rest"
  using assms to_eol_comment [of c rest]
  by (auto simp: parse_line_def parse_comment_def Let_def at_eof_def comment_ok_def)

section \<open>The parser on whole files\<close>

context value_store
begin

lemma parse_loop_lines:
  assumes "wf u" and "\<forall>l \<in> set ls. line_ok l" and "sections_ok sec ls"
  shows "\<exists>u'. parse_loop upd lno sec u (concat (map line_text ls)) = Defined (Inr u') \<and>
    wf u' \<and> get u' = kv_updates (get u) (doc_updates sec ls)"
  using assms
proof (induction ls arbitrary: lno sec u)
  case Nil
  then show ?case by (simp add: parse_loop.simps)
next
  case (Cons l ls)
  let ?t = "line_text l @ concat (map line_text ls)"
  have unfold: "parse_loop upd lno sec u ?t =
      (case parse_line lno sec ?t of
        Failed e n \<Rightarrow> Defined (Inl (e, n))
      | Skip r \<Rightarrow> parse_loop upd (lno + 1) sec u r
      | Section_line sec' r \<Rightarrow> parse_loop upd (lno + 1) sec' u r
      | Pair_line n key val r \<Rightarrow>
          (case upd u sec key (Some val) (val \<noteq> []) of
             UB \<Rightarrow> UB
           | Defined (x, u') \<Rightarrow> parse_loop upd (n + 1) sec u' r))"
    by (subst parse_loop.simps) (cases l; simp)
  have ok: "line_ok l" "\<forall>l \<in> set ls. line_ok l" using Cons.prems by simp_all
  show ?case
  proof (cases l)
    case Blank
    with Cons.IH [OF Cons.prems(1) ok(2), of sec] Cons.prems(3) unfold show ?thesis
      by (simp add: parse_line_def)
  next
    case (Comment c)
    with Cons.IH [OF Cons.prems(1) ok(2), of sec] Cons.prems(3) ok(1) parse_line_comment unfold show ?thesis
      by (simp del: line_text.simps)
  next
    case (Header s)
    with Cons.IH [OF Cons.prems(1) ok(2), of s] Cons.prems(3) ok(1) parse_line_header unfold show ?thesis
      by (simp del: line_text.simps)
  next
    case (Assign k b1 b2 raw conts)
    let ?v = "squeeze (value_logical raw conts)"
    obtain n where n: "parse_line lno sec ?t = Pair_line n k ?v (concat (map line_text ls))"
      using parse_line_assign [of k b1 b2 raw conts sec lno "concat (map line_text ls)"]
        ok(1) Cons.prems(3) Assign by auto
    obtain x u1 where u1: "upd u sec k (Some ?v) (?v \<noteq> []) = Defined (x, u1)"
        "wf u1" "get u1 = kv_update (get u) sec k ?v (?v \<noteq> [])"
      using upd_ok [OF Cons.prems(1)] by blast
    with Cons.IH [OF u1(2) ok(2), of sec] Cons.prems(3) unfold n Assign show ?thesis
      by (simp add: Let_def del: line_text.simps)
  qed
qed

end

section \<open>Printed units\<close>

text \<open>The lines that \<^verbatim>\<open>unit_to_byte_array\<close> prints, as lines of a unit file.\<close>

definition pair_line :: "string \<times> pair \<Rightarrow> unit_line" where
  "pair_line = (\<lambda>(k, p). Assign (pair_key p) [] [] (pair_value p) [])"

definition section_doc :: "'p pair_ops \<Rightarrow> 'p unit_section \<Rightarrow> unit_line list" where
  "section_doc Hp s = Header (section_name s) # map pair_line (ht_elems Hp (section_pairs s))"

definition unit_doc :: "('p, 's) section_ops \<Rightarrow> 'p pair_ops \<Rightarrow> 's unit_file \<Rightarrow> unit_line list" where
  "unit_doc Hs Hp u = concat (map (\<lambda>(n, s). section_doc Hp s) (ht_elems Hs (unit_sections u)))"

lemma unit_doc_text:
  fixes Hp :: "'a pair_ops"
  shows "concat (map line_text (unit_doc Hs Hp u)) = concat (unit_lines Hs Hp u)"
proof -
  have "concat (map line_text (section_doc Hp s)) = concat (section_lines Hp s)" for s
    by (simp add: section_doc_def section_lines_def pair_line_def value_text_def comp_def case_prod_unfold)
  then have "concat (map line_text (concat (map (\<lambda>(n, s). section_doc Hp s) es))) =
      concat (concat (map (\<lambda>(n, s). section_lines Hp s) es))" for es :: "(string \<times> 'a unit_section) list"
    by (induction es) auto
  then show ?thesis by (simp only: unit_doc_def unit_lines_def)
qed

lemma doc_updates_pairs:
  assumes "\<forall>(k, p) \<in> set es. squeeze (pair_value p) = pair_value p"
  shows "doc_updates sec (map pair_line es @ ls) =
    map (\<lambda>(k, p). (sec, pair_key p, pair_value p, pair_value p \<noteq> [])) es @ doc_updates sec ls"
  using assms by (induction es) (auto simp: pair_line_def value_logical_def Let_def)

lemma kv_updates_section:
  assumes "distinct (map fst es)" and "\<forall>(k, p) \<in> set es. pair_key p = k \<and> m sec k = None"
  shows "kv_updates m (map (\<lambda>(k, p). (sec, pair_key p, pair_value p, pair_value p \<noteq> [])) es) =
    m(sec := m sec ++ (map_option pair_value \<circ> map_of es))"
  using assms
proof (induction es arbitrary: m)
  case Nil
  then show ?case by (simp add: map_add_def)
next
  case (Cons e es)
  obtain k p where e: "e = (k, p)" by (cases e)
  with Cons.prems have k: "pair_key p = k" "m sec k = None" "k \<notin> fst ` set es" by auto
  have none: "map_of es k = None" using k(3) by (simp add: map_of_eq_None_iff)
  let ?m = "kv_update m sec k (pair_value p) (pair_value p \<noteq> [])"
  have m: "?m = m(sec := (m sec)(k \<mapsto> pair_value p))"
    using k by (auto simp: kv_update_cases fun_eq_iff)
  have all: "\<forall>(k, p) \<in> set es. pair_key p = k \<and> ?m sec k = None"
  proof clarify
    fix a b assume ab: "(a, b) \<in> set es"
    then have "a \<noteq> k" using k(3) by force
    with ab Cons.prems(2) show "pair_key b = a \<and> ?m sec a = None" by (auto simp: m)
  qed
  have "kv_updates m (map (\<lambda>(k, p). (sec, pair_key p, pair_value p, pair_value p \<noteq> [])) (e # es)) =
      kv_updates ?m (map (\<lambda>(k, p). (sec, pair_key p, pair_value p, pair_value p \<noteq> [])) es)"
    using e k(1) by simp
  also have "\<dots> =
      ?m(sec := ?m sec ++ (map_option pair_value \<circ> map_of es))"
    by (rule Cons.IH) (use Cons.prems all in simp_all)
  also have "\<dots> = m(sec := m sec ++ (map_option pair_value \<circ> map_of (e # es)))"
    using k(1,2) e none by (auto simp: m fun_eq_iff map_add_def split: option.splits)
  finally show ?case .
qed

text \<open>The values of a table of sections that are met in some order.\<close>

definition section_values :: "'p pair_ops \<Rightarrow> (string \<times> 'p unit_section) list \<Rightarrow> valuation" where
  "section_values Hp ss =
     (\<lambda>sec. case map_of ss sec of None \<Rightarrow> Map.empty
        | Some s \<Rightarrow> map_option pair_value \<circ> map_of (ht_elems Hp (section_pairs s)))"

text \<open>What can be printed and read back: names, keys and values in the form the parser leaves them.\<close>

definition pair_printable :: "string \<times> pair \<Rightarrow> bool" where
  "pair_printable = (\<lambda>(k, p). line_ok (pair_line (k, p)) \<and> squeeze (pair_value p) = pair_value p)"

definition unit_printable :: "('p, 's) section_ops \<Rightarrow> 'p pair_ops \<Rightarrow> 's unit_file \<Rightarrow> bool" where
  "unit_printable Hs Hp u \<longleftrightarrow>
     (\<forall>(n, s) \<in> set (ht_elems Hs (unit_sections u)).
        line_ok (Header n) \<and> (\<forall>x \<in> set (ht_elems Hp (section_pairs s)). pair_printable x)) \<and>
     length (concat (unit_lines Hs Hp u)) \<le> SIZE_MAX"

lemma doc_updates_snoc_section:
  assumes "\<forall>x \<in> set (ht_elems Hp (section_pairs s)). pair_printable x"
  shows "doc_updates sec (section_doc Hp s @ ls) =
    map (\<lambda>(k, p). (section_name s, pair_key p, pair_value p, pair_value p \<noteq> []))
      (ht_elems Hp (section_pairs s)) @ doc_updates (section_name s) ls"
  using doc_updates_pairs [of "ht_elems Hp (section_pairs s)" "section_name s" ls] assms
  by (force simp: section_doc_def pair_printable_def)

lemma segment_embedded: "segment (pre @ t @ post) (length pre) (length pre + length t) = t"
  by (simp add: segment_def)

context unit_tables
begin

lemma section_doc_values:
  assumes "distinct (map fst ss)"
    and "\<forall>(n, s) \<in> set ss. section_name s = n \<and>
      (\<forall>(k, p) \<in> set (ht_elems Hp (section_pairs s)). pair_key p = k) \<and>
      (\<forall>x \<in> set (ht_elems Hp (section_pairs s)). pair_printable x)"
    and "\<forall>n \<in> fst ` set ss. m n = Map.empty"
  shows "kv_updates m (doc_updates sec (concat (map (\<lambda>(n, s). section_doc Hp s) ss))) =
    (\<lambda>n. if n \<in> fst ` set ss then section_values Hp ss n else m n)"
  using assms
proof (induction ss arbitrary: m sec)
  case (Cons x ss)
  obtain n s where x: "x = (n, s)" by (cases x)
  let ?es = "ht_elems Hp (section_pairs s)"
  have s: "section_name s = n" "\<forall>(k, p) \<in> set ?es. pair_key p = k" "\<forall>x \<in> set ?es. pair_printable x"
    using Cons.prems(2) x by auto
  have n: "m n = Map.empty" "n \<notin> fst ` set ss" using Cons.prems x by auto
  let ?m = "m(n := map_option pair_value \<circ> map_of ?es)"
  have "kv_updates m (map (\<lambda>(k, p). (n, pair_key p, pair_value p, pair_value p \<noteq> [])) ?es) = ?m"
    using kv_updates_section [OF p.elems_distinct, of "section_pairs s" m n] s(2) n(1) by force
  then have "kv_updates m (doc_updates sec (concat (map (\<lambda>(n, s). section_doc Hp s) (x # ss)))) =
      kv_updates ?m (doc_updates n (concat (map (\<lambda>(n, s). section_doc Hp s) ss)))"
    using doc_updates_snoc_section [OF s(3), of sec] s(1) x by (simp add: kv_updates_append)
  also have "\<dots> = (\<lambda>n'. if n' \<in> fst ` set ss then section_values Hp ss n' else ?m n')"
    by (rule Cons.IH) (use Cons.prems n(2) in auto)
  also have "\<dots> = (\<lambda>n'. if n' \<in> fst ` set (x # ss) then section_values Hp (x # ss) n' else m n')"
    using n(2) x by (auto simp: section_values_def fun_eq_iff)
  finally show ?case .
qed simp

lemma unit_doc_values:
  assumes "unit_wf Hs Hp u" and "unit_printable Hs Hp u"
  shows "kv_updates (\<lambda>s k. None) (doc_updates [] (unit_doc Hs Hp u)) = unit_get_value Hs Hp u"
proof -
  let ?ss = "ht_elems Hs (unit_sections u)"
  have "kv_updates (\<lambda>s k. None) (doc_updates [] (unit_doc Hs Hp u)) =
      (\<lambda>n. if n \<in> fst ` set ?ss then section_values Hp ?ss n else (\<lambda>k. None))"
    unfolding unit_doc_def
    using assms by (intro section_doc_values) (auto simp: unit_wf_def unit_printable_def s.elems_distinct)
  moreover have "fst ` set ?ss = dom (ht_get Hs (unit_sections u))" by (rule s.elems_keys)
  ultimately show ?thesis
    by (auto simp: section_values_def unit_get_value_def fun_eq_iff split: option.splits)
qed

lemma unit_doc_ok:
  assumes "unit_wf Hs Hp u" and "unit_printable Hs Hp u"
  shows "\<forall>l \<in> set (unit_doc Hs Hp u). line_ok l" and "sections_ok [] (unit_doc Hs Hp u)"
proof -
  show "\<forall>l \<in> set (unit_doc Hs Hp u). line_ok l"
    using assms
    by (fastforce simp: unit_doc_def section_doc_def unit_printable_def unit_wf_def pair_printable_def)
  have pairs: "sec \<noteq> [] \<Longrightarrow> sections_ok sec (map pair_line es @ ls) = sections_ok sec ls" for sec es ls
    by (induction es) (auto simp: pair_line_def)
  have "\<forall>(n, s) \<in> set ss. section_name s \<noteq> [] \<Longrightarrow>
      sections_ok sec (concat (map (\<lambda>(n, s). section_doc Hp s) ss))" for ss sec
    by (induction ss arbitrary: sec) (auto simp: section_doc_def pairs)
  moreover have "\<forall>(n, s) \<in> set (ht_elems Hs (unit_sections u)). section_name s \<noteq> []"
    using assms by (auto simp: unit_printable_def unit_wf_def)
  ultimately show "sections_ok [] (unit_doc Hs Hp u)" unfolding unit_doc_def by blast
qed

lemma parse_document:
  assumes "\<forall>l \<in> set ls. line_ok l" and "sections_ok [] ls" and "t = concat (map line_text ls)"
  shows "\<exists>u. systemd_parse_unit_file Hs Hp name (pre @ t @ post) (text_create (length pre) (length t)) =
      Defined (Inr u) \<and> unit_wf Hs Hp u \<and>
    unit_get_value Hs Hp u = kv_updates (\<lambda>s k. None) (doc_updates [] ls)"
  using parse_loop_lines [OF wf_create assms(1,2), of 1 name]
  by (simp add: systemd_parse_unit_file_def text_create_def segment_embedded assms(3) get_create)

lemma print_parse:
  assumes "unit_wf Hs Hp u" and "unit_printable Hs Hp u"
  shows "\<exists>t u'. unit_to_string Hs Hp u = Some t \<and>
    systemd_parse_unit_file Hs Hp name (pre @ t @ post) (text_create (length pre) (length t)) = Defined (Inr u') \<and>
    unit_wf Hs Hp u' \<and> unit_get_value Hs Hp u' = unit_get_value Hs Hp u"
proof -
  let ?t = "concat (unit_lines Hs Hp u)"
  have "unit_to_string Hs Hp u = Some ?t"
    using assms(2)
    by (simp add: unit_to_string_def unit_to_byte_array_def byte_array_appends_eq make_byte_array_def
        unit_printable_def)
  moreover have "?t = concat (map line_text (unit_doc Hs Hp u))" by (simp add: unit_doc_text)
  ultimately show ?thesis
    using parse_document [OF unit_doc_ok [OF assms]] unit_doc_values [OF assms] by metis
qed

end

section \<open>Properties of the parser\<close>

text \<open>
  C4. A unit file whose lines are blank lines, comments, section headers and assignments (the
  latter with blanks around the equal sign, values with arbitrary blanks, continued over several
  lines with comments in between), whose first header precedes the first assignment and whose names
  and values are within the limits, is accepted. The values of the unit are those of the
  assignments in order: blanks in a value are squeezed, a repeated key is extended after a space and
  an empty value replaces the value so far.
\<close>

theorem parse_unit_file_lines:
  assumes "hash_table Hs" and "hash_table Hp"
    and "\<forall>l \<in> set ls. line_ok l" and "sections_ok [] ls" and "t = concat (map line_text ls)"
  shows "\<exists>u. systemd_parse_unit_file Hs Hp name (pre @ t @ post) (text_create (length pre) (length t)) =
      Defined (Inr u) \<and> unit_wf Hs Hp u \<and>
    unit_get_value Hs Hp u = kv_updates (\<lambda>s k. None) (doc_updates [] ls)"
  by (rule unit_tables.parse_document [OF unit_tablesI [OF assms(1,2)] assms(3,4,5)])

text \<open>
  C28. Printing and parsing are inverse: the text that \<^verbatim>\<open>unit_to_string\<close> makes of a unit with
  printable names and values, \<^verbatim>\<open>systemd_parse_unit_file\<close> reads as a unit with the same values,
  whatever order the hash tables are traversed in.
\<close>

theorem unit_print_parse:
  assumes "hash_table Hs" and "hash_table Hp" and "unit_wf Hs Hp u" and "unit_printable Hs Hp u"
  shows "\<exists>t u'. unit_to_string Hs Hp u = Some t \<and>
    systemd_parse_unit_file Hs Hp name (t @ [NUL]) (text_create 0 (length t)) = Defined (Inr u') \<and>
    unit_wf Hs Hp u' \<and> unit_get_value Hs Hp u' = unit_get_value Hs Hp u"
  using unit_tables.print_parse [OF unit_tablesI [OF assms(1,2)] assms(3,4), of name "[]" "[NUL]"] by simp

theorem parse_unit_file_lines_witness:
  "\<exists>u. systemd_parse_unit_file alist_ops alist_ops ''x''
      (''[A]'' @ [NL] @ ''k = a  b'' @ [BACKSLASH, NL] @ ''c'' @ [NL, NUL])
      (text_create 0 (length (''[A]'' @ [NL] @ ''k = a  b'' @ [BACKSLASH, NL] @ ''c'' @ [NL]))) = Defined (Inr u) \<and>
    unit_get_value alist_ops alist_ops u ''A'' ''k'' = Some ''a b c''"
  using parse_unit_file_lines [OF alist_table.hash_table_axioms alist_table.hash_table_axioms,
      of "[Header ''A'', Assign ''k'' '' '' '' '' ''a  b'' [([], ''c'')]]"
        "''[A]'' @ [NL] @ ''k = a  b'' @ [BACKSLASH, NL] @ ''c'' @ [NL]" "''x''" "[]" "[NUL]"]
  by (auto simp: text_create_def value_text_def unlines_def value_ok_def cont_ok_def value_logical_def
      issectionname_def iskey_def isvalue_def ctype_simps kv_update_def Let_def)

theorem unit_print_parse_witness:
  "\<exists>t u'. unit_to_string alist_ops alist_ops
        \<lparr> unit_file_name = ''x'', unit_sections = [(''A'',
            \<lparr> section_name = ''A'', section_pairs = [(''k'', pair_create ''k'' ''v w'')] \<rparr>)] \<rparr> = Some t \<and>
      systemd_parse_unit_file alist_ops alist_ops ''x'' (t @ [NUL]) (text_create 0 (length t)) = Defined (Inr u') \<and>
      unit_get_value alist_ops alist_ops u' ''A'' ''k'' = Some ''v w''"
  using unit_print_parse [OF alist_table.hash_table_axioms alist_table.hash_table_axioms,
      of "\<lparr> unit_file_name = ''x'', unit_sections = [(''A'',
            \<lparr> section_name = ''A'', section_pairs = [(''k'', pair_create ''k'' ''v w'')] \<rparr>)] \<rparr>" "''x''"]
  by (auto simp: unit_wf_def unit_printable_def pair_printable_def pair_line_def unit_lines_def
      section_lines_def SIZE_MAX_def value_ok_def value_logical_def issectionname_def iskey_def isvalue_def
      ctype_simps alist_unit_get Let_def)

text \<open>
  A value ends at the first character that is not printable, whatever it is: the parser does not
  check that it is a newline, skips it and takes what follows for the next line. The first byte of
  a UTF-8 sequence in a value is such a character.
\<close>

theorem parse_line_unchecked_end:
  assumes "line_ok (Assign k [] [] raw [])" and "sec \<noteq> []" and "\<not> isvalue x" and "x \<noteq> NUL"
  shows "parse_line lno sec (k @ ''='' @ raw @ x # rest) = Pair_line lno k (squeeze raw) rest"
proof -
  have k: "k \<noteq> []" "\<And>c. c \<in> set k \<Longrightarrow> iskey c" "length k < 255" and v: "value_ok raw []"
    using assms(1) by auto
  let ?v = "raw @ x # rest"
  have tk: "takeWhile iskey (k @ CHR ''='' # ?v) = k"
    by (rule takeWhile_append_stop) (use k iskey_facts in auto)
  have dk: "dropWhile iskey (k @ CHR ''='' # ?v) = CHR ''='' # ?v"
    by (rule dropWhile_append_stop) (use k iskey_facts in auto)
  have nb: "\<not> isblank x" using assms(3) by (auto simp: isvalue_def ctype_simps)
  have raw: "\<forall>c \<in> set raw. isvalue c" "raw = [] \<or> last raw \<noteq> BACKSLASH" "raw = [] \<or> \<not> isblank (hd raw)"
      "length raw < 1023"
    using v by (auto simp: value_ok_def value_logical_def Let_def)
  have q1: "dropWhile isblank ?v = ?v" using raw(3) nb by (cases raw) auto
  have eof: "\<not> at_eof ?v" using assms(4) raw(1) isvalue_NL by (cases raw) (auto simp: at_eof_def)
  have "value_loop lno [] ?v = (lno, foldl value_push [] (map untab raw), x # rest)"
    using value_loop_plain [of raw "x # rest" lno "[]"] raw(1,2) assms(3) by auto
  moreover have "trim_value (foldl value_push [] (map untab raw)) = squeeze raw"
    using push_squeeze(1) [of "[]" raw] raw(4) by simp
  moreover have "length (squeeze raw) < 1023" using squeeze_length [of raw] raw(4) by linarith
  ultimately have "parse_pair lno sec (k @ CHR ''='' # ?v) = Pair_line lno k (squeeze raw) rest"
    using k assms(2,4) eof nb iskey_facts(7) by (simp add: parse_pair_def tk dk q1 Let_def at_eof_def [of "_ # _"])
  moreover have "iskey (hd (k @ CHR ''='' # ?v))" using k by simp
  ultimately show ?thesis using iskey_facts(5) [of "hd (k @ CHR ''='' # ?v)"] k(1) by (simp add: parse_line_def)
qed

theorem parse_line_unchecked_end_witness:
  "parse_line 1 ''Unit'' (''Description=Caf'' @ [CHR 0xC3, CHR 0xA9, NL]) =
    Pair_line 1 ''Description'' ''Caf'' [CHR 0xA9, NL]"
  using parse_line_unchecked_end [of "''Description''" "''Caf''" "''Unit''" "CHR 0xC3" 1 "[CHR 0xA9, NL]"]
  by (simp add: iskey_def isvalue_def value_ok_def value_logical_def ctype_simps)

section \<open>Properties of quoted words\<close>

text \<open>
  An argument in a command line: a plain word, or a word between quotes. \<open>arg_text\<close> is how it is
  written, \<open>arg_word\<close> the word meant.
\<close>

datatype arg = Plain string | Quoted char string

fun arg_text :: "arg \<Rightarrow> string" where
  "arg_text (Plain w) = w"
| "arg_text (Quoted q w) = q # w @ [q]"

fun arg_word :: "arg \<Rightarrow> string" where
  "arg_word (Plain w) = w"
| "arg_word (Quoted q w) = w"

fun arg_ok :: "arg \<Rightarrow> bool" where
  "arg_ok (Plain w) \<longleftrightarrow> w \<noteq> [] \<and> (\<forall>c \<in> set w. \<not> isblank c \<and> \<not> isquote c \<and> c \<noteq> BACKSLASH)"
| "arg_ok (Quoted q w) \<longleftrightarrow> isquote q \<and> q \<notin> set w \<and> BACKSLASH \<notin> set w"

lemma word_loop_plain:
  assumes "\<forall>c \<in> set w. \<not> isblank c \<and> \<not> isquote c \<and> c \<noteq> BACKSLASH"
  shows "word_loop None word (w @ rest) = word_loop None (word @ w) rest"
  using assms by (induction w arbitrary: word) (auto simp: Let_def)

lemma word_loop_quoted:
  assumes "isquote q" and "q \<notin> set w" and "BACKSLASH \<notin> set w"
  shows "word_loop (Some q) word (w @ q # rest) = word_loop None (word @ w) rest"
  using assms by (induction w arbitrary: word) (auto simp: Let_def)

lemma word_loop_arg:
  assumes "arg_ok a" and "rest = [] \<or> isblank (hd rest)"
  shows "word_loop None [] (arg_text a @ rest) = (None, arg_word a, tl rest)"
proof -
  have end_of_word: "word_loop None word rest = (None, word, tl rest)" for word
    using assms(2) by (cases rest) (auto simp: Let_def isquote_def isblank_def)
  show ?thesis
    using assms(1) end_of_word word_loop_plain [of _ "[]" rest] word_loop_quoted [of _ _ "[]" rest]
    by (cases a) auto
qed

lemma arg_text_start:
  "arg_ok a \<Longrightarrow> arg_text a \<noteq> [] \<and> \<not> isblank (hd (arg_text a))"
  by (cases a) (auto simp: isquote_def isblank_def)

fun command_text :: "string \<Rightarrow> (arg \<times> string) list \<Rightarrow> string" where
  "command_text lead [] = lead"
| "command_text lead ((a, sp) # as) = lead @ arg_text a @ command_text sp as"

lemma split_loop_args:
  assumes "\<forall>c \<in> set lead. isblank c" and "\<forall>(a, sp) \<in> set as. arg_ok a \<and> (\<forall>c \<in> set sp. isblank c)"
    and "\<forall>(a, sp) \<in> set (butlast as). sp \<noteq> []"
  shows "split_loop None l (command_text lead as) = l @ map (arg_word \<circ> fst) as"
  using assms
proof (induction as arbitrary: lead l)
  case Nil
  then have "dropWhile isblank lead = []" by simp
  then show ?case using split_loop.simps [of None l lead] by (simp del: dropWhile_eq_Nil_conv)
next
  case (Cons x as)
  obtain a sp where x: "x = (a, sp)" by (cases x)
  have ok: "arg_ok a" "\<forall>c \<in> set sp. isblank c" "as \<noteq> [] \<longrightarrow> sp \<noteq> []" using Cons.prems x by (auto split: if_splits)
  let ?r = "command_text sp as"
  have r: "?r = [] \<or> isblank (hd ?r)" using ok by (cases as; cases sp) auto
  have d: "dropWhile isblank (lead @ arg_text a @ ?r) = arg_text a @ ?r"
    by (rule dropWhile_append_stop) (use Cons.prems(1) arg_text_start [OF ok(1)] in auto)
  obtain c p' where cp: "arg_text a @ ?r = c # p'" using arg_text_start [OF ok(1)] by (cases "arg_text a") auto
  have w: "word_loop None [] (c # p') = (None, arg_word a, tl ?r)" using word_loop_arg [OF ok(1) r] cp by simp
  have tl: "split_loop None (l @ [arg_word a]) (tl ?r) = split_loop None (l @ [arg_word a]) ?r"
    using r by (cases ?r) (auto simp: split_loop.simps [of None "l @ [arg_word a]"])
  have "split_loop None l (command_text lead (x # as)) = split_loop None (l @ [arg_word a]) ?r"
    using x d cp w tl by (subst split_loop.simps) (simp del: word_loop.simps)
  moreover have "\<forall>(a, sp) \<in> set (butlast as). sp \<noteq> []" using Cons.prems(3) by (auto split: if_splits)
  ultimately show ?case using Cons.IH [OF ok(2)] Cons.prems(2) x by simp
qed

text \<open>
  C40. Splitting a command line made of plain words and of words in single or double quotes, with
  blanks between them, returns exactly the words: blanks and the other quote inside quotes are kept,
  and an empty quoted word is an empty word.
\<close>

theorem split_quoted_words:
  assumes "\<forall>c \<in> set lead. isblank c" and "\<forall>(a, sp) \<in> set as. arg_ok a \<and> (\<forall>c \<in> set sp. isblank c)"
    and "\<forall>(a, sp) \<in> set (butlast as). sp \<noteq> []"
  shows "systemd_split_quoted (command_text lead as) = map (arg_word \<circ> fst) as"
  using split_loop_args [OF assms, of "[]"] by (simp add: systemd_split_quoted_def)

theorem split_quoted_words_witness:
  "systemd_split_quoted (''/bin/sh -c '' @ [CHR 0x22] @ ''a b'' @ [CHR 0x22]) = [''/bin/sh'', ''-c'', ''a b'']"
  using split_quoted_words [of "[]" "[(Plain ''/bin/sh'', '' ''), (Plain ''-c'', '' ''), (Quoted (CHR 0x22) ''a b'', [])]"]
  by (simp add: isblank_def isquote_def)

text \<open>
  The character behind a backslash is not consumed: an escape sequence for a character other
  than a blank or a quote gives the escaped character and then the letter itself, so that
  \<^verbatim>\<open>a\nb\<close> is read as \<^verbatim>\<open>a\<close>, newline, \<^verbatim>\<open>nb\<close>.
\<close>

theorem split_quoted_escape_doubled:
  assumes "arg_ok (Plain (u @ c # v))" and "escape c = Some e" and "\<not> isblank e"
  shows "systemd_split_quoted (u @ BACKSLASH # c # v) = [u @ e # c # v]"
proof -
  have u: "\<forall>c \<in> set u. \<not> isblank c \<and> \<not> isquote c \<and> c \<noteq> BACKSLASH"
    and v: "\<forall>d \<in> set (c # v). \<not> isblank d \<and> \<not> isquote d \<and> d \<noteq> BACKSLASH" using assms(1) by auto
  have "word_loop None [] (u @ BACKSLASH # c # v) = word_loop None (u @ [e]) (c # v)"
    using word_loop_plain [OF u, of "[]" "BACKSLASH # c # v"] assms(2,3)
    by (simp add: Let_def isquote_def del: word_loop.simps(2)) (simp add: word_loop.simps(2) [of None u BACKSLASH] Let_def isquote_def)
  then have w: "word_loop None [] (u @ BACKSLASH # c # v) = (None, u @ e # c # v, [])"
    using word_loop_plain [OF v, of "u @ [e]" "[]"] by simp
  have d: "dropWhile isblank (u @ BACKSLASH # c # v) = u @ BACKSLASH # c # v"
    using u by (cases u) (auto simp: isblank_def)
  obtain x p where x: "u @ BACKSLASH # c # v = x # p" by (cases u) auto
  have "split_loop None [] (u @ BACKSLASH # c # v) = split_loop None [u @ e # c # v] []"
    using d w x by (subst split_loop.simps) (simp del: word_loop.simps)
  then show ?thesis by (simp add: systemd_split_quoted_def split_loop.simps [of _ _ "[]"])
qed

theorem split_quoted_escape_doubled_witness:
  "systemd_split_quoted [CHR ''a'', BACKSLASH, CHR ''n'', CHR ''b''] = [[CHR ''a'', NL, CHR ''n'', CHR ''b'']]"
  using split_quoted_escape_doubled [of "''a''" "CHR ''n''" "''b''" NL]
  by (simp add: escape_def isblank_def isquote_def)

section \<open>Properties of the search for unit files\<close>

lemma unit_path_loop_first:
  "unit_path_loop stat root name sfx dirs =
    (case dropWhile (\<lambda>p. length p < 1024 \<and> (stat p = ENOENT \<or> stat p = ENOTDIR))
        (map (\<lambda>d. root @ d @ ''/'' @ name @ sfx) dirs) of
       [] \<Rightarrow> Inl ENOENT
     | p # ps \<Rightarrow> if length p \<ge> 1024 then Inl EOVERFLOW
                else if stat p = EOK then Inr p else Inl (stat p))"
  by (induction dirs) (auto simp: Let_def)

text \<open>
  A service is looked for under its name with \<^verbatim>\<open>.service\<close>, whether or not the caller has added it,
  in the four directories in order: the first path that is not absent decides, and is returned if it
  exists; a path that does not fit the buffer or cannot be examined ends the search with an error.
\<close>

theorem find_service_first:
  assumes "\<not> ends_with name DOT_SERVICE"
  shows "systemd_find_service stat root name = systemd_find_service stat root (name @ DOT_SERVICE) \<and>
    systemd_find_service stat root name =
      (case dropWhile (\<lambda>p. length p < 1024 \<and> (stat p = ENOENT \<or> stat p = ENOTDIR))
          (map (\<lambda>d. root @ d @ ''/'' @ name @ DOT_SERVICE) systemd_unit_path) of
         [] \<Rightarrow> Inl ENOENT
       | p # ps \<Rightarrow> if length p \<ge> 1024 then Inl EOVERFLOW
                  else if stat p = EOK then Inr p else Inl (stat p))"
  using assms by (simp add: systemd_find_service_def unit_path_loop_first)

theorem find_service_first_witness:
  "systemd_find_service (\<lambda>p. if p = ''/run/systemd/system/x.service'' then EOK else ENOENT) [] ''x'' =
    Inr ''/run/systemd/system/x.service''"
  using find_service_first [of "''x''" "\<lambda>p. if p = ''/run/systemd/system/x.service'' then EOK else ENOENT" "[]"]
  by (auto simp: ends_with_def DOT_SERVICE_def systemd_unit_path_def)

end
