(* ===== verification/Service.thy ===== *)
theory Service
  imports Systemd Timespan
begin

text \<open>
  \<^verbatim>\<open>src/sysvrun/service.c\<close>, first part: services as they are read from unit files, and the init
  scripts written for them. \<open>Hs\<close>, \<open>Hp\<close> and \<open>Hd\<close> are the operations of the hash tables of sections,
  of pairs and of service names.
\<close>

section \<open>Services\<close>

datatype servicetype = ST_SIMPLE | ST_EXEC | ST_FORKING | ST_ONESHOT | ST_DBUS | ST_NOTIFY | ST_IDLE

datatype killmode = KM_CGROUP | KM_MIXED | KM_PROCESS | KM_NONE

datatype restartpolicy =
  RP_NO | RP_ALWAYS | RP_ON_SUCCESS | RP_ON_FAILURE | RP_ON_ABNORMAL | RP_ON_ABORT

definition service_type_names :: "(string \<times> servicetype) list" where
  "service_type_names =
     [(''simple'', ST_SIMPLE), (''exec'', ST_EXEC), (''forking'', ST_FORKING), (''oneshot'', ST_ONESHOT),
      (''dbus'', ST_DBUS), (''notify'', ST_NOTIFY), (''idle'', ST_IDLE)]"

definition kill_mode_names :: "(string \<times> killmode) list" where
  "kill_mode_names =
     [(''control-group'', KM_CGROUP), (''mixed'', KM_MIXED), (''process'', KM_PROCESS), (''none'', KM_NONE)]"

definition restart_policy_names :: "(string \<times> restartpolicy) list" where
  "restart_policy_names =
     [(''no'', RP_NO), (''always'', RP_ALWAYS), (''on-success'', RP_ON_SUCCESS), (''on-failure'', RP_ON_FAILURE),
      (''on-abnormal'', RP_ON_ABNORMAL), (''on-abort'', RP_ON_ABORT)]"

definition DEFAULT_STOP_TIMEOUT_US :: u64 where "DEFAULT_STOP_TIMEOUT_US = 90 * TS_SEC"
definition DEFAULT_RESTART_DELAY_US :: u64 where "DEFAULT_RESTART_DELAY_US = 100 * TS_MSEC"
definition DEFAULT_START_LIMIT_BURST :: u64 where "DEFAULT_START_LIMIT_BURST = 5"
definition DEFAULT_START_LIMIT_INTERVAL_US :: u64 where "DEFAULT_START_LIMIT_INTERVAL_US = 10 * TS_SEC"

text \<open>What a service takes from the values of its unit, and the service itself.\<close>

record settings =
  svc_type :: servicetype
  kill_mode :: killmode
  stop_timeout :: u64
  restart_policy :: restartpolicy
  remain_after_exit :: bool
  restart_delay :: u64
  start_limit_interval :: u64
  start_limit_burst :: u64
  svc_required :: "string list"
  svc_should :: "string list"

record 's service =
  svc_name :: string
  svc_unit :: "'s unit_file"
  svc_settings :: settings

definition service_create :: "string \<Rightarrow> string" where
  "service_create name = snd (deservicify name)"

section \<open>Reading the settings\<close>

text \<open>
  \<^verbatim>\<open>unit_get_value\<close> with its effect on \<^verbatim>\<open>errno\<close>; \<open>get\<close> are the values of the unit.
\<close>

definition get_value :: "valuation \<Rightarrow> string \<Rightarrow> string \<Rightarrow> errno \<Rightarrow> string option \<times> errno" where
  "get_value get sec key e = (case get sec key of None \<Rightarrow> (None, ENOENT) | Some v \<Rightarrow> (Some v, e))"

text \<open>
  The list of services in \<^verbatim>\<open>Requires\<close> or \<^verbatim>\<open>After\<close>: words without the suffix are removed.
\<close>

definition service_list :: "string option \<Rightarrow> string list" where
  "service_list v =
     (case v of None \<Rightarrow> []
      | Some s \<Rightarrow> map (snd \<circ> deservicify) (filter (fst \<circ> deservicify) (systemd_split_quoted s)))"

fun put_names :: "(string, string, 'd) hash_ops \<Rightarrow> 'd \<Rightarrow> string list \<Rightarrow> 'd" where
  "put_names Hd t [] = t"
| "put_names Hd t (v # vs) = put_names Hd (snd (ht_put Hd t v v)) vs"

definition remove_required :: "(string, string, 'd) hash_ops \<Rightarrow> string list \<Rightarrow> string list \<Rightarrow> string list" where
  "remove_required Hd req should =
     (if length req > 0 \<and> length should > 0 then
        let dedup = put_names Hd (ht_make Hd) req in filter (\<lambda>v. ht_get Hd dedup v = None) should
      else should)"

text \<open>A setting with a fixed set of words, and one that is a time span; \<open>None\<close> is the jump to \<^verbatim>\<open>fail\<close>.\<close>

definition word_setting :: "(string \<times> 'a) list \<Rightarrow> 'a \<Rightarrow> string option \<Rightarrow> 'a option" where
  "word_setting names dflt v = (case v of None \<Rightarrow> Some dflt | Some s \<Rightarrow> map_of names s)"

definition span_setting :: "u64 \<Rightarrow> string option \<Rightarrow> errno \<Rightarrow> u64 option \<times> errno" where
  "span_setting dflt v e =
     (case v of None \<Rightarrow> (Some dflt, e)
      | Some s \<Rightarrow>
          let (ts, e') = timespan_from_str e s in (if ts = TS_INVALID then None else Some ts, e'))"

definition burst_setting :: "string option \<Rightarrow> errno \<Rightarrow> u64 option \<times> errno" where
  "burst_setting v e =
     (case v of None \<Rightarrow> (Some DEFAULT_START_LIMIT_BURST, e)
      | Some s \<Rightarrow>
          let (num, rest, e') = strtou64 10 s EOK in
          (if (s \<noteq> [] \<and> hd s = CHR ''-'') \<or> rest = s \<or> rest \<noteq> [] \<or> e' \<noteq> EOK then None else Some num, e'))"

text \<open>
  \<^verbatim>\<open>service_from_unit_file\<close> after the unit has been parsed: the settings, or \<open>None\<close> for an invalid
  one, and the new \<^verbatim>\<open>errno\<close>.
\<close>

definition settings_from_values ::
  "(string, string, 'd) hash_ops \<Rightarrow> valuation \<Rightarrow> errno \<Rightarrow> settings option \<times> errno" where
  "settings_from_values Hd get e0 =
     (let (v, e) = get_value get ''Unit'' ''Requires'' e0;
          req = service_list v;
          (v, e) = get_value get ''Unit'' ''After'' e;
          should = remove_required Hd req (service_list v);
          (v, e) = get_value get ''Service'' ''Type'' e
      in case word_setting service_type_names ST_SIMPLE v of None \<Rightarrow> (None, e) | Some typ \<Rightarrow>
      let (v, e) = get_value get ''Service'' ''KillMode'' e
      in case word_setting kill_mode_names KM_CGROUP v of None \<Rightarrow> (None, e) | Some km \<Rightarrow>
      let (v, e) = get_value get ''Service'' ''TimeoutStopSec'' e
      in case span_setting DEFAULT_STOP_TIMEOUT_US v e of (None, e) \<Rightarrow> (None, e) | (Some stop, e) \<Rightarrow>
      let (v, e) = get_value get ''Service'' ''Restart'' e
      in case word_setting restart_policy_names RP_NO v of None \<Rightarrow> (None, e) | Some rp \<Rightarrow>
      let (d, e) =
        (if rp \<noteq> RP_NO then
           let (v, e) = get_value get ''Service'' ''RestartSec'' e in span_setting DEFAULT_RESTART_DELAY_US v e
         else (Some 0, e))
      in case d of None \<Rightarrow> (None, e) | Some del \<Rightarrow>
      let (v, e) = get_value get ''Service'' ''RemainAfterExit'' e;
          remain = (strbool v > 0);
          (v, e) = get_value get ''Service'' ''StartLimitInterval'' e
      in case span_setting DEFAULT_START_LIMIT_INTERVAL_US v e of (None, e) \<Rightarrow> (None, e) | (Some ivl, e) \<Rightarrow>
      let (v, e) = get_value get ''Service'' ''StartLimitBurst'' e
      in case burst_setting v e of (None, e) \<Rightarrow> (None, e) | (Some burst, e) \<Rightarrow>
      (Some \<lparr> svc_type = typ, kill_mode = km, stop_timeout = stop, restart_policy = rp,
              remain_after_exit = remain, restart_delay = del, start_limit_interval = ivl,
              start_limit_burst = burst, svc_required = req, svc_should = should \<rparr>, e))"

definition service_from_unit_file ::
  "('p, 's) section_ops \<Rightarrow> 'p pair_ops \<Rightarrow> (string, string, 'd) hash_ops \<Rightarrow> string \<Rightarrow> string \<Rightarrow> text_range \<Rightarrow> errno \<Rightarrow>
   ('s service option \<times> errno) outcome" where
  "service_from_unit_file Hs Hp Hd name buf txt e =
     (case systemd_parse_unit_file Hs Hp name buf txt of
        UB \<Rightarrow> UB
      | Defined (Inl err) \<Rightarrow> Defined (None, e)
      | Defined (Inr u) \<Rightarrow>
          (case settings_from_values Hd (unit_get_value Hs Hp u) e of
             (None, e') \<Rightarrow> Defined (None, e')
           | (Some st, e') \<Rightarrow>
               Defined (Some \<lparr> svc_name = service_create name, svc_unit = u, svc_settings = st \<rparr>, e')))"

section \<open>Writing an init script\<close>

text \<open>The conversions \<^verbatim>\<open>%-21s\<close> and \<^verbatim>\<open>%-22s\<close>.\<close>

definition pad :: "nat \<Rightarrow> string \<Rightarrow> string" where
  "pad n s = s @ replicate (n - length s) SPACE"

definition LSB_BEGIN_INIT_INFO :: string where "LSB_BEGIN_INIT_INFO = ''### BEGIN INIT INFO''"
definition LSB_END_INIT_INFO :: string where "LSB_END_INIT_INFO = ''### END INIT INFO''"
definition LSB_PROVIDES :: string where "LSB_PROVIDES = ''# Provides:''"
definition BEGIN_EMBED :: string where "BEGIN_EMBED = '':<<SYSVKIT''"
definition END_EMBED :: string where "END_EMBED = ''SYSVKIT''"

definition depends_parts :: "string \<Rightarrow> string list \<Rightarrow> string list" where
  "depends_parts head deps =
     (if length deps > 0 then (''# '' @ pad 21 head) # map (\<lambda>d. '' '' @ d) deps @ [[NL]] else [])"

text \<open>The strings that are appended in turn; \<open>self\<close> is the path of the program.\<close>

definition service_parts ::
  "('p, 's) section_ops \<Rightarrow> 'p pair_ops \<Rightarrow> string \<Rightarrow> 's service \<Rightarrow> string list" where
  "service_parts Hs Hp self svc =
     [''#!/bin/sh'' @ [NL, NL] @ LSB_BEGIN_INIT_INFO @ [NL],
      ''# '' @ pad 22 ''Provides:'' @ svc_name svc @ [NL]] @
     depends_parts ''Required-Start:'' (svc_required (svc_settings svc)) @
     depends_parts ''Should-Start:'' (svc_should (svc_settings svc)) @
     [''# '' @ pad 22 ''Default-Start:'' @ ''2 3 4 5'' @ [NL]] @
     (case unit_get_value Hs Hp (svc_unit svc) ''Unit'' ''Description'' of
        None \<Rightarrow> []
      | Some d \<Rightarrow> [''# '' @ pad 22 ''Short-Description'' @ d @ [NL]]) @
     [LSB_END_INIT_INFO @ [NL, NL],
      ''exec '' @ self @ '' -u '' @ [CHR 0x22] @ ''$0'' @ [CHR 0x22] @ '' '' @ svc_name svc @ '' '' @
        [CHR 0x22] @ ''$@'' @ [CHR 0x22, NL, NL],
      BEGIN_EMBED @ [NL]] @
     unit_lines Hs Hp (svc_unit svc) @
     [END_EMBED @ [NL]]"

definition service_to_byte_array ::
  "('p, 's) section_ops \<Rightarrow> 'p pair_ops \<Rightarrow> string \<Rightarrow> 's service \<Rightarrow> byte_array option \<Rightarrow> byte_array option" where
  "service_to_byte_array Hs Hp self svc ba =
     byte_array_appends (case ba of None \<Rightarrow> make_byte_array SIZE_MAX | Some b \<Rightarrow> b)
       (service_parts Hs Hp self svc)"

definition service_to_string ::
  "('p, 's) section_ops \<Rightarrow> 'p pair_ops \<Rightarrow> string \<Rightarrow> 's service \<Rightarrow> string option" where
  "service_to_string Hs Hp self svc =
     (case service_to_byte_array Hs Hp self svc (Some (make_byte_array SIZE_MAX)) of
        None \<Rightarrow> None
      | Some ba \<Rightarrow> Some (ba_data ba))"

section \<open>Writing to a file\<close>

text \<open>
  Files have content and mode. \<open>file_calls\<close> is what the system calls of \<^verbatim>\<open>byte_array_to_file\<close> answer: the
  characters that \<^verbatim>\<open>mkstemp\<close> puts in place of \<^verbatim>\<open>XXXXXX\<close>, the result of \<^verbatim>\<open>write\<close>, the \<^verbatim>\<open>umask\<close> of the
  process, whether \<^verbatim>\<open>fchmod\<close> and \<^verbatim>\<open>rename\<close> succeed. Sizes are converted to \<^verbatim>\<open>int\<close> where the code does.
\<close>

type_synonym files = "string \<rightharpoonup> string \<times> 32 word"

record file_calls =
  fc_mkstemp :: "string option"
  fc_write :: int
  fc_umask :: "32 word"
  fc_fchmod :: bool
  fc_rename :: bool

unbundle bit_operations_syntax

definition c_int :: "int \<Rightarrow> int" where
  "c_int n = sint (word_of_int n :: 32 word)"

definition byte_array_to_file ::
  "file_calls \<Rightarrow> files \<Rightarrow> string \<Rightarrow> string \<Rightarrow> 32 word \<Rightarrow> int \<times> files" where
  "byte_array_to_file fc fs data name mode =
     (case fc_mkstemp fc of
        None \<Rightarrow> (- 1, fs)
      | Some xs \<Rightarrow>
          let tmp = name @ ''.'' @ xs;
              res = fc_write fc;
              fs1 = fs(tmp \<mapsto> (take (nat res) data, 0x180))
          in if res < 0 then (- 1, fs1(tmp := None))
             else if res \<noteq> int (length data) then (- 1, fs1(tmp := None))
             else if \<not> fc_fchmod fc then (- 1, fs1(tmp := None))
             else
               let fs2 = fs1(tmp \<mapsto> (data, mode AND NOT (fc_umask fc)))
               in if \<not> fc_rename fc then (- 1, fs2(tmp := None))
                  else (c_int res, (fs2(tmp := None))(name := fs2 tmp)))"

definition EXIT_SUCCESS :: int where "EXIT_SUCCESS = 0"
definition EXIT_FAILURE :: int where "EXIT_FAILURE = 1"
definition EX_USAGE :: int where "EX_USAGE = 64"

text \<open>
  \<^verbatim>\<open>service_convert\<close> and \<^verbatim>\<open>service_show\<close>: \<open>out\<close> is the result of \<^verbatim>\<open>printf\<close>, used when no file is named. The
  text printed is returned with the exit code and the files.
\<close>

definition write_output ::
  "file_calls \<Rightarrow> files \<Rightarrow> int \<Rightarrow> byte_array option \<Rightarrow> string option \<Rightarrow> 32 word \<Rightarrow> int \<times> files \<times> string" where
  "write_output fc fs out ba output mode =
     (case ba of
        None \<Rightarrow> (EXIT_FAILURE, fs, [])
      | Some b \<Rightarrow>
          let len = c_int (int (length (ba_data b)));
              (res, fs', printed) =
                (case output of
                   Some name \<Rightarrow> let (r, fs') = byte_array_to_file fc fs (ba_data b) name mode in (r, fs', [])
                 | None \<Rightarrow> (out, fs, take (nat out) (ba_data b)))
          in (if res \<noteq> len then EXIT_FAILURE else EXIT_SUCCESS, fs', printed))"

definition service_convert ::
  "('p, 's) section_ops \<Rightarrow> 'p pair_ops \<Rightarrow> string \<Rightarrow> file_calls \<Rightarrow> files \<Rightarrow> int \<Rightarrow> 's service \<Rightarrow> string option \<Rightarrow>
   int \<times> files \<times> string" where
  "service_convert Hs Hp self fc fs out svc output =
     write_output fc fs out (service_to_byte_array Hs Hp self svc None) output 0x1ED"

definition service_show ::
  "('p, 's) section_ops \<Rightarrow> 'p pair_ops \<Rightarrow> file_calls \<Rightarrow> files \<Rightarrow> int \<Rightarrow> 's service \<Rightarrow> string option \<Rightarrow>
   int \<times> files \<times> string" where
  "service_show Hs Hp fc fs out svc output =
     write_output fc fs out (unit_to_byte_array Hs Hp (svc_unit svc) None) output 0x1A4"

section \<open>Facts on settings\<close>

text \<open>The settings do not depend on the table of names that removes duplicates.\<close>

locale name_table = hash_table Hd for Hd :: "(string, string, 'd) hash_ops"
begin

lemma put_names_get: "ht_get Hd (put_names Hd t vs) k = None \<longleftrightarrow> ht_get Hd t k = None \<and> k \<notin> set vs"
  by (induction vs arbitrary: t) auto

lemma remove_required_eq: "remove_required Hd req should = filter (\<lambda>v. v \<notin> set req) should"
  by (simp add: remove_required_def Let_def put_names_get get_make)

end

interpretation alist_names: name_table alist_ops
  by (rule name_table.intro) (rule alist_table.hash_table_axioms)

lemma strtou64_errno:
  "strtou64 b s e = (v, r, e') \<Longrightarrow> v = - 1 \<and> e' = ERANGE \<and> strtou64 b s e0 = (v, r, ERANGE) \<or>
    e' = e \<and> strtou64 b s e0 = (v, r, e0)"
  by (auto simp: strtou64_def split: option.splits if_splits)

text \<open>
  What \<^verbatim>\<open>timespan_from_str\<close> returns depends on \<^verbatim>\<open>errno\<close> only if that is \<^verbatim>\<open>ERANGE\<close>, and a valid span leaves it
  unchanged.
\<close>

lemma ts_loop_errno:
  assumes "e \<noteq> ERANGE" and "e0 \<noteq> ERANGE"
  shows "fst (ts_loop e ts p) = fst (ts_loop e0 ts p) \<and>
    (fst (ts_loop e ts p) \<noteq> TS_INVALID \<longrightarrow> snd (ts_loop e ts p) = e)"
  using assms(1)
proof (induction e ts p rule: ts_loop.induct)
  case (1 e ts p)
  obtain num q e1 where n: "strtou64 10 p e = (num, q, e1)" by (metis prod_cases3)
  from strtou64_errno [OF n, of e0] show ?case
  proof
    assume "num = - 1 \<and> e1 = ERANGE \<and> strtou64 10 p e0 = (num, q, ERANGE)"
    then show ?thesis using n by (simp add: ts_loop.simps [of e] ts_loop.simps [of e0])
  next
    assume a: "e1 = e \<and> strtou64 10 p e0 = (num, q, e0)"
    let ?q1 = "dropWhile ts_isblank q"
    show ?thesis
    proof (cases "p = [] \<or> \<not> isdigit (hd p) \<or> q = p \<or> takeWhile isalpha ?q1 = []")
      case True
      then show ?thesis
        using a n assms(2) "1.prems" by (auto simp: ts_loop.simps [of e] ts_loop.simps [of e0] Let_def)
    next
      case False
      then show ?thesis
        using a n assms(2) "1.prems" 1(1) [of "(num, q, e1)" num "(q, e1)" q e1 ?q1 "dropWhile isalpha ?q1"]
        by (auto simp: ts_loop.simps [of e] ts_loop.simps [of e0] Let_def split: option.splits)
    qed
  qed
qed

lemma timespan_errno:
  assumes "e \<noteq> ERANGE"
  shows "fst (timespan_from_str e s) = fst (timespan_from_str EOK s) \<and>
    (fst (timespan_from_str e s) \<noteq> TS_INVALID \<longrightarrow> snd (timespan_from_str e s) = e)"
proof -
  let ?p = "dropWhile ts_isblank s"
  obtain num q e1 where n: "strtou64 10 ?p e = (num, q, e1)" by (metis prod_cases3)
  show ?thesis
    using strtou64_errno [OF n, of EOK] n assms ts_loop_errno [OF assms, of EOK]
    by (auto simp: timespan_from_str_def Let_def)
qed

text \<open>The settings a unit asks for, said without the order of the tests and without \<^verbatim>\<open>errno\<close>.\<close>

definition word_valid :: "(string \<times> 'a) list \<Rightarrow> string option \<Rightarrow> bool" where
  "word_valid names v \<longleftrightarrow> (case v of None \<Rightarrow> True | Some s \<Rightarrow> s \<in> fst ` set names)"

definition span_valid :: "string option \<Rightarrow> bool" where
  "span_valid v \<longleftrightarrow> (case v of None \<Rightarrow> True | Some s \<Rightarrow> fst (timespan_from_str EOK s) \<noteq> TS_INVALID)"

definition word_or :: "(string \<times> 'a) list \<Rightarrow> 'a \<Rightarrow> string option \<Rightarrow> 'a" where
  "word_or names dflt v = (case v of None \<Rightarrow> dflt | Some s \<Rightarrow> the (map_of names s))"

definition span_or :: "u64 \<Rightarrow> string option \<Rightarrow> u64" where
  "span_or dflt v = (case v of None \<Rightarrow> dflt | Some s \<Rightarrow> fst (timespan_from_str EOK s))"

definition restarts :: "valuation \<Rightarrow> bool" where
  "restarts get \<longleftrightarrow> word_or restart_policy_names RP_NO (get ''Service'' ''Restart'') \<noteq> RP_NO"

definition settings_valid :: "valuation \<Rightarrow> bool" where
  "settings_valid get \<longleftrightarrow>
     word_valid service_type_names (get ''Service'' ''Type'') \<and>
     word_valid kill_mode_names (get ''Service'' ''KillMode'') \<and>
     span_valid (get ''Service'' ''TimeoutStopSec'') \<and>
     word_valid restart_policy_names (get ''Service'' ''Restart'') \<and>
     (restarts get \<longrightarrow> span_valid (get ''Service'' ''RestartSec'')) \<and>
     span_valid (get ''Service'' ''StartLimitInterval'') \<and>
     fst (burst_setting (get ''Service'' ''StartLimitBurst'') EOK) \<noteq> None"

definition settings_of :: "valuation \<Rightarrow> settings" where
  "settings_of get =
     (let req = service_list (get ''Unit'' ''Requires'') in
      \<lparr> svc_type = word_or service_type_names ST_SIMPLE (get ''Service'' ''Type''),
        kill_mode = word_or kill_mode_names KM_CGROUP (get ''Service'' ''KillMode''),
        stop_timeout = span_or (90 * TS_SEC) (get ''Service'' ''TimeoutStopSec''),
        restart_policy = word_or restart_policy_names RP_NO (get ''Service'' ''Restart''),
        remain_after_exit = (strbool (get ''Service'' ''RemainAfterExit'') > 0),
        restart_delay = (if restarts get then span_or (100 * TS_MSEC) (get ''Service'' ''RestartSec'') else 0),
        start_limit_interval = span_or (10 * TS_SEC) (get ''Service'' ''StartLimitInterval''),
        start_limit_burst = the (fst (burst_setting (get ''Service'' ''StartLimitBurst'') EOK)),
        svc_required = req,
        svc_should = filter (\<lambda>d. d \<notin> set req) (service_list (get ''Unit'' ''After'')) \<rparr>)"

lemma word_setting_eq: "word_setting names dflt v = (if word_valid names v then Some (word_or names dflt v) else None)"
  by (auto simp: word_setting_def word_valid_def word_or_def map_of_eq_None_iff weak_map_of_SomeI split: option.split)

lemma span_setting_eq:
  assumes "e \<noteq> ERANGE"
  shows "fst (span_setting dflt v e) = (if span_valid v then Some (span_or dflt v) else None)"
    and "span_valid v \<Longrightarrow> snd (span_setting dflt v e) = e"
proof -
  have "fst (span_setting dflt v e) = (if span_valid v then Some (span_or dflt v) else None) \<and>
      (span_valid v \<longrightarrow> snd (span_setting dflt v e) = e)"
  proof (cases v)
    case (Some s)
    then show ?thesis
      using timespan_errno [OF assms, of s]
      by (cases "timespan_from_str e s") (auto simp: span_setting_def span_valid_def span_or_def)
  qed (simp add: span_setting_def span_valid_def span_or_def)
  then show "fst (span_setting dflt v e) = (if span_valid v then Some (span_or dflt v) else None)"
      "span_valid v \<Longrightarrow> snd (span_setting dflt v e) = e" by simp_all
qed

text \<open>Rules for the steps of \<open>settings_from_values\<close>, with \<open>r\<close> the first component of the result.\<close>

lemma step_get:
  "e0 \<noteq> ERANGE \<Longrightarrow> (\<And>e. e \<noteq> ERANGE \<Longrightarrow> fst (f (get sec key) e) = r) \<Longrightarrow>
    fst (case get_value get sec key e0 of (v, e) \<Rightarrow> f v e) = r"
  by (cases "get sec key") (simp_all add: get_value_def)

lemma step_word:
  "(word_valid names v \<Longrightarrow> fst (f (word_or names dflt v)) = r) \<Longrightarrow> (\<not> word_valid names v \<Longrightarrow> r = None) \<Longrightarrow>
    fst (case word_setting names dflt v of None \<Rightarrow> (None, e) | Some x \<Rightarrow> f x) = r"
  by (simp add: word_setting_eq)

lemma step_span:
  assumes "e0 \<noteq> ERANGE" and "\<And>e. e \<noteq> ERANGE \<Longrightarrow> span_valid v \<Longrightarrow> fst (f (span_or dflt v) e) = r"
    and "\<not> span_valid v \<Longrightarrow> r = None"
  shows "fst (case span_setting dflt v e0 of (None, e) \<Rightarrow> (None, e) | (Some x, e) \<Rightarrow> f x e) = r"
  using span_setting_eq(1) [OF assms(1), of dflt v] span_setting_eq(2) [OF assms(1), of v dflt] assms
  by (cases "span_setting dflt v e0") (auto split: if_splits)

lemma step_burst:
  assumes "\<And>e x. fst (burst_setting v EOK) = Some x \<Longrightarrow> fst (f x e) = r" and "fst (burst_setting v EOK) = None \<Longrightarrow> r = None"
  shows "fst (case burst_setting v e0 of (None, e) \<Rightarrow> (None, e) | (Some x, e) \<Rightarrow> f x e) = r"
proof -
  have "fst (burst_setting v e0) = fst (burst_setting v EOK)" by (simp add: burst_setting_def split: option.split)
  then show ?thesis using assms by (cases "burst_setting v e0") (auto split: option.splits)
qed

lemma settings_from_values_eq:
  assumes "hash_table Hd" and "e \<noteq> ERANGE"
  shows "fst (settings_from_values Hd get e) = (if settings_valid get then Some (settings_of get) else None)"
proof -
  have req: "remove_required Hd req should = filter (\<lambda>d. d \<notin> set req) should" for req should
    by (rule name_table.remove_required_eq [OF name_table.intro [OF assms(1)]])
  have delay: "fst (case if p then case get_value get sec key e of (x, y) \<Rightarrow> span_setting dflt x y else (Some 0, e) of
        (None, e) \<Rightarrow> (None, e) | (Some x, e) \<Rightarrow> f x e) = r"
    if "e \<noteq> ERANGE" "\<And>e. e \<noteq> ERANGE \<Longrightarrow> p \<Longrightarrow> span_valid (get sec key) \<Longrightarrow> fst (f (span_or dflt (get sec key)) e) = r"
      "p \<Longrightarrow> \<not> span_valid (get sec key) \<Longrightarrow> r = None" "\<And>e. e \<noteq> ERANGE \<Longrightarrow> \<not> p \<Longrightarrow> fst (f 0 e) = r"
    for p sec key dflt f e and r :: "settings option"
    using that step_span [of _ "get sec key" f dflt r] by (auto simp: get_value_def split: option.splits)
  show ?thesis
    unfolding settings_from_values_def Let_def
    by (intro step_get step_word step_span step_burst delay assms)
      (simp_all add: settings_valid_def settings_of_def restarts_def req Let_def
        DEFAULT_STOP_TIMEOUT_US_def DEFAULT_RESTART_DELAY_US_def DEFAULT_START_LIMIT_INTERVAL_US_def)
qed

lemma c_int_small: "0 \<le> n \<Longrightarrow> n < 2 ^ 31 \<Longrightarrow> c_int n = n"
  by (simp add: c_int_def sint_sbintrunc' signed_take_bit_int_eq_self)

lemma convert_outcome:
  assumes "\<And>xs. fc_mkstemp fc = Some xs \<Longrightarrow> fs (path @ ''.'' @ xs) = None"
    and "\<And>t. service_to_string Hs Hp self svc = Some t \<Longrightarrow> length t < 2 ^ 31"
    and run: "service_convert Hs Hp self fc fs out svc (Some path) = (code, fs', printed)"
  shows "code = EXIT_SUCCESS \<and>
      (\<exists>t. service_to_string Hs Hp self svc = Some t \<and> fs' = fs(path \<mapsto> (t, 0x1ED AND NOT (fc_umask fc)))) \<or>
    code = EXIT_FAILURE \<and> fs' = fs"
proof (cases "service_to_byte_array Hs Hp self svc None")
  case None
  then show ?thesis using run by (auto simp: service_convert_def write_output_def)
next
  case (Some ba)
  let ?t = "ba_data ba"
  have str: "service_to_string Hs Hp self svc = Some ?t"
    using Some by (simp add: service_to_string_def service_to_byte_array_def)
  then have "c_int (int (length ?t)) = int (length ?t)"
    using assms(2) by (simp add: c_int_small)
  moreover have "fs(path @ CHR ''.'' # xs := None) = fs" if "fc_mkstemp fc = Some xs" for xs
    using assms(1) [OF that] by auto
  ultimately show ?thesis
    using run Some str
    by (auto simp: service_convert_def write_output_def byte_array_to_file_def Let_def EXIT_SUCCESS_def
        EXIT_FAILURE_def fun_upd_twist split: option.splits if_splits prod.splits)
qed

lemma convert_installs:
  assumes "fc_mkstemp fc = Some xs" and "fs (path @ ''.'' @ xs) = None"
    and "service_to_string Hs Hp self svc = Some t" and "length t < 2 ^ 31"
    and "service_convert Hs Hp self fc fs out svc (Some path) = (EXIT_SUCCESS, fs', printed)"
  shows "fs' path = Some (t, 0x1ED AND NOT (fc_umask fc))"
  using convert_outcome [OF _ _ assms(5)] assms(1-4) by (auto simp: EXIT_SUCCESS_def EXIT_FAILURE_def)

section \<open>Properties of services\<close>

lemma unit_file_service:
  assumes "hash_table Hd" and "e \<noteq> ERANGE"
    and "systemd_parse_unit_file Hs Hp name buf txt = Defined (Inr u)"
    and get: "get = unit_get_value Hs Hp u"
  shows "\<exists>e'. service_from_unit_file Hs Hp Hd name buf txt e =
    Defined (if settings_valid get
       then Some \<lparr> svc_name = snd (deservicify name), svc_unit = u, svc_settings = settings_of get \<rparr>
       else None, e')"
  using settings_from_values_eq [OF assms(1,2), of get] assms(3)
  by (cases "settings_from_values Hd get e")
    (auto simp: service_from_unit_file_def service_create_def get split: if_splits)

text \<open>
  C31. A unit file that has been parsed makes a service exactly if its settings are valid: a known start-up
  type, kill mode and restart policy, time spans that can be read (the restart delay only if there is a
  restart policy) and a number as start limit. Settings that are not there have their defaults. The
  required services are the words of \<^verbatim>\<open>Requires\<close> that name services, in their order, and the services that
  should be started before are those of \<^verbatim>\<open>After\<close> that are not required.
\<close>

theorem service_settings:
  assumes "hash_table Hd" and "e \<noteq> ERANGE"
    and "systemd_parse_unit_file Hs Hp name buf txt = Defined (Inr u)"
    and get: "get = unit_get_value Hs Hp u"
  shows "\<exists>e'. service_from_unit_file Hs Hp Hd name buf txt e =
    Defined (if settings_valid get
       then Some \<lparr> svc_name = snd (deservicify name), svc_unit = u, svc_settings = settings_of get \<rparr>
       else None, e')"
  by (rule unit_file_service [OF assms])

theorem service_settings_witness:
  "\<exists>svc e'. service_from_unit_file alist_ops alist_ops alist_ops ''x.service'' (''[Service]'' @ [NL] @ ''Restart=always'' @ [NL, NUL])
      (text_create 0 (length (''[Service]'' @ [NL] @ ''Restart=always'' @ [NL]))) EOK = Defined (Some svc, e') \<and> svc_name svc = ''x'' \<and>
      restart_policy (svc_settings svc) = RP_ALWAYS \<and> restart_delay (svc_settings svc) = 100000"
proof -
  obtain u where u: "systemd_parse_unit_file alist_ops alist_ops ''x.service''
        (''[Service]'' @ [NL] @ ''Restart=always'' @ [NL, NUL]) (text_create 0 (length (''[Service]'' @ [NL] @ ''Restart=always'' @ [NL]))) = Defined (Inr u)"
      and get: "unit_get_value alist_ops alist_ops u = kv_updates (\<lambda>s k. None) [(''Service'', ''Restart'', ''always'', True)]"
    using unit_tables.parse_document [OF unit_tablesI [OF alist_table.hash_table_axioms alist_table.hash_table_axioms],
        of "[Header ''Service'', Assign ''Restart'' [] [] ''always'' []]"
          "''[Service]'' @ [NL] @ ''Restart=always'' @ [NL]" "''x.service''" "[]" "[NUL]"]
    by (auto simp: text_create_def value_text_def unlines_def value_ok_def cont_ok_def value_logical_def
        issectionname_def iskey_def isvalue_def ctype_simps Let_def simp del: kv_updates.simps)
  show ?thesis
    using service_settings [OF alist_table.hash_table_axioms _ u refl, of EOK]
    by (auto simp: get kv_update_def settings_valid_def settings_of_def word_valid_def word_or_def span_valid_def
        span_or_def restarts_def burst_setting_def restart_policy_names_def TS_MSEC_def TS_USEC_def deservicify_def
        ends_with_def DOT_SERVICE_def Let_def)
qed



end
