(* ===== verification/Sysvinit.thy ===== *)
theory Sysvinit
  imports Service
begin

text \<open>
  \<^verbatim>\<open>src/sysvrun/sysvinit.c\<close> and the functions of \<^verbatim>\<open>service.c\<close> that read a service from a file: init
  scripts with an embedded unit file, and the search for a service by its name.
\<close>

section \<open>Init scripts\<close>

text \<open>
  \<^verbatim>\<open>sysvinit_parse_init_script\<close> on the text \<open>txt\<close> of the buffer \<open>buf\<close>. The comparison of the facility with
  the name ends where the name ends, which \<open>match\<close> reports with an empty rest. A null pointer from
  \<^verbatim>\<open>text_narrow\<close> would be dereferenced.
\<close>

definition sysvinit_parse_init_script ::
  "('p, 's) section_ops \<Rightarrow> 'p pair_ops \<Rightarrow> (string, string, 'd) hash_ops \<Rightarrow> string \<Rightarrow> string \<Rightarrow> text_range \<Rightarrow> errno \<Rightarrow>
   ('s service option \<times> errno) outcome" where
  "sysvinit_parse_init_script Hs Hp Hd name buf txt e =
     (case text_first_line_equals buf txt LSB_BEGIN_INIT_INFO 0 of None \<Rightarrow> Defined (None, EINVAL) | Some line \<Rightarrow>
      case text_next_line_prefix buf txt line LSB_PROVIDES 0 of None \<Rightarrow> Defined (None, EINVAL) | Some line \<Rightarrow>
      let p = scan isblank buf (txt_end line) (txt_beg line + length LSB_PROVIDES);
          (q, s) = match buf (txt_end line) p name
      in if s \<noteq> [] \<or> \<not> (q = txt_end line \<or> isblank (buf ! q)) then Defined (None, ENOENT)
         else
           case text_next_line_equals buf txt line LSB_END_INIT_INFO 0 of None \<Rightarrow> Defined (None, EINVAL) | Some line \<Rightarrow>
           case text_next_line_equals buf txt line BEGIN_EMBED 0 of None \<Rightarrow> Defined (None, ENOENT) | Some line \<Rightarrow>
           let p = txt_end line + 1 in
           case text_next_line_equals buf txt line END_EMBED 0 of None \<Rightarrow> Defined (None, EINVAL) | Some line \<Rightarrow>
           let q = txt_beg line in
           case text_narrow txt p (q - p) of None \<Rightarrow> UB | Some emb \<Rightarrow>
           service_from_unit_file Hs Hp Hd name buf emb e)"

definition service_from_init_script ::
  "('p, 's) section_ops \<Rightarrow> 'p pair_ops \<Rightarrow> (string, string, 'd) hash_ops \<Rightarrow> string \<Rightarrow> string \<Rightarrow> text_range \<Rightarrow> errno \<Rightarrow>
   ('s service option \<times> errno) outcome" where
  "service_from_init_script Hs Hp Hd name buf txt e = sysvinit_parse_init_script Hs Hp Hd name buf txt e"

text \<open>
  \<^verbatim>\<open>service_from_file\<close>; \<open>file\<close> is the result of \<^verbatim>\<open>text_from_file\<close>, an error number or the buffer and the
  text.
\<close>

definition service_from_file ::
  "('p, 's) section_ops \<Rightarrow> 'p pair_ops \<Rightarrow> (string, string, 'd) hash_ops \<Rightarrow> (string \<Rightarrow> errno + string \<times> text_range) \<Rightarrow>
   string \<Rightarrow> string \<Rightarrow> errno \<Rightarrow> ('s service option \<times> errno) outcome" where
  "service_from_file Hs Hp Hd file name path e =
     (case file path of
        Inl e' \<Rightarrow> Defined (None, e')
      | Inr (buf, txt) \<Rightarrow>
          if txt_len txt > 3 \<and> buf ! txt_beg txt = CHR ''#'' \<and> buf ! (txt_beg txt + 1) = CHR ''!''
          then service_from_init_script Hs Hp Hd name buf txt e
          else service_from_unit_file Hs Hp Hd name buf txt e)"

section \<open>Finding a service\<close>

definition sysvinit_script_path :: "string list" where
  "sysvinit_script_path = [''/etc/init.d'', ''.'']"

definition sysvinit_find_path :: "(string \<Rightarrow> errno) \<Rightarrow> string \<Rightarrow> string \<Rightarrow> errno + string" where
  "sysvinit_find_path stat root name = unit_path_loop stat root name [] sysvinit_script_path"

text \<open>
  Both searches end by reading the file that was found. A failed \<^verbatim>\<open>stat\<close> leaves its error in
  \<^verbatim>\<open>errno\<close>, which a file with a syntax error does not overwrite.
\<close>

definition last_errno :: "(string \<Rightarrow> errno) \<Rightarrow> string list \<Rightarrow> string \<Rightarrow> errno \<Rightarrow> errno" where
  "last_errno stat paths path e =
     (let before = takeWhile (\<lambda>p. p \<noteq> path) paths in if before = [] then e else stat (last before))"

definition load_found ::
  "('p, 's) section_ops \<Rightarrow> 'p pair_ops \<Rightarrow> (string, string, 'd) hash_ops \<Rightarrow> (string \<Rightarrow> errno) \<Rightarrow>
   (string \<Rightarrow> errno + string \<times> text_range) \<Rightarrow> string \<Rightarrow> string list \<Rightarrow> errno + string \<Rightarrow> errno \<Rightarrow>
   ('s service option \<times> errno) outcome" where
  "load_found Hs Hp Hd stat file name paths found e =
     (case found of
        Inl e' \<Rightarrow> Defined (None, e')
      | Inr path \<Rightarrow> service_from_file Hs Hp Hd file name path (last_errno stat paths path e))"

definition systemd_load_service ::
  "('p, 's) section_ops \<Rightarrow> 'p pair_ops \<Rightarrow> (string, string, 'd) hash_ops \<Rightarrow> (string \<Rightarrow> errno) \<Rightarrow>
   (string \<Rightarrow> errno + string \<times> text_range) \<Rightarrow> string \<Rightarrow> string \<Rightarrow> errno \<Rightarrow> ('s service option \<times> errno) outcome" where
  "systemd_load_service Hs Hp Hd stat file root name e =
     load_found Hs Hp Hd stat file name
       (map (\<lambda>d. root @ d @ ''/'' @ name @ (if ends_with name DOT_SERVICE then [] else DOT_SERVICE)) systemd_unit_path)
       (systemd_find_service stat root name) e"

definition sysvinit_find_service ::
  "('p, 's) section_ops \<Rightarrow> 'p pair_ops \<Rightarrow> (string, string, 'd) hash_ops \<Rightarrow> (string \<Rightarrow> errno) \<Rightarrow>
   (string \<Rightarrow> errno + string \<times> text_range) \<Rightarrow> string \<Rightarrow> string \<Rightarrow> errno \<Rightarrow> ('s service option \<times> errno) outcome" where
  "sysvinit_find_service Hs Hp Hd stat file root name e =
     load_found Hs Hp Hd stat file name (map (\<lambda>d. root @ d @ ''/'' @ name) sysvinit_script_path)
       (sysvinit_find_path stat root name) e"

text \<open>\<^verbatim>\<open>service_find\<close>: a unit file first, an init script if there is none or it cannot be read.\<close>

definition service_find ::
  "('p, 's) section_ops \<Rightarrow> 'p pair_ops \<Rightarrow> (string, string, 'd) hash_ops \<Rightarrow> (string \<Rightarrow> errno) \<Rightarrow>
   (string \<Rightarrow> errno + string \<times> text_range) \<Rightarrow> string \<Rightarrow> string \<Rightarrow> errno \<Rightarrow> ('s service option \<times> errno) outcome" where
  "service_find Hs Hp Hd stat file root name e =
     (case systemd_load_service Hs Hp Hd stat file root name e of
        UB \<Rightarrow> UB
      | Defined (Some svc, e') \<Rightarrow> Defined (Some svc, e')
      | Defined (None, e') \<Rightarrow> sysvinit_find_service Hs Hp Hd stat file root name e')"

section \<open>Scripts as lines\<close>

text \<open>The lines of the script that \<^verbatim>\<open>service_to_byte_array\<close> writes.\<close>

definition depends_line :: "string \<Rightarrow> string list \<Rightarrow> string list" where
  "depends_line head deps =
     (if deps = [] then [] else [''# '' @ pad 21 head @ concat (map (\<lambda>d. '' '' @ d) deps)])"

definition info_lines :: "('p, 's) section_ops \<Rightarrow> 'p pair_ops \<Rightarrow> 's service \<Rightarrow> string list" where
  "info_lines Hs Hp svc =
     depends_line ''Required-Start:'' (svc_required (svc_settings svc)) @
     depends_line ''Should-Start:'' (svc_should (svc_settings svc)) @
     [''# '' @ pad 22 ''Default-Start:'' @ ''2 3 4 5''] @
     (case unit_get_value Hs Hp (svc_unit svc) ''Unit'' ''Description'' of
        None \<Rightarrow> [] | Some d \<Rightarrow> [''# '' @ pad 22 ''Short-Description'' @ d])"

definition exec_line :: "string \<Rightarrow> 's service \<Rightarrow> string" where
  "exec_line self svc =
     ''exec '' @ self @ '' -u '' @ [CHR 0x22] @ ''$0'' @ [CHR 0x22] @ '' '' @ svc_name svc @ '' '' @
       [CHR 0x22] @ ''$@'' @ [CHR 0x22]"

lemma depends_parts_line: "concat (depends_parts head deps) = unlines (depends_line head deps)"
proof -
  have "(@) [SPACE] = (#) SPACE" by auto
  then show ?thesis by (simp add: depends_parts_def depends_line_def)
qed

lemma service_parts_lines:
  "concat (service_parts Hs Hp self svc) =
    unlines ([''#!/bin/sh'', [], LSB_BEGIN_INIT_INFO, ''# '' @ pad 22 ''Provides:'' @ svc_name svc] @
      info_lines Hs Hp svc @ [LSB_END_INIT_INFO, [], exec_line self svc, [], BEGIN_EMBED]) @
    concat (unit_lines Hs Hp (svc_unit svc)) @ unlines [END_EMBED]"
  by (simp add: service_parts_def info_lines_def exec_line_def depends_parts_line split: option.split)

text \<open>The range of the line \<open>l\<close> behind the lines \<open>xs\<close>, and searches in a text given by its lines.\<close>

definition line_at :: "string list \<Rightarrow> string \<Rightarrow> text_range" where
  "line_at xs l = range_text (length (unlines xs)) (length (unlines xs) + length l)"

abbreviation whole :: "string list \<Rightarrow> text_range" where
  "whole ls \<equiv> text_create 0 (length (unlines ls))"

definition clean :: "string \<Rightarrow> bool" where
  "clean l \<longleftrightarrow> NL \<notin> set l \<and> NUL \<notin> set l"

lemma segment_unlines:
  "segment (unlines (xs @ ys) @ post) (length (unlines xs)) (length (unlines (xs @ ys))) = unlines ys"
  by (simp add: segment_def)

lemma find_line_at:
  assumes "\<forall>l \<in> set (as @ [m]). clean l" and "\<forall>a \<in> set as. \<not> Q a" and "Q m"
    and ls: "ls = xs @ as @ m # bs"
  shows "List.find (\<lambda>(b, q). Q (segment (unlines ls @ post) b q))
      (line_ranges (unlines ls @ post) (length (unlines ls)) (length (unlines xs))) =
    Some (length (unlines (xs @ as)), length (unlines (xs @ as)) + length m)"
proof -
  have seg: "segment (unlines ls @ post) (length (unlines xs)) (length (unlines ls)) = unlines (as @ m # bs)"
    using segment_unlines [of xs "as @ m # bs" post] ls by simp
  show ?thesis
    using find_line [OF _ seg, where Q = Q] assms by (auto simp: clean_def)
qed

lemma nth_line_end: "(unlines (xs @ l # ys) @ post) ! (length (unlines xs) + length l) = NL"
  by (simp add: nth_append)

lemma first_equals_at:
  assumes "\<forall>l \<in> set (as @ [m]). clean l" and "m \<notin> set as" and ls: "ls = as @ m # bs"
  shows "text_first_line_equals (unlines ls @ post) (whole ls) m 0 = Some (line_at as m)"
proof -
  have "List.find (\<lambda>(b, q). segment (unlines ls @ post) b q = m)
      (line_ranges (unlines ls @ post) (length (unlines ls)) (length (unlines []))) =
    Some (length (unlines as), length (unlines as) + length m)"
    using find_line_at [of as m "\<lambda>l. l = m" ls "[]" bs post] assms by auto
  then have "equals_loop (unlines ls @ post) (length (unlines ls)) 0 m =
      Some (length (unlines as), length (unlines as) + length m)"
    using equals_loop_find [of "length (unlines ls)" "unlines ls @ post" m 0] assms(1) by (simp add: clean_def)
  then show ?thesis
    using ls by (simp add: text_first_line_equals_def text_create_def pattern_def text_narrow_def line_at_def)
qed

lemma next_equals_at:
  assumes "\<forall>l \<in> set (as @ [m]). clean l" and "m \<notin> set as" and ls: "ls = xs @ l # as @ m # bs"
  shows "text_next_line_equals (unlines ls @ post) (whole ls) (line_at xs l) m 0 = Some (line_at (xs @ l # as) m)"
proof -
  let ?buf = "unlines ls @ post"
  have "List.find (\<lambda>(b, q). segment ?buf b q = m) (line_ranges ?buf (length (unlines ls)) (length (unlines (xs @ [l])))) =
    Some (length (unlines (xs @ l # as)), length (unlines (xs @ l # as)) + length m)"
    using find_line_at [of as m "\<lambda>l. l = m" ls "xs @ [l]" bs post] assms by auto
  then have "equals_loop ?buf (length (unlines ls)) (length (unlines xs) + length l + 1) m =
      Some (length (unlines (xs @ l # as)), length (unlines (xs @ l # as)) + length m)"
    using equals_loop_find [of "length (unlines ls)" ?buf m] assms(1) by (simp add: clean_def)
  then show ?thesis
    using ls nth_line_end [of xs l "as @ m # bs" post]
    by (simp add: text_next_line_equals_def text_create_def pattern_def line_at_def Let_def)
qed

lemma next_prefix_at:
  assumes "\<forall>l \<in> set (as @ [m]). clean l" and "\<forall>a \<in> set as. \<not> prefix pat a" and "prefix pat m"
    and ls: "ls = xs @ l # as @ m # bs"
  shows "text_next_line_prefix (unlines ls @ post) (whole ls) (line_at xs l) pat 0 = Some (line_at (xs @ l # as) m)"
proof -
  let ?buf = "unlines ls @ post"
  have nl: "NL \<notin> set pat" using assms(1,3) by (auto simp: clean_def dest: set_mono_prefix)
  have "List.find (\<lambda>(b, q). prefix pat (segment ?buf b q)) (line_ranges ?buf (length (unlines ls)) (length (unlines (xs @ [l])))) =
    Some (length (unlines (xs @ l # as)), length (unlines (xs @ l # as)) + length m)"
    using find_line_at [of as m "prefix pat" ls "xs @ [l]" bs post] assms by auto
  then have "prefix_loop ?buf (length (unlines ls)) (length (unlines xs) + length l + 1) pat =
      Some (length (unlines (xs @ l # as)), length (unlines (xs @ l # as)) + length m)"
    using prefix_loop_find [of "length (unlines ls)" ?buf pat] nl by simp
  then show ?thesis
    using ls nth_line_end [of xs l "as @ m # bs" post]
    by (simp add: text_next_line_prefix_def text_create_def pattern_def line_at_def Let_def)
qed

lemma segment_line_at:
  "segment (unlines (xs @ l # ys) @ post) (txt_beg (line_at xs l)) (txt_end (line_at xs l)) = l"
  by (simp add: segment_def line_at_def)

lemma pad_nonempty: "length s \<le> n \<Longrightarrow> pad n s = s @ replicate (n - length s) SPACE"
  by (simp add: pad_def)

text \<open>The facility named in the \<^verbatim>\<open>Provides\<close> line is compared as a whole.\<close>

lemma provides_match:
  assumes name: "name \<noteq> []" "\<forall>c \<in> set name. \<not> isblank c" "clean name"
    and prov: "prov = ''# '' @ pad 22 ''Provides:'' @ name" and ls: "ls = xs @ prov # ys"
  shows "match (unlines ls @ post) (txt_end (line_at xs prov))
      (scan isblank (unlines ls @ post) (txt_end (line_at xs prov)) (txt_beg (line_at xs prov) + length LSB_PROVIDES))
      name = (txt_end (line_at xs prov), [])"
proof -
  let ?buf = "unlines ls @ post" and ?b = "txt_beg (line_at xs prov)" and ?e = "txt_end (line_at xs prov)"
  have e: "?e \<le> length ?buf" "?b \<le> ?e" using ls by (simp_all add: line_at_def)
  have "segment ?buf ?b ?e = LSB_PROVIDES @ replicate 13 SPACE @ name"
    using segment_line_at [of xs prov ys post] ls
    by (simp add: prov LSB_PROVIDES_def pad_def numeral_eq_Suc)
  note s1 = segment_append [OF e(1) this e(2)]
  have "scan isblank ?buf ?e (?b + length LSB_PROVIDES) = ?b + length LSB_PROVIDES + length (replicate 13 SPACE)"
    by (rule scan_segment [OF e(1) s1(2,3)]) (use name in \<open>auto simp: isblank_def\<close>)
  moreover note s2 = segment_append [OF e(1) s1(2,3)]
  ultimately show ?thesis
    using match_segment [OF e(1) s2(2,3)] name(3) by (simp add: clean_def)
qed

text \<open>A script whose lines are those of a service is read down to its embedded unit file.\<close>

lemma parse_script:
  assumes name: "name \<noteq> []" "\<forall>c \<in> set name. \<not> isblank c" "clean name"
    and info: "\<forall>l \<in> set info. clean l \<and> l \<noteq> LSB_END_INIT_INFO"
    and exe: "clean exe" "exe \<noteq> BEGIN_EMBED"
    and body: "\<forall>l \<in> set body. clean l \<and> l \<noteq> END_EMBED"
    and prov: "prov = ''# '' @ pad 22 ''Provides:'' @ name"
    and ls: "ls = [''#!/bin/sh'', [], LSB_BEGIN_INIT_INFO, prov] @ info @
      [LSB_END_INIT_INFO, [], exe, [], BEGIN_EMBED] @ body @ [END_EMBED]"
  shows "sysvinit_parse_init_script Hs Hp Hd name (unlines ls @ [NUL]) (whole ls) e =
    service_from_unit_file Hs Hp Hd name (unlines ls @ [NUL])
      (text_create (length (unlines ls) - length (unlines [END_EMBED]) - length (unlines body)) (length (unlines body))) e"
proof -
  let ?buf = "unlines ls @ [NUL]"
  note keys = LSB_BEGIN_INIT_INFO_def LSB_END_INIT_INFO_def LSB_PROVIDES_def BEGIN_EMBED_def END_EMBED_def
  define x1 where "x1 = [''#!/bin/sh'', []]"
  define x2 where "x2 = x1 @ LSB_BEGIN_INIT_INFO # []"
  define x3 where "x3 = x2 @ prov # info"
  define x4 where "x4 = x3 @ LSB_END_INIT_INFO # [[], exe, []]"
  define x5 where "x5 = x4 @ BEGIN_EMBED # body"
  note xs = x1_def x2_def x3_def x4_def x5_def
  have keys_clean: "clean LSB_BEGIN_INIT_INFO" "clean LSB_END_INIT_INFO" "clean BEGIN_EMBED" "clean END_EMBED"
    by (simp_all add: clean_def keys)
  have cl: "clean prov" using name(3) prov by (auto simp: clean_def pad_def)
  have "prefix LSB_PROVIDES prov" by (simp add: prov keys pad_def)
  have 1: "text_first_line_equals ?buf (whole ls) LSB_BEGIN_INIT_INFO 0 = Some (line_at x1 LSB_BEGIN_INIT_INFO)"
    by (rule first_equals_at [of _ _ _ "prov # info @ [LSB_END_INIT_INFO, [], exe, [], BEGIN_EMBED] @ body @ [END_EMBED]"])
      (use ls in \<open>auto simp: xs clean_def keys\<close>)
  have 2: "text_next_line_prefix ?buf (whole ls) (line_at x1 LSB_BEGIN_INIT_INFO) LSB_PROVIDES 0 = Some (line_at x2 prov)"
    unfolding x2_def
    by (rule next_prefix_at [of _ _ _ _ _ _ "info @ [LSB_END_INIT_INFO, [], exe, [], BEGIN_EMBED] @ body @ [END_EMBED]"])
      (use ls cl \<open>prefix LSB_PROVIDES prov\<close> in \<open>auto simp: xs\<close>)
  have 3: "text_next_line_equals ?buf (whole ls) (line_at x2 prov) LSB_END_INIT_INFO 0 = Some (line_at x3 LSB_END_INIT_INFO)"
    unfolding x3_def
    by (rule next_equals_at [of _ _ _ _ _ "[[], exe, [], BEGIN_EMBED] @ body @ [END_EMBED]"])
      (use ls info keys_clean in \<open>auto simp: xs\<close>)
  have 4: "text_next_line_equals ?buf (whole ls) (line_at x3 LSB_END_INIT_INFO) BEGIN_EMBED 0 = Some (line_at x4 BEGIN_EMBED)"
    unfolding x4_def
    by (rule next_equals_at [of _ _ _ _ _ "body @ [END_EMBED]"])
      (use ls exe keys_clean in \<open>auto simp: xs clean_def BEGIN_EMBED_def\<close>)
  have 5: "text_next_line_equals ?buf (whole ls) (line_at x4 BEGIN_EMBED) END_EMBED 0 = Some (line_at x5 END_EMBED)"
    unfolding x5_def by (rule next_equals_at [of _ _ _ _ _ "[]"]) (use ls body keys_clean in \<open>auto simp: xs\<close>)
  have 6: "match ?buf (txt_end (line_at x2 prov))
      (scan isblank ?buf (txt_end (line_at x2 prov)) (txt_beg (line_at x2 prov) + length LSB_PROVIDES)) name =
      (txt_end (line_at x2 prov), [])"
    by (rule provides_match [OF name prov]) (use ls in \<open>auto simp: xs\<close>)
  have ls5: "ls = x5 @ [END_EMBED]" using ls by (simp add: xs)
  have "text_narrow (whole ls) (txt_end (line_at x4 BEGIN_EMBED) + 1)
      (txt_beg (line_at x5 END_EMBED) - (txt_end (line_at x4 BEGIN_EMBED) + 1)) =
      Some (text_create (length (unlines ls) - length (unlines [END_EMBED]) - length (unlines body)) (length (unlines body)))"
    unfolding ls5 x5_def by (simp add: text_narrow_def text_create_def line_at_def)
  then show ?thesis
    by (simp add: sysvinit_parse_init_script_def 1 2 3 4 5 6)
qed

section \<open>Reading back a converted service\<close>

definition svc_printable :: "('p, 's) section_ops \<Rightarrow> 'p pair_ops \<Rightarrow> string \<Rightarrow> 's service \<Rightarrow> bool" where
  "svc_printable Hs Hp self svc \<longleftrightarrow>
     unit_printable Hs Hp (svc_unit svc) \<and>
     svc_name svc \<noteq> [] \<and> (\<forall>c \<in> set (svc_name svc). \<not> isblank c) \<and> clean (svc_name svc) \<and>
     \<not> ends_with (svc_name svc) DOT_SERVICE \<and> clean self \<and>
     (\<forall>d \<in> set (svc_required (svc_settings svc) @ svc_should (svc_settings svc)). clean d) \<and>
     length (concat (service_parts Hs Hp self svc)) \<le> SIZE_MAX"

lemma clean_append [simp]: "clean (a @ b) \<longleftrightarrow> clean a \<and> clean b"
  by (auto simp: clean_def)

lemma clean_Cons [simp]: "clean (c # b) \<longleftrightarrow> c \<noteq> NL \<and> c \<noteq> NUL \<and> clean b"
  by (auto simp: clean_def)

lemma clean_Nil [simp]: "clean []"
  by (simp add: clean_def)

lemma clean_concat: "clean (concat xs) \<longleftrightarrow> (\<forall>x \<in> set xs. clean x)"
  by (induction xs) auto

lemma clean_all: "\<forall>c \<in> set s. P c \<Longrightarrow> \<not> P NL \<Longrightarrow> \<not> P NUL \<Longrightarrow> clean s"
  by (auto simp: clean_def)

lemma clean_chars:
  "\<forall>c \<in> set s. issectionname c \<Longrightarrow> clean s"
  "\<forall>c \<in> set s. iskey c \<Longrightarrow> clean s"
  "\<forall>c \<in> set s. isvalue c \<Longrightarrow> clean s"
  by (erule clean_all; code_simp)+

lemma pad_clean: "clean s \<Longrightarrow> clean (pad n s)"
  by (auto simp: pad_def clean_def)

context unit_tables
begin

lemma unit_body:
  assumes "unit_wf Hs Hp u" and "unit_printable Hs Hp u"
  shows "concat (unit_lines Hs Hp u) = unlines (map butlast (unit_lines Hs Hp u))"
    and "\<forall>l \<in> set (map butlast (unit_lines Hs Hp u)). clean l \<and> l \<noteq> END_EMBED"
proof -
  have "\<forall>l \<in> set (unit_lines Hs Hp u). l = butlast l @ [NL]"
    by (auto simp: unit_lines_def section_lines_def butlast_append)
  then have "map (\<lambda>l. butlast l @ [NL]) (unit_lines Hs Hp u) = unit_lines Hs Hp u" by (simp add: map_idI)
  then show "concat (unit_lines Hs Hp u) = unlines (map butlast (unit_lines Hs Hp u))"
    by (simp add: unlines_def comp_def)
  show "\<forall>l \<in> set (map butlast (unit_lines Hs Hp u)). clean l \<and> l \<noteq> END_EMBED"
  proof
    fix l assume "l \<in> set (map butlast (unit_lines Hs Hp u))"
    then obtain n s where ns: "(n, s) \<in> set (ht_elems Hs (unit_sections u))"
        and l: "l \<in> set (map butlast (section_lines Hp s))" by (auto simp: unit_lines_def)
    then have s: "section_name s = n" "line_ok (Header n)"
        "\<forall>x \<in> set (ht_elems Hp (section_pairs s)). pair_printable x"
      using assms by (auto simp: unit_wf_def unit_printable_def)
    show "clean l \<and> l \<noteq> END_EMBED"
    proof (cases "l = ''['' @ n @ '']''")
      case True
      then show ?thesis using s(2) clean_chars(1) [of n] by (simp add: END_EMBED_def)
    next
      case False
      with l s(1) obtain k p where kp: "(k, p) \<in> set (ht_elems Hp (section_pairs s))"
          and lp: "l = pair_key p @ ''='' @ pair_value p"
        by (auto simp: section_lines_def butlast_append)
      from kp s(3) have "pair_printable (k, p)" by blast
      then have "clean (pair_key p)" "clean (pair_value p)"
        using clean_chars(2,3) by (auto simp: pair_printable_def pair_line_def value_ok_def)
      moreover have "CHR ''='' \<in> set l" using lp by simp
      then have "l \<noteq> END_EMBED" by (auto simp: END_EMBED_def)
      ultimately show ?thesis using lp by simp
    qed
  qed
qed

lemma value_clean:
  assumes "unit_printable Hs Hp u" and "unit_get_value Hs Hp u sec key = Some v"
  shows "clean v"
proof -
  from assms(2) obtain s p where "ht_get Hs (unit_sections u) sec = Some s"
      "ht_get Hp (section_pairs s) key = Some p" and v: "v = pair_value p"
    by (auto simp: unit_get_value_def split: option.splits)
  then have "(sec, s) \<in> set (ht_elems Hs (unit_sections u))" "(key, p) \<in> set (ht_elems Hp (section_pairs s))"
    by (simp_all add: s.elems_get p.elems_get)
  then have "pair_printable (key, p)" using assms(1) unfolding unit_printable_def by fast
  then show ?thesis using clean_chars(3) v by (auto simp: pair_printable_def pair_line_def value_ok_def)
qed

lemma info_lines_clean:
  assumes "svc_printable Hs Hp self svc"
  shows "\<forall>l \<in> set (info_lines Hs Hp svc). clean l \<and> l \<noteq> LSB_END_INIT_INFO"
proof -
  have "\<forall>d. unit_get_value Hs Hp (svc_unit svc) ''Unit'' ''Description'' = Some d \<longrightarrow> clean d"
    using assms value_clean by (auto simp: svc_printable_def)
  moreover have "clean (pad 21 ''Required-Start:'')" "clean (pad 21 ''Should-Start:'')"
      "clean (pad 22 ''Default-Start:'')" "clean (pad 22 ''Short-Description'')"
    by (rule pad_clean, simp)+
  moreover have "\<forall>d \<in> set (svc_required (svc_settings svc)) \<union> set (svc_should (svc_settings svc)). clean d"
    using assms by (auto simp: svc_printable_def)
  ultimately have form: "\<exists>r. l = ''# '' @ r \<and> clean r" if "l \<in> set (info_lines Hs Hp svc)" for l
    using that by (auto simp: info_lines_def depends_line_def clean_concat split: option.splits if_splits)
  show ?thesis
  proof
    fix l assume "l \<in> set (info_lines Hs Hp svc)"
    from form [OF this] obtain r where "l = ''# '' @ r" "clean r" by blast
    then show "clean l \<and> l \<noteq> LSB_END_INIT_INFO" by (simp add: LSB_END_INIT_INFO_def)
  qed
qed

lemma exec_line_clean:
  "svc_printable Hs Hp self svc \<Longrightarrow> clean (exec_line self svc) \<and> exec_line self svc \<noteq> BEGIN_EMBED"
  by (simp add: exec_line_def svc_printable_def BEGIN_EMBED_def)

lemma convert_parse:
  assumes "unit_wf Hs Hp (svc_unit svc)" and "svc_printable Hs Hp self svc"
    and "settings_from_values Hd (unit_get_value Hs Hp (svc_unit svc)) e = (Some (svc_settings svc), e')"
  shows "\<exists>t svc'. service_to_string Hs Hp self svc = Some t \<and>
    prefix ''#!/bin/sh'' t \<and>
    sysvinit_parse_init_script Hs Hp Hd (svc_name svc) (t @ [NUL]) (text_create 0 (length t)) e =
      Defined (Some svc', e') \<and>
    svc_name svc' = svc_name svc \<and> svc_settings svc' = svc_settings svc \<and>
    unit_get_value Hs Hp (svc_unit svc') = unit_get_value Hs Hp (svc_unit svc)"
proof -
  let ?u = "svc_unit svc" and ?t = "concat (service_parts Hs Hp self svc)"
  let ?body = "map butlast (unit_lines Hs Hp ?u)"
  let ?prov = "''# '' @ pad 22 ''Provides:'' @ svc_name svc"
  let ?ls = "[''#!/bin/sh'', [], LSB_BEGIN_INIT_INFO, ?prov] @ info_lines Hs Hp svc @
      [LSB_END_INIT_INFO, [], exec_line self svc, [], BEGIN_EMBED] @ ?body @ [END_EMBED]"
  have pr: "unit_printable Hs Hp ?u" using assms(2) by (simp add: svc_printable_def)
  note b = unit_body [OF assms(1) pr]
  have t: "?t = unlines ?ls" using service_parts_lines [of Hs Hp self svc] b(1) by simp
  have str: "service_to_string Hs Hp self svc = Some ?t"
    using assms(2)
    by (simp add: service_to_string_def service_to_byte_array_def byte_array_appends_eq make_byte_array_def
        svc_printable_def)
  have name: "svc_name svc \<noteq> []" "\<forall>c \<in> set (svc_name svc). \<not> isblank c" "clean (svc_name svc)"
      "\<not> ends_with (svc_name svc) DOT_SERVICE"
    using assms(2) by (simp_all add: svc_printable_def)
  have parse: "sysvinit_parse_init_script Hs Hp Hd (svc_name svc) (?t @ [NUL]) (text_create 0 (length ?t)) e =
      service_from_unit_file Hs Hp Hd (svc_name svc) (?t @ [NUL])
        (text_create (length ?t - length (unlines [END_EMBED]) - length (unlines ?body)) (length (unlines ?body))) e"
    unfolding t
    by (rule parse_script [OF name(1-3) info_lines_clean [OF assms(2)] _ _ b(2) refl refl])
      (use exec_line_clean [OF assms(2)] in simp_all)
  define pre where "pre = unlines ([''#!/bin/sh'', [], LSB_BEGIN_INIT_INFO, ?prov] @ info_lines Hs Hp svc @
      [LSB_END_INIT_INFO, [], exec_line self svc, [], BEGIN_EMBED])"
  have tp: "?t @ [NUL] = pre @ concat (unit_lines Hs Hp ?u) @ unlines [END_EMBED] @ [NUL]"
    unfolding t b(1) pre_def by simp
  then have len: "length ?t - length (unlines [END_EMBED]) - length (unlines ?body) = length pre"
    unfolding t b(1) pre_def by simp
  obtain u' where u': "systemd_parse_unit_file Hs Hp (svc_name svc) (?t @ [NUL])
        (text_create (length pre) (length (concat (unit_lines Hs Hp ?u)))) = Defined (Inr u')"
      "unit_get_value Hs Hp u' = unit_get_value Hs Hp ?u"
    using parse_document [OF unit_doc_ok [OF assms(1) pr] unit_doc_text [symmetric],
        of "svc_name svc" pre "unlines [END_EMBED] @ [NUL]"] unit_doc_values [OF assms(1) pr]
    unfolding tp by auto
  show ?thesis
    using str parse u' assms(3) name(4) b(1) len
    by (auto simp: service_from_unit_file_def service_create_def deservicify_def t)
qed

end

text \<open>
  Reading a regular file of the file system: \<^verbatim>\<open>open\<close> succeeds if it is there, \<^verbatim>\<open>fstat\<close> reports its size and
  \<^verbatim>\<open>read\<close> delivers its content.
\<close>

definition read_file :: "files \<Rightarrow> string \<Rightarrow> errno + string \<times> text_range" where
  "read_file fs path =
     (case fs path of
        None \<Rightarrow> Inl ENOENT
      | Some (t, mode) \<Rightarrow> Inr (the (text_from_file 3 (Some (length t)) (\<lambda>n. Some (take n t)))))"

section \<open>Properties of converted services\<close>

text \<open>
  C5. A service that has been converted is the service that is read back: if \<^verbatim>\<open>service_convert\<close> succeeds for a
  service with valid settings and printable names and values, then \<^verbatim>\<open>service_from_file\<close> recognises the file as
  an init script that provides the service, finds the embedded unit file and makes of it a service with the
  same name, the same settings and the same values of the unit, whatever order the tables are traversed in.
\<close>

theorem convert_read_back:
  assumes "hash_table Hs" and "hash_table Hp" and "hash_table Hd"
    and "unit_wf Hs Hp (svc_unit svc)" and "svc_printable Hs Hp self svc"
    and get: "get = unit_get_value Hs Hp (svc_unit svc)"
    and "settings_valid get" and "svc_settings svc = settings_of get" and "e \<noteq> ERANGE"
    and "fc_mkstemp fc = Some xs" and "fs (path @ ''.'' @ xs) = None"
    and "length (the (service_to_string Hs Hp self svc)) < 2 ^ 31"
    and run: "service_convert Hs Hp self fc fs out svc (Some path) = (EXIT_SUCCESS, fs', printed)"
  shows "\<exists>svc' e'. service_from_file Hs Hp Hd (read_file fs') (svc_name svc) path e = Defined (Some svc', e') \<and>
    svc_name svc' = svc_name svc \<and> svc_settings svc' = svc_settings svc \<and>
    unit_get_value Hs Hp (svc_unit svc') = get"
proof -
  obtain e' where set: "settings_from_values Hd get e = (Some (svc_settings svc), e')"
    using settings_from_values_eq [OF assms(3,9), of get] assms(7,8) by (metis prod.collapse)
  from unit_tables.convert_parse [OF unit_tablesI [OF assms(1,2)] assms(4,5) set [unfolded get]]
  obtain t svc' where t: "service_to_string Hs Hp self svc = Some t" "prefix ''#!/bin/sh'' t"
    and p: "sysvinit_parse_init_script Hs Hp Hd (svc_name svc) (t @ [NUL]) (text_create 0 (length t)) e = Defined (Some svc', e')"
    and eq: "svc_name svc' = svc_name svc" "svc_settings svc' = svc_settings svc" "unit_get_value Hs Hp (svc_unit svc') = get"
    by (auto simp: get)
  have "fs' path = Some (t, 0x1ED AND NOT (fc_umask fc))"
    using convert_installs [OF assms(10,11) t(1) _ run] assms(12) t(1) by simp
  then have "read_file fs' path = Inr (t @ [NUL], text_create 0 (length t))"
    by (simp add: read_file_def text_from_file_def text_create_def)
  moreover from t(2) have "3 < length t" "t ! 0 = CHR ''#''" "t ! 1 = CHR ''!''"
    by (auto simp: prefix_def)
  ultimately show ?thesis
    using p eq by (auto simp: service_from_file_def service_from_init_script_def text_create_def nth_append)
qed

definition example_service :: "(string \<times> (string \<times> pair) list unit_section) list service" where
  "example_service =
     (let u = \<lparr> unit_file_name = ''x'', unit_sections = [(''Service'',
            \<lparr> section_name = ''Service'', section_pairs = [(''Restart'', pair_create ''Restart'' ''always'')] \<rparr>)] \<rparr>
      in \<lparr> svc_name = ''x'', svc_unit = u, svc_settings = settings_of (unit_get_value alist_ops alist_ops u) \<rparr>)"

lemma example_values:
  "unit_get_value alist_ops alist_ops (svc_unit example_service) =
    (\<lambda>s k. if s = ''Service'' \<and> k = ''Restart'' then Some ''always'' else None)"
  by (auto simp: example_service_def alist_unit_get Let_def fun_eq_iff)

lemma example_script:
  "length (concat (service_parts alist_ops alist_ops ''sysvrun'' example_service)) = 181"
  by (simp add: service_parts_def depends_parts_def settings_of_def service_list_def pad_def Let_def unit_lines_def
        section_lines_def unit_get_value_def LSB_BEGIN_INIT_INFO_def LSB_END_INIT_INFO_def BEGIN_EMBED_def END_EMBED_def
        example_service_def)

lemma example_service_printable:
  "unit_wf alist_ops alist_ops (svc_unit example_service) \<and> svc_printable alist_ops alist_ops ''sysvrun'' example_service"
  using example_script
  by (auto simp: example_service_def svc_printable_def unit_wf_def unit_printable_def pair_printable_def pair_line_def
      unit_lines_def section_lines_def SIZE_MAX_def value_ok_def value_logical_def issectionname_def iskey_def isvalue_def
      ctype_simps alist_unit_get ends_with_def DOT_SERVICE_def settings_of_def service_list_def Let_def)

lemma example_to_string:
  "service_to_string alist_ops alist_ops ''sysvrun'' example_service =
    Some (concat (service_parts alist_ops alist_ops ''sysvrun'' example_service))"
  using example_script
  by (simp add: service_to_string_def service_to_byte_array_def byte_array_appends_eq make_byte_array_def SIZE_MAX_def)

theorem convert_read_back_witness:
  "\<exists>fs' printed svc' e'. service_convert alist_ops alist_ops ''sysvrun''
      \<lparr> fc_mkstemp = Some ''aaaaaa'', fc_write = 181, fc_umask = 0, fc_fchmod = True, fc_rename = True \<rparr> (\<lambda>p. None) 0
      example_service (Some ''f'') = (EXIT_SUCCESS, fs', printed) \<and>
    service_from_file alist_ops alist_ops alist_ops (read_file fs') ''x'' ''f'' EOK = Defined (Some svc', e') \<and>
    restart_policy (svc_settings svc') = RP_ALWAYS"
proof -
  let ?fc = "\<lparr> fc_mkstemp = Some ''aaaaaa'', fc_write = 181, fc_umask = 0, fc_fchmod = True, fc_rename = True \<rparr>"
  obtain fs' printed where run: "service_convert alist_ops alist_ops ''sysvrun'' ?fc (\<lambda>p. None) 0 example_service (Some ''f'') =
      (EXIT_SUCCESS, fs', printed)"
    using example_script by (simp add: service_convert_def write_output_def byte_array_to_file_def service_to_byte_array_def
        byte_array_appends_eq make_byte_array_def SIZE_MAX_def c_int_small Let_def)
  have st: "settings_valid (unit_get_value alist_ops alist_ops (svc_unit example_service))"
    by (simp add: example_values settings_valid_def word_valid_def restart_policy_names_def span_valid_def burst_setting_def)
  have eq: "svc_settings example_service = settings_of (unit_get_value alist_ops alist_ops (svc_unit example_service))"
      "svc_name example_service = ''x''"
    by (simp_all add: example_service_def Let_def)
  have pol: "restart_policy (svc_settings example_service) = RP_ALWAYS"
    unfolding eq example_values by (simp add: settings_of_def word_or_def restart_policy_names_def Let_def)
  show ?thesis
    using convert_read_back [OF alist_table.hash_table_axioms alist_table.hash_table_axioms alist_table.hash_table_axioms
        conjunct1 [OF example_service_printable] conjunct2 [OF example_service_printable] refl st eq(1) _ _ _ _ run, of EOK "''aaaaaa''"]
      example_to_string example_script run pol eq(2) by fastforce
qed

end
