(* ===== verification/Noise.thy ===== *)
theory Noise
  imports Sysv_Prelude
begin

text \<open>
  \<^verbatim>\<open>src/common/noise.c\<close> and \<^verbatim>\<open>src/common/proctitle.c\<close>: the level of the messages, the lines that a message is
  logged as, and the title of the process. The type \<^verbatim>\<open>char\<close> is signed, as on the x86-64 platform that the sources
  name.
\<close>

section \<open>Levels\<close>

definition SILENT :: int where "SILENT = -1"
definition QUIET :: int where "QUIET = -1"
definition NORMAL :: int where "NORMAL = 0"
definition VERBOSE :: int where "VERBOSE = 1"
definition DEBUG :: int where "DEBUG = 2"

lemmas noise_levels = SILENT_def QUIET_def NORMAL_def VERBOSE_def DEBUG_def

text \<open>The new level, or \<open>None\<close> for an argument that is not valid.\<close>

definition noise_set_level :: "char \<Rightarrow> int \<Rightarrow> int option" where
  "noise_set_level ch noisy =
     (let c = tolower ch in
      if c = CHR ''d'' then Some (if noisy \<ge> DEBUG then noisy + 1 else DEBUG)
      else if c = CHR ''q'' then Some QUIET
      else if c = CHR ''s'' then Some SILENT
      else if c = CHR ''v'' then Some VERBOSE
      else None)"

fun noise_loop :: "string \<Rightarrow> int \<Rightarrow> int option" where
  "noise_loop [] noisy = Some noisy"
| "noise_loop (c # str) noisy =
     (case noise_set_level c noisy of None \<Rightarrow> None | Some noisy' \<Rightarrow> noise_loop str noisy')"

text \<open>\<^verbatim>\<open>noise_override\<close>: the result and the level; \<open>env\<close> is the value of \<^verbatim>\<open>SYSVKIT_NOISE\<close>.\<close>

definition noise_override :: "string option \<Rightarrow> string option \<Rightarrow> int \<Rightarrow> int \<times> int" where
  "noise_override env str noisy =
     (case (case str of None \<Rightarrow> env | Some s \<Rightarrow> Some s) of
        None \<Rightarrow> (0, noisy)
      | Some s \<Rightarrow>
          if strcaseeq s ''debug'' then (0, DEBUG)
          else if strcaseeq s ''verbose'' then (0, VERBOSE)
          else if strcaseeq s ''normal'' then (0, NORMAL)
          else if strcaseeq s ''quiet'' then (0, QUIET)
          else if strcaseeq s ''silent'' then (0, SILENT)
          else case noise_loop s noisy of None \<Rightarrow> (-1, noisy) | Some noisy' \<Rightarrow> (0, noisy'))"

section \<open>Log lines\<close>

datatype priority = LOG_ERR | LOG_WARNING | LOG_NOTICE | LOG_INFO | LOG_DEBUG

text \<open>A character that is less than a blank as a signed number is replaced by a blank.\<close>

definition schar :: "char \<Rightarrow> int" where
  "schar c = (if of_char c < (128 :: int) then of_char c else of_char c - 256)"

definition suppress :: "char \<Rightarrow> char" where
  "suppress c = (if schar c < 32 then SPACE else c)"

text \<open>The lines that \<^verbatim>\<open>fs_vlog\<close> writes for a message.\<close>

function vlog_lines :: "string \<Rightarrow> string list" where
  "vlog_lines msg =
     (if msg = [] then []
      else map suppress (takeWhile (\<lambda>c. c \<noteq> NL) msg) # vlog_lines (tl (dropWhile (\<lambda>c. c \<noteq> NL) msg)))"
  by pat_completeness auto

termination
proof (relation "measure length")
  fix msg :: string assume "msg \<noteq> []"
  then show "(tl (dropWhile (\<lambda>c. c \<noteq> NL) msg), msg) \<in> measure length"
    using length_dropWhile_le [of "\<lambda>c. c \<noteq> NL" msg] by (cases msg) (auto simp: less_Suc_eq_le intro: le_trans diff_le_self)
qed simp

declare vlog_lines.simps [simp del]

definition log_prefix :: "priority \<Rightarrow> string" where
  "log_prefix pri = (case pri of LOG_DEBUG \<Rightarrow> ''# '' | LOG_WARNING \<Rightarrow> ''WARNING: '' | LOG_ERR \<Rightarrow> ''ERROR: '' | _ \<Rightarrow> '''')"

text \<open>
  \<^verbatim>\<open>fs_vlog\<close> to a file: the text that is printed, with the time stamp of the moment and the number of the process.
\<close>

definition log_line :: "string \<Rightarrow> priority \<Rightarrow> string \<Rightarrow> string" where
  "log_line stamp pri line = stamp @ log_prefix pri @ line @ [NL]"

definition fs_vlog :: "string \<Rightarrow> priority \<Rightarrow> string \<Rightarrow> string" where
  "fs_vlog stamp pri msg = concat (map (log_line stamp pri) (vlog_lines msg))"

text \<open>The functions that log a message if the level allows it, and the length of what they print.\<close>

definition fs_log :: "priority \<Rightarrow> int \<Rightarrow> string \<Rightarrow> string \<Rightarrow> string" where
  "fs_log pri noisy stamp msg =
     (let threshold = (case pri of LOG_DEBUG \<Rightarrow> Some DEBUG | LOG_INFO \<Rightarrow> Some VERBOSE | LOG_NOTICE \<Rightarrow> Some NORMAL
                       | LOG_WARNING \<Rightarrow> Some QUIET | LOG_ERR \<Rightarrow> None)
      in case threshold of
           Some t \<Rightarrow> if noisy < t then '''' else fs_vlog stamp pri msg
         | None \<Rightarrow> fs_vlog stamp pri msg)"

section \<open>The title of the process\<close>

text \<open>
  The memory between \<^verbatim>\<open>argv_start\<close> and \<^verbatim>\<open>argv_end\<close> has \<open>len\<close> bytes; \<open>out\<close> is what has been written so far.
\<close>

fun argv_copy :: "nat \<Rightarrow> string \<Rightarrow> string \<Rightarrow> string" where
  "argv_copy len out [] = out"
| "argv_copy len out (c # src) = (if length out + 2 < len then argv_copy len (out @ [c]) src else out)"

fun argv_loop :: "nat \<Rightarrow> bool \<Rightarrow> string \<Rightarrow> string list \<Rightarrow> string" where
  "argv_loop len first out [] = out"
| "argv_loop len first out (arg # argv) =
     (if length out + 1 < len
      then argv_loop len False (argv_copy len (if first then out else out @ [SPACE]) arg) argv
      else out)"

definition set_argv :: "bool \<Rightarrow> nat \<Rightarrow> string list \<Rightarrow> string" where
  "set_argv argv_bug len argv =
     (let out = argv_loop len True [] argv
      in out @ replicate (len - 1 - length out) NUL @
         [if \<not> argv_bug \<and> length out + 1 < len then CHR ''#'' else NUL])"

text \<open>
  \<^verbatim>\<open>setup_proctitle\<close>: the memory is unchanged at the end; the bug is assumed if more than one byte can be read
  from \<^verbatim>\<open>/proc/self/cmdline\<close>. The arguments stand for the file descriptor and the result of the reading.
\<close>

definition setup_proctitle :: "string list \<Rightarrow> int \<Rightarrow> int \<Rightarrow> nat \<times> bool" where
  "setup_proctitle argv fd res = (length (concat (map (\<lambda>a. a @ [NUL]) argv)), fd > 0 \<and> res > 1)"

section \<open>Properties\<close>

lemma noise_loop_app: "noise_loop (s @ t) n = (case noise_loop s n of None \<Rightarrow> None | Some n' \<Rightarrow> noise_loop t n')"
  by (induction s arbitrary: n) (auto split: option.split)

lemma set_level_valid: "noise_set_level c n \<noteq> None \<longleftrightarrow> tolower c \<in> set ''dqsv''"
  by (auto simp: noise_set_level_def Let_def)

lemma noise_loop_valid: "noise_loop s n \<noteq> None \<longleftrightarrow> (\<forall>c \<in> set s. tolower c \<in> set ''dqsv'')"
proof (induction s arbitrary: n)
  case (Cons c s)
  then show ?case using set_level_valid [of c n] by (cases "noise_set_level c n") auto
qed simp

lemma noise_loop_debug: "noise_loop (replicate k (CHR ''d'')) n = Some (if k = 0 then n else max n 1 + int k)"
  if "n \<ge> SILENT"
  using that
proof (induction k arbitrary: n)
  case (Suc k)
  have "noise_set_level (CHR ''d'') n = Some (max n 1 + 1)"
    by (auto simp: noise_set_level_def Let_def tolower_def isupper_def noise_levels)
  with Suc.IH [of "max n 1 + 1"] Suc.prems show ?case by (simp add: noise_levels)
qed simp

lemma vlog_Nil [simp]: "vlog_lines [] = []" by (simp add: vlog_lines.simps)

lemma suppress_safe: "32 \<le> schar (suppress c)"
  by (simp add: suppress_def schar_def)

lemma vlog_lines_safe: "l \<in> set (vlog_lines msg) \<Longrightarrow> c \<in> set l \<Longrightarrow> 32 \<le> schar c"
proof (induction msg rule: vlog_lines.induct)
  case (1 msg)
  then show ?case by (cases "msg = []") (auto simp: vlog_lines.simps [of msg] suppress_safe)
qed

lemma argv_copy_eq: "argv_copy len out src = out @ take (len - 2 - length out) src"
  by (induction src arbitrary: out) (auto simp: take_Cons' numeral_2_eq_2)

lemma argv_loop_bound: "length out + 1 \<le> len \<Longrightarrow> length (argv_loop len first out argv) + 1 \<le> len"
proof (induction argv arbitrary: first out)
  case (Cons arg argv)
  show ?case
  proof (cases "length out + 1 < len")
    case True
    then have "length (argv_loop len False (argv_copy len (if first then out else out @ [SPACE]) arg) argv) + 1 \<le> len"
      by (intro Cons.IH) (auto simp: argv_copy_eq)
    with True show ?thesis by simp
  qed (use Cons.prems in simp)
qed simp

fun join :: "string list \<Rightarrow> string" where
  "join [] = []"
| "join [a] = a"
| "join (a # b # as) = a @ SPACE # join (b # as)"

lemma argv_loop_fits:
  "argv \<noteq> [] \<Longrightarrow> length out + (if first then 0 else 1) + length (join argv) + 2 \<le> len \<Longrightarrow>
    argv_loop len first out argv = out @ (if first then [] else [SPACE]) @ join argv"
proof (induction argv arbitrary: first out rule: join.induct)
  case (3 a b as)
  let ?pre = "out @ (if first then [] else [SPACE])"
  have "argv_copy len (if first then out else out @ [SPACE]) a = ?pre @ a"
    using "3.prems" by (auto simp: argv_copy_eq split: if_splits)
  then have "argv_loop len first out (a # b # as) = argv_loop len False (?pre @ a) (b # as)"
    using "3.prems" by (subst argv_loop.simps) simp
  also have "\<dots> = (?pre @ a) @ [SPACE] @ join (b # as)"
    using "3.prems" by (subst "3.IH") (auto split: if_splits)
  finally show ?case by simp
qed (auto simp: argv_copy_eq)

text \<open>
  The title of the process is written inside the memory of the arguments, whatever its length, and fills it:
  the buffer keeps its length and ends in a NUL, or in the mark that makes the kernel stop at the first NUL.
  Arguments that fit appear in full, separated by blanks.
\<close>

theorem set_argv_bounds:
  assumes "len > 0"
  shows "length (set_argv argv_bug len argv) = len \<and> last (set_argv argv_bug len argv) \<in> {NUL, CHR ''#''} \<and>
    (argv \<noteq> [] \<longrightarrow> length (join argv) + 2 \<le> len \<longrightarrow>
      set_argv argv_bug len argv =
        join argv @ replicate (len - 1 - length (join argv)) NUL @ [if argv_bug then NUL else CHR ''#''])"
  using argv_loop_bound [of "[]" len True argv] argv_loop_fits [of argv "[]" True len] assms
  by (auto simp: set_argv_def Let_def)

theorem set_argv_bounds_witness:
  "(12 :: nat) > 0 \<and> length (set_argv False 12 [''sysvrun'', ''foo'']) = 12"
  using set_argv_bounds [of 12 False "[''sysvrun'', ''foo'']"] by simp

text \<open>
  A noise override is accepted exactly if it is one of the five words or consists of the letters d, q, s and v,
  in any case; a rejected one leaves the level as it was. The letter d repeated raises the level beyond DEBUG.
\<close>

lemma noise_override_valid:
  "(fst (noise_override env (Some s) noisy) = 0 \<longleftrightarrow>
     (\<exists>w \<in> {''debug'', ''verbose'', ''normal'', ''quiet'', ''silent''}. strcaseeq s w) \<or>
     (\<forall>c \<in> set s. tolower c \<in> set ''dqsv'')) \<and>
   (fst (noise_override env (Some s) noisy) \<noteq> 0 \<longrightarrow> noise_override env (Some s) noisy = (-1, noisy)) \<and>
   (SILENT \<le> noisy \<longrightarrow> k > 0 \<longrightarrow> noise_override env (Some (replicate k (CHR ''d''))) noisy = (0, max noisy 1 + int k))"
proof -
  have "\<not> strcaseeq (replicate k (CHR ''d'')) w" if "w \<in> {''debug'', ''verbose'', ''normal'', ''quiet'', ''silent''}" for w
  proof -
    have "tolower c = CHR ''d''" if "c \<in> set (replicate k (CHR ''d''))" for c
      using that by (auto simp: tolower_def isupper_def split: if_splits)
    moreover have "\<exists>c \<in> set w. tolower c \<noteq> CHR ''d''" using that by (auto simp: tolower_def isupper_def)
    ultimately show ?thesis unfolding strcaseeq_def by (metis (no_types, lifting) image_iff list.set_map)
  qed
  then show ?thesis
    using noise_loop_valid [of s noisy] noise_loop_debug [of noisy k] by (auto simp: noise_override_def split: option.splits)
qed

text \<open>
  No message can bring a control character into the log, or a line that does not start with the time stamp:
  what is printed is a sequence of lines that each consist of the stamp, the prefix of the priority and characters
  from the blank upwards.
\<close>

lemma fs_vlog_lines:
  "\<exists>ls. fs_vlog stamp pri msg = concat (map (\<lambda>l. stamp @ log_prefix pri @ l @ [NL]) ls) \<and>
    (\<forall>l \<in> set ls. \<forall>c \<in> set l. 32 \<le> schar c)"
  using vlog_lines_safe [of _ msg] by (intro exI [of _ "vlog_lines msg"]) (auto simp: fs_vlog_def log_line_def [abs_def])

end
