(* ===== verification/Procwatch.thy ===== *)
theory Procwatch
  imports Fsdyn
begin

text \<open>
  \<^verbatim>\<open>src/common/procwatch.c\<close>: the table of the processes that descend from the monitor, kept up to date by the
  process events of the kernel. The processes are structures on a heap that point to each other through the
  lists of children; the hash table, the ready list and two global variables point to them as well. A step
  that uses a structure that has been freed is \<open>UB\<close>. The heap never uses an address twice, so that a
  dangling pointer cannot become valid again by accident.
\<close>

section \<open>Processes\<close>

type_synonym pid = int
type_synonym addr = nat

record process =
  proc_pid :: pid
  proc_ppid :: pid
  proc_sid :: pid
  proc_children :: "addr list"
  proc_wstatus :: int

record 't procs =
  heap :: "addr \<rightharpoonup> process"
  next_addr :: addr
  processes :: 't
  ready :: "addr list"
  proc_init :: "addr option"
  proc_self :: "addr option"

type_synonym 't proc_ops = "(pid, addr, 't) hash_ops"

text \<open>Reading and writing through a pointer, which may be null.\<close>

definition deref :: "'t procs \<Rightarrow> addr option \<Rightarrow> (addr \<times> process) outcome" where
  "deref s ptr =
     (case ptr of
        None \<Rightarrow> UB
      | Some a \<Rightarrow> (case heap s a of None \<Rightarrow> UB | Some p \<Rightarrow> Defined (a, p)))"

definition set_proc :: "addr \<Rightarrow> process \<Rightarrow> 't procs \<Rightarrow> 't procs" where
  "set_proc a p s = s\<lparr> heap := (heap s)(a \<mapsto> p) \<rparr>"

definition process_destroy :: "'t procs \<Rightarrow> addr \<Rightarrow> 't procs outcome" where
  "process_destroy s a = obind (deref s (Some a)) (\<lambda>(a, p). Defined (s\<lparr> heap := (heap s)(a := None) \<rparr>))"

definition process_count :: "'t proc_ops \<Rightarrow> 't procs \<Rightarrow> u64" where
  "process_count H s = word_of_nat (ht_size H (processes s)) - 2"

definition process_get :: "'t proc_ops \<Rightarrow> 't procs \<Rightarrow> pid \<Rightarrow> addr option" where
  "process_get H s pid = ht_get H (processes s) pid"

text \<open>
  \<^verbatim>\<open>process_reparent_children\<close>: the loop over the children \<open>cs\<close> of \<open>parent\<close>. If that is the process that
  adopts them, the list never becomes empty; the loop without end is \<open>UB\<close> here.
\<close>

fun reparent_loop :: "'t procs \<Rightarrow> addr \<Rightarrow> addr list \<Rightarrow> 't procs outcome" where
  "reparent_loop s parent [] = Defined s"
| "reparent_loop s parent (c # cs) =
     (if proc_init s = Some parent then UB
      else
        obind (deref s (Some parent)) (\<lambda>(a, p).
        let s1 = set_proc a (p\<lparr> proc_children := cs \<rparr>) s in
        obind (deref s1 (Some c)) (\<lambda>(c, q).
        let s2 = set_proc c (q\<lparr> proc_ppid := 1 \<rparr>) s1 in
        obind (deref s2 (proc_init s2)) (\<lambda>(i, r).
        reparent_loop (set_proc i (r\<lparr> proc_children := proc_children r @ [c] \<rparr>) s2) parent cs))))"

definition process_reparent_children :: "'t procs \<Rightarrow> addr \<Rightarrow> 't procs outcome" where
  "process_reparent_children s parent =
     obind (deref s (Some parent)) (\<lambda>(a, p). reparent_loop s parent (proc_children p))"

definition process_unparent :: "'t proc_ops \<Rightarrow> 't procs \<Rightarrow> addr \<Rightarrow> 't procs outcome" where
  "process_unparent H s proc =
     obind (deref s (Some proc)) (\<lambda>(a, p).
     case process_get H s (proc_ppid p) of
       None \<Rightarrow> Defined s
     | Some parent \<Rightarrow>
         obind (deref s (Some parent)) (\<lambda>(b, q).
         if a \<in> set (proc_children q)
         then Defined (set_proc b (q\<lparr> proc_children := remove1 a (proc_children q) \<rparr>) s)
         else Defined s))"

text \<open>\<^verbatim>\<open>process_collect\<close>: an error number, or the process that is handed to the caller.\<close>

definition process_collect :: "'t proc_ops \<Rightarrow> 't procs \<Rightarrow> ((errno + addr) \<times> 't procs) outcome" where
  "process_collect H s =
     (if ht_size H (processes s) = 2 then Defined (Inl ECHILD, s)
      else
        case ready s of
          [] \<Rightarrow> Defined (Inl EAGAIN, s)
        | proc # rest \<Rightarrow>
            obind (process_unparent H (s\<lparr> ready := rest \<rparr>) proc) (\<lambda>s1.
            obind (deref s1 (Some proc)) (\<lambda>(a, p).
            Defined (Inr proc, s1\<lparr> processes := snd (ht_pop H (processes s1) (proc_pid p)) \<rparr>))))"

text \<open>
  \<^verbatim>\<open>process_insert\<close>: the process, or a null pointer.
\<close>

definition process_update :: "'t proc_ops \<Rightarrow> 't procs \<Rightarrow> addr \<Rightarrow> pid \<Rightarrow> pid \<Rightarrow> pid \<Rightarrow> (addr option \<times> 't procs) outcome" where
  "process_update H s proc pid ppid sid =
     obind (deref s (Some proc)) (\<lambda>(a, p).
     if ppid \<noteq> 0 \<and> ppid \<noteq> proc_ppid p \<and> ppid \<noteq> 1 then Defined (None, s)
     else
       obind
         (if ppid \<noteq> 0 \<and> ppid \<noteq> proc_ppid p then
            obind (process_unparent H s a) (\<lambda>s1.
            obind (deref s1 (proc_init s1)) (\<lambda>(i, r).
            let s2 = set_proc i (r\<lparr> proc_children := proc_children r @ [a] \<rparr>) s1 in
            obind (deref s2 (Some a)) (\<lambda>(a, p). Defined (set_proc a (p\<lparr> proc_ppid := 1 \<rparr>) s2))))
          else Defined s)
         (\<lambda>s3.
          obind (deref s3 (Some a)) (\<lambda>(a, p).
          if sid \<noteq> 0 \<and> sid \<noteq> proc_sid p then
            (if sid \<noteq> pid then Defined (None, s3)
             else Defined (Some a, set_proc a (p\<lparr> proc_sid := sid \<rparr>) s3))
          else Defined (Some a, s3))))"

definition process_create :: "'t proc_ops \<Rightarrow> 't procs \<Rightarrow> addr option \<Rightarrow> pid \<Rightarrow> pid \<Rightarrow> pid \<Rightarrow> (addr option \<times> 't procs) outcome" where
  "process_create H s parent pid ppid sid =
     (let a = next_addr s;
          p = \<lparr> proc_pid = pid, proc_ppid = ppid, proc_sid = sid, proc_children = [], proc_wstatus = -1 \<rparr>;
          s1 = set_proc a p (s\<lparr> next_addr := next_addr s + 1 \<rparr>)
      in obind
           (if parent = None then Defined s1
            else obind (deref s1 parent) (\<lambda>(b, q). Defined (set_proc b (q\<lparr> proc_children := proc_children q @ [a] \<rparr>) s1)))
           (\<lambda>s2. Defined (Some a, s2\<lparr> processes := snd (ht_put H (processes s2) pid a) \<rparr>)))"

definition process_insert :: "'t proc_ops \<Rightarrow> 't procs \<Rightarrow> pid \<Rightarrow> pid \<Rightarrow> pid \<Rightarrow> (addr option \<times> 't procs) outcome" where
  "process_insert H s pid ppid sid =
     (case process_get H s pid of
        Some proc \<Rightarrow> process_update H s proc pid ppid sid
      | None \<Rightarrow>
          if ppid \<noteq> pid then
            (case process_get H s ppid of
               None \<Rightarrow> Defined (None, s)
             | Some parent \<Rightarrow>
                 obind (deref s (Some parent)) (\<lambda>(b, q).
                 if sid = 0 then process_create H s (Some b) pid ppid (proc_sid q)
                 else if sid \<noteq> proc_sid q then Defined (None, s)
                 else process_create H s (Some b) pid ppid sid))
          else process_create H s None pid ppid sid)"

text \<open>
  \<^verbatim>\<open>process_drop_recursive\<close>, with the recursion depth bounded by the first argument: running out of it stands
  for the exhaustion of the stack.
\<close>

fun process_drop_recursive :: "nat \<Rightarrow> 't proc_ops \<Rightarrow> 't procs \<Rightarrow> addr \<Rightarrow> 't procs outcome"
and drop_children :: "nat \<Rightarrow> 't proc_ops \<Rightarrow> 't procs \<Rightarrow> addr \<Rightarrow> 't procs outcome" where
  "process_drop_recursive 0 H s proc = UB"
| "process_drop_recursive (Suc n) H s proc =
     obind (deref s (Some proc)) (\<lambda>(a, p).
     obind (drop_children n H (set_proc a (p\<lparr> proc_ppid := 0 \<rparr>) s) a) (\<lambda>s1.
     obind (deref s1 (Some a)) (\<lambda>(a, p).
     process_destroy
       (s1\<lparr> processes := snd (ht_pop H (processes s1) (proc_pid p)),
            ready := (if a \<in> set (ready s1) then remove1 a (ready s1) else ready s1) \<rparr>) a)))"
| "drop_children 0 H s proc = UB"
| "drop_children (Suc n) H s proc =
     obind (deref s (Some proc)) (\<lambda>(a, p).
     case proc_children p of
       [] \<Rightarrow> Defined s
     | c # cs \<Rightarrow>
         obind (process_drop_recursive n H (set_proc a (p\<lparr> proc_children := cs \<rparr>) s) c) (\<lambda>s1.
         drop_children n H s1 a))"

text \<open>The processes that \<^verbatim>\<open>process_foreach\<close> passes to the function, in the order of the traversal.\<close>

fun read_all :: "'t procs \<Rightarrow> addr list \<Rightarrow> process list outcome" where
  "read_all s [] = Defined []"
| "read_all s (a # as) =
     obind (deref s (Some a)) (\<lambda>(a, p). obind (read_all s as) (\<lambda>ps. Defined (p # ps)))"

definition process_foreach :: "'t proc_ops \<Rightarrow> 't procs \<Rightarrow> process list outcome" where
  "process_foreach H s =
     read_all s (filter (\<lambda>a. Some a \<noteq> proc_init s \<and> Some a \<noteq> proc_self s) (map snd (ht_elems H (processes s))))"

text \<open>\<^verbatim>\<open>process_remove\<close>; the two calls of \<^verbatim>\<open>fatal\<close> end the program, which is the result \<open>None\<close>.\<close>

definition process_remove :: "'t proc_ops \<Rightarrow> 't procs \<Rightarrow> pid \<Rightarrow> (bool \<times> 't procs) option outcome" where
  "process_remove H s pid =
     (case ht_get H (processes s) pid of
        None \<Rightarrow> Defined (Some (False, s))
      | Some proc \<Rightarrow>
          if Some proc = proc_init s \<or> Some proc = proc_self s then Defined None
          else
            let s1 = s\<lparr> processes := snd (ht_pop H (processes s) pid),
                        ready := (if proc \<in> set (ready s) then remove1 proc (ready s) else ready s) \<rparr>
            in obind (process_reparent_children s1 proc) (\<lambda>s2.
               obind (process_destroy s2 proc) (\<lambda>s3. Defined (Some (True, s3)))))"

text \<open>
  A tree of processes can be dropped with a recursion depth of twice their number: every process takes a call of
  each of the two functions, and every child one more turn of the loop.
\<close>

definition drop_fuel :: "'t proc_ops \<Rightarrow> 't procs \<Rightarrow> nat" where
  "drop_fuel H s = 2 * ht_size H (processes s) + 2"

definition process_drop :: "'t proc_ops \<Rightarrow> 't procs \<Rightarrow> pid \<Rightarrow> (bool \<times> 't procs) outcome" where
  "process_drop H s pid =
     (case process_get H s pid of
        None \<Rightarrow> Defined (False, s)
      | Some proc \<Rightarrow>
          obind (process_unparent H s proc) (\<lambda>s1.
          obind (process_drop_recursive (drop_fuel H s) H s1 proc) (\<lambda>s2. Defined (True, s2))))"

definition process_exit :: "'t proc_ops \<Rightarrow> 't procs \<Rightarrow> pid \<Rightarrow> int \<Rightarrow> (bool \<times> 't procs) outcome" where
  "process_exit H s pid wstatus =
     (case process_get H s pid of
        None \<Rightarrow> Defined (False, s)
      | Some proc \<Rightarrow>
          obind (deref s (Some proc)) (\<lambda>(a, p).
          obind (process_reparent_children (set_proc a (p\<lparr> proc_wstatus := wstatus \<rparr>) s) a) (\<lambda>s1.
          Defined (True, s1\<lparr> ready := ready s1 @ [a] \<rparr>))))"

text \<open>
  \<^verbatim>\<open>processes_init\<close> on a heap that may hold other structures, \<open>pid\<close> and \<open>sid\<close> being those of the monitor, and
  \<^verbatim>\<open>processes_fini\<close>.
\<close>

definition processes_init :: "'t proc_ops \<Rightarrow> (addr \<rightharpoonup> process) \<Rightarrow> addr \<Rightarrow> pid \<Rightarrow> pid \<Rightarrow> 't procs outcome" where
  "processes_init H h next pid sid =
     (let s = \<lparr> heap = h, next_addr = next, processes = ht_make H, ready = [], proc_init = None, proc_self = None \<rparr>
      in obind (process_insert H s 1 1 1) (\<lambda>(i, s1).
         let s1 = s1\<lparr> proc_init := i \<rparr> in
         obind (process_insert H s1 pid pid sid) (\<lambda>(a, s2). Defined (s2\<lparr> proc_self := a \<rparr>))))"

fun destroy_all :: "'t procs \<Rightarrow> addr list \<Rightarrow> 't procs outcome" where
  "destroy_all s [] = Defined s"
| "destroy_all s (a # as) = obind (process_destroy s a) (\<lambda>s1. destroy_all s1 as)"

definition processes_fini :: "'t proc_ops \<Rightarrow> 't procs \<Rightarrow> 't procs outcome" where
  "processes_fini H s =
     obind (destroy_all s (map snd (ht_elems H (processes s)))) (\<lambda>s1.
     Defined (s1\<lparr> processes := ht_make H, ready := [], proc_init := None, proc_self := None \<rparr>))"

definition procwatch_drain :: "'t proc_ops \<Rightarrow> pid \<Rightarrow> pid \<Rightarrow> 't procs \<Rightarrow> 't procs outcome" where
  "procwatch_drain H pid sid s =
     obind (processes_fini H s) (\<lambda>s1. processes_init H (heap s1) (next_addr s1) pid sid)"

section \<open>Events\<close>

text \<open>
  The events of the process connector: thread and thread group of the processes concerned, the first of which
  is the actor.
\<close>

type_synonym procid = "pid \<times> pid"

datatype proc_event =
    PROC_EVENT_NONE errno
  | PROC_EVENT_FORK procid procid
  | PROC_EVENT_EXEC procid
  | PROC_EVENT_UID procid
  | PROC_EVENT_GID procid
  | PROC_EVENT_SID procid
  | PROC_EVENT_PTRACE procid
  | PROC_EVENT_COMM procid
  | PROC_EVENT_COREDUMP procid
  | PROC_EVENT_EXIT procid int int
  | PROC_EVENT_OTHER nat procid

fun actor :: "proc_event \<Rightarrow> procid" where
  "actor (PROC_EVENT_NONE e) = (0, 0)"
| "actor (PROC_EVENT_FORK parent child) = parent"
| "actor (PROC_EVENT_EXEC p) = p"
| "actor (PROC_EVENT_UID p) = p"
| "actor (PROC_EVENT_GID p) = p"
| "actor (PROC_EVENT_SID p) = p"
| "actor (PROC_EVENT_PTRACE p) = p"
| "actor (PROC_EVENT_COMM p) = p"
| "actor (PROC_EVENT_COREDUMP p) = p"
| "actor (PROC_EVENT_EXIT p code signal) = p"
| "actor (PROC_EVENT_OTHER w p) = p"

abbreviation tid :: "procid \<Rightarrow> pid" where "tid \<equiv> fst"
abbreviation tgid :: "procid \<Rightarrow> pid" where "tgid \<equiv> snd"

datatype procwatch_event = PROCWATCH_EVENT_EXEC | PROCWATCH_EVENT_SETSID

datatype procwatch_action = PROCWATCH_ACTION_DEFAULT | PROCWATCH_ACTION_DROP

text \<open>
  The callback sees a process and has a state \<open>'d\<close> of its own; \<^verbatim>\<open>callback\<close> calls it if there is one.
\<close>

type_synonym 'd callback = "procwatch_event \<Rightarrow> process \<Rightarrow> 'd \<Rightarrow> procwatch_action \<times> 'd"

definition callback ::
  "'d callback option \<Rightarrow> procwatch_event \<Rightarrow> addr option \<Rightarrow> 't procs \<Rightarrow> 'd \<Rightarrow> (procwatch_action \<times> 'd) outcome" where
  "callback cb ev ptr s d =
     (case cb of
        None \<Rightarrow> Defined (PROCWATCH_ACTION_DEFAULT, d)
      | Some f \<Rightarrow> obind (deref s ptr) (\<lambda>(a, p). Defined (f ev p d)))"

text \<open>The two switches over what the callback returns.\<close>

definition notify ::
  "'t proc_ops \<Rightarrow> 'd callback option \<Rightarrow> procwatch_event \<Rightarrow> addr option \<Rightarrow> 't procs \<Rightarrow> 'd \<Rightarrow> ('t procs \<times> 'd) outcome" where
  "notify H cb ev ptr s d =
     obind (callback cb ev ptr s d) (\<lambda>(act, d').
     case act of
       PROCWATCH_ACTION_DEFAULT \<Rightarrow> Defined (s, d')
     | PROCWATCH_ACTION_DROP \<Rightarrow>
         obind (deref s ptr) (\<lambda>(a, p).
         obind (process_drop H s (proc_pid p)) (\<lambda>(b, s'). Defined (s', d'))))"

definition handle_event :: "'t proc_ops \<Rightarrow> 'd callback option \<Rightarrow> proc_event \<Rightarrow> 't procs \<Rightarrow> 'd \<Rightarrow> ('t procs \<times> 'd) outcome" where
  "handle_event H cb ev s d =
     (case ev of
        PROC_EVENT_NONE e \<Rightarrow> Defined (s, d)
      | _ \<Rightarrow>
          if process_get H s (tgid (actor ev)) = None then Defined (s, d)
          else case ev of
            PROC_EVENT_FORK parent child \<Rightarrow>
              if tgid child \<noteq> tid child then Defined (s, d)
              else if tgid parent = 1 then Defined (s, d)
              else obind (process_insert H s (tgid child) (tgid parent) 0) (\<lambda>(r, s'). Defined (s', d))
          | PROC_EVENT_EXEC p \<Rightarrow>
              (case process_get H s (tgid p) of
                 None \<Rightarrow> Defined (s, d)
               | Some proc \<Rightarrow> notify H cb PROCWATCH_EVENT_EXEC (Some proc) s d)
          | PROC_EVENT_SID p \<Rightarrow>
              obind (process_insert H s (tgid p) 0 (tgid p)) (\<lambda>(proc, s').
              notify H cb PROCWATCH_EVENT_SETSID proc s' d)
          | PROC_EVENT_EXIT p code sig \<Rightarrow>
              if sig \<noteq> SIGCHLD then Defined (s, d)
              else obind (process_exit H s (tgid p) code) (\<lambda>(r, s'). Defined (s', d))
          | _ \<Rightarrow> Defined (s, d))"

text \<open>\<^verbatim>\<open>procwatch_ingest\<close>; \<open>ev\<close> is what \<^verbatim>\<open>cn_proc_receive_event\<close> delivers, if it succeeds.\<close>

definition procwatch_ingest ::
  "'t proc_ops \<Rightarrow> 'd callback option \<Rightarrow> proc_event option \<Rightarrow> 't procs \<Rightarrow> 'd \<Rightarrow> (bool \<times> 't procs \<times> 'd) outcome" where
  "procwatch_ingest H cb ev s d =
     (case ev of
        None \<Rightarrow> Defined (False, s, d)
      | Some e \<Rightarrow> obind (handle_event H cb e s d) (\<lambda>(s', d'). Defined (True, s', d')))"

section \<open>The table as the callers see it\<close>

text \<open>
  What the module promises, without pointers: a map from process numbers to parent, session and status, and the
  queue of the processes that have exited and have not been collected.
\<close>

record pinfo =
  pi_ppid :: pid
  pi_sid :: pid
  pi_status :: int

record table =
  tracked :: "pid \<rightharpoonup> pinfo"
  exited :: "pid list"

definition parent_rel :: "(pid \<rightharpoonup> pinfo) \<Rightarrow> (pid \<times> pid) set" where
  "parent_rel T = {(c, p). \<exists>i. T c = Some i \<and> pi_ppid i = p \<and> c \<noteq> p}"

definition descendants :: "(pid \<rightharpoonup> pinfo) \<Rightarrow> pid \<Rightarrow> pid set" where
  "descendants T pid = {q. (q, pid) \<in> (parent_rel T)\<^sup>*}"

definition spec_fork :: "pid \<Rightarrow> pid \<Rightarrow> table \<Rightarrow> table" where
  "spec_fork parent child t =
     (case (tracked t child, tracked t parent) of
        (None, Some i) \<Rightarrow>
          t\<lparr> tracked := (tracked t)(child \<mapsto> \<lparr> pi_ppid = parent, pi_sid = pi_sid i, pi_status = -1 \<rparr>) \<rparr>
      | _ \<Rightarrow> t)"

definition spec_setsid :: "pid \<Rightarrow> table \<Rightarrow> table" where
  "spec_setsid pid t = t\<lparr> tracked := (tracked t)(pid := map_option (\<lambda>i. i\<lparr> pi_sid := pid \<rparr>) (tracked t pid)) \<rparr>"

definition spec_drop :: "pid \<Rightarrow> table \<Rightarrow> table" where
  "spec_drop pid t =
     t\<lparr> tracked := tracked t |` (- descendants (tracked t) pid),
        exited := filter (\<lambda>q. q \<notin> descendants (tracked t) pid) (exited t) \<rparr>"

definition spec_exit :: "pid \<Rightarrow> int \<Rightarrow> table \<Rightarrow> table" where
  "spec_exit pid code t =
     t\<lparr> tracked := (\<lambda>q. case tracked t q of
          None \<Rightarrow> None
        | Some i \<Rightarrow> Some (if q = pid then i\<lparr> pi_status := code \<rparr> else if pi_ppid i = pid then i\<lparr> pi_ppid := 1 \<rparr> else i)),
        exited := exited t @ [pid] \<rparr>"

definition spec_collect :: "table \<Rightarrow> (errno + pid \<times> pinfo) \<times> table" where
  "spec_collect t =
     (if card (dom (tracked t)) = 2 then (Inl ECHILD, t)
      else case exited t of
        [] \<Rightarrow> (Inl EAGAIN, t)
      | pid # rest \<Rightarrow>
          (Inr (pid, the (tracked t pid)), t\<lparr> tracked := (tracked t)(pid := None), exited := rest \<rparr>))"

type_synonym 'd spec_callback = "procwatch_event \<Rightarrow> pid \<Rightarrow> pinfo \<Rightarrow> 'd \<Rightarrow> procwatch_action \<times> 'd"

definition spec_notify :: "'d spec_callback option \<Rightarrow> procwatch_event \<Rightarrow> pid \<Rightarrow> table \<Rightarrow> 'd \<Rightarrow> table \<times> 'd" where
  "spec_notify cb ev pid t d =
     (case cb of
        None \<Rightarrow> (t, d)
      | Some f \<Rightarrow>
          (case f ev pid (the (tracked t pid)) d of
             (PROCWATCH_ACTION_DEFAULT, d') \<Rightarrow> (t, d')
           | (PROCWATCH_ACTION_DROP, d') \<Rightarrow> (spec_drop pid t, d')))"

definition spec_event :: "'d spec_callback option \<Rightarrow> proc_event \<Rightarrow> table \<Rightarrow> 'd \<Rightarrow> table \<times> 'd" where
  "spec_event cb ev t d =
     (if tracked t (tgid (actor ev)) = None then (t, d)
      else case ev of
        PROC_EVENT_FORK parent child \<Rightarrow>
          if tgid child = tid child \<and> tgid parent \<noteq> 1 then (spec_fork (tgid parent) (tgid child) t, d) else (t, d)
      | PROC_EVENT_EXEC p \<Rightarrow> spec_notify cb PROCWATCH_EVENT_EXEC (tgid p) t d
      | PROC_EVENT_SID p \<Rightarrow> spec_notify cb PROCWATCH_EVENT_SETSID (tgid p) (spec_setsid (tgid p) t) d
      | PROC_EVENT_EXIT p code sig \<Rightarrow> if sig = SIGCHLD then (spec_exit (tgid p) code t, d) else (t, d)
      | _ \<Rightarrow> (t, d))"

text \<open>
  What the kernel is relied on for: a process that has exited neither forks nor exits again, the monitor and
  process 1 do not exit while the monitor runs, a process that starts a session has a number other than 0, and
  the callback does not drop the monitor or process 1.
\<close>

definition event_ok :: "pid \<Rightarrow> 'd spec_callback option \<Rightarrow> proc_event \<Rightarrow> table \<Rightarrow> 'd \<Rightarrow> bool" where
  "event_ok me cb ev t d \<longleftrightarrow>
     (case ev of
        PROC_EVENT_FORK parent child \<Rightarrow> tgid parent \<notin> set (exited t)
      | PROC_EVENT_EXIT p code sig \<Rightarrow> sig = SIGCHLD \<longrightarrow> tgid p \<notin> {1, me} \<and> tgid p \<notin> set (exited t)
      | PROC_EVENT_EXEC p \<Rightarrow>
          tgid p \<in> {1, me} \<longrightarrow> tracked (fst (spec_event cb ev t d)) (tgid p) \<noteq> None
      | PROC_EVENT_SID p \<Rightarrow>
          tgid p \<noteq> 0 \<and> (tgid p \<in> {1, me} \<longrightarrow> tracked (fst (spec_event cb ev t d)) (tgid p) \<noteq> None)
      | _ \<Rightarrow> True)"

section \<open>The invariant\<close>

text \<open>
  \<open>forest T h R\<close>: the table \<open>T\<close> and the heap \<open>h\<close> describe the same processes, the list of children of a
  process holds exactly the processes that have it as parent, each once, and parents are found in the table
  without ending in a cycle, up to the roots \<open>R\<close>, which are their own parents.
\<close>

definition linked :: "(pid \<rightharpoonup> addr) \<Rightarrow> (addr \<rightharpoonup> process) \<Rightarrow> bool" where
  "linked T h \<longleftrightarrow> (\<forall>pid a. T pid = Some a \<longleftrightarrow> (\<exists>p. h a = Some p \<and> proc_pid p = pid))"

definition listed :: "(addr \<rightharpoonup> process) \<Rightarrow> bool" where
  "listed h \<longleftrightarrow>
     (\<forall>a p. h a = Some p \<longrightarrow> distinct (proc_children p) \<and>
        set (proc_children p) = {c. \<exists>q. h c = Some q \<and> proc_ppid q = proc_pid p \<and> c \<noteq> a})"

definition rooted :: "(pid \<rightharpoonup> addr) \<Rightarrow> (addr \<rightharpoonup> process) \<Rightarrow> pid set \<Rightarrow> (addr \<Rightarrow> nat) \<Rightarrow> bool" where
  "rooted T h R rank \<longleftrightarrow>
     (\<forall>a p. h a = Some p \<longrightarrow>
        (if proc_pid p \<in> R then proc_ppid p = proc_pid p
         else \<exists>b. T (proc_ppid p) = Some b \<and> rank b < rank a))"

definition forest :: "(pid \<rightharpoonup> addr) \<Rightarrow> (addr \<rightharpoonup> process) \<Rightarrow> pid set \<Rightarrow> bool" where
  "forest T h R \<longleftrightarrow> linked T h \<and> listed h \<and> (\<exists>rank. rooted T h R rank)"

definition pw_inv :: "'t proc_ops \<Rightarrow> pid \<Rightarrow> 't procs \<Rightarrow> bool" where
  "pw_inv H me s \<longleftrightarrow>
     forest (ht_get H (processes s)) (heap s) {1, me} \<and> me \<noteq> 1 \<and>
     (\<exists>i. proc_init s = Some i \<and> ht_get H (processes s) 1 = Some i) \<and>
     (\<exists>a. proc_self s = Some a \<and> ht_get H (processes s) me = Some a) \<and>
     distinct (ready s) \<and>
     (\<forall>a \<in> set (ready s). \<exists>p. heap s a = Some p \<and> proc_children p = [] \<and> proc_pid p \<notin> {1, me}) \<and>
     (\<forall>a p. heap s a = Some p \<longrightarrow> a < next_addr s)"

definition info :: "process \<Rightarrow> pinfo" where
  "info p = \<lparr> pi_ppid = proc_ppid p, pi_sid = proc_sid p, pi_status = proc_wstatus p \<rparr>"

text \<open>The table that a state represents.\<close>

definition abs_table :: "'t proc_ops \<Rightarrow> 't procs \<Rightarrow> table" where
  "abs_table H s =
     \<lparr> tracked = (\<lambda>pid. case ht_get H (processes s) pid of None \<Rightarrow> None | Some a \<Rightarrow> map_option info (heap s a)),
       exited = map (\<lambda>a. proc_pid (the (heap s a))) (ready s) \<rparr>"

lemma deref_simps [simp]:
  "deref s None = UB"
  "heap s a = Some p \<Longrightarrow> deref s (Some a) = Defined (a, p)"
  by (simp_all add: deref_def)

lemma set_proc_sel [simp]:
  "heap (set_proc a p s) = (heap s)(a \<mapsto> p)"
  "next_addr (set_proc a p s) = next_addr s" "processes (set_proc a p s) = processes s"
  "ready (set_proc a p s) = ready s" "proc_init (set_proc a p s) = proc_init s"
  "proc_self (set_proc a p s) = proc_self s"
  by (simp_all add: set_proc_def)

lemma linkedD:
  assumes "linked T h"
  shows "T pid = Some a \<Longrightarrow> \<exists>p. h a = Some p \<and> proc_pid p = pid"
    and "h a = Some p \<Longrightarrow> T (proc_pid p) = Some a"
    and "h a = Some p \<Longrightarrow> h b = Some q \<Longrightarrow> proc_pid p = proc_pid q \<Longrightarrow> a = b"
  using assms unfolding linked_def by (blast, blast, metis option.inject)

lemma listedD:
  assumes "listed h" and "h a = Some p"
  shows "distinct (proc_children p)"
    and "c \<in> set (proc_children p) \<longleftrightarrow> (\<exists>q. h c = Some q \<and> proc_ppid q = proc_pid p \<and> c \<noteq> a)"
  using assms unfolding listed_def by blast+

lemma rootedD:
  assumes "rooted T h R rank" and "h a = Some p"
  shows "proc_pid p \<in> R \<Longrightarrow> proc_ppid p = proc_pid p"
    and "proc_pid p \<notin> R \<Longrightarrow> \<exists>b. T (proc_ppid p) = Some b \<and> rank b < rank a"
  using assms unfolding rooted_def by (metis+)

text \<open>Every process that is not a root is in the list of exactly one other process.\<close>

lemma forest_parent:
  assumes "forest T h R" and "h a = Some p" and "proc_pid p \<notin> R"
  shows "\<exists>b q. T (proc_ppid p) = Some b \<and> h b = Some q \<and> proc_pid q = proc_ppid p \<and> b \<noteq> a \<and>
    a \<in> set (proc_children q)"
proof -
  from assms(1) obtain rank where f: "linked T h" "listed h" "rooted T h R rank" by (auto simp: forest_def)
  obtain b where b: "T (proc_ppid p) = Some b" "rank b < rank a" using rootedD(2) [OF f(3) assms(2,3)] by blast
  then obtain q where "h b = Some q" "proc_pid q = proc_ppid p" using linkedD(1) [OF f(1)] by blast
  with b assms(2) show ?thesis using listedD(2) [OF f(2)] by fastforce
qed

lemma forest_child:
  assumes "forest T h R" and "h a = Some p" and "c \<in> set (proc_children p)"
  shows "\<exists>q. h c = Some q \<and> proc_ppid q = proc_pid p \<and> c \<noteq> a \<and> proc_pid q \<notin> R"
proof -
  from assms(1) obtain rank where f: "linked T h" "listed h" "rooted T h R rank" by (auto simp: forest_def)
  from listedD(2) [OF f(2) assms(2), of c] assms(3)
  obtain q where q: "h c = Some q" "proc_ppid q = proc_pid p" "c \<noteq> a" by blast
  then have "proc_pid q \<notin> R" using rootedD(1) [OF f(3) q(1)] linkedD(3) [OF f(1) q(1) assms(2)] by auto
  with q show ?thesis by blast
qed

section \<open>Changes of the forest\<close>

lemma forest_field:
  assumes "forest T h R" and "h a = Some p" and "proc_pid p' = proc_pid p" "proc_ppid p' = proc_ppid p"
    "proc_children p' = proc_children p"
  shows "forest T (h(a \<mapsto> p')) R"
proof -
  from assms(1) obtain rank where f: "linked T h" "listed h" "rooted T h R rank" by (auto simp: forest_def)
  have "linked T (h(a \<mapsto> p'))" using f(1) assms(2,3) unfolding linked_def by (metis fun_upd_apply option.inject)
  moreover have "{c. \<exists>q. (h(a \<mapsto> p')) c = Some q \<and> proc_ppid q = x \<and> c \<noteq> b} =
      {c. \<exists>q. h c = Some q \<and> proc_ppid q = x \<and> c \<noteq> b}" for x b using assms(2,4) by auto
  then have "listed (h(a \<mapsto> p'))" using f(2) assms(2,3,5) unfolding listed_def by (simp split: if_splits)
  moreover have "rooted T (h(a \<mapsto> p')) R rank" using f(3) assms(2-4) unfolding rooted_def by (auto split: if_splits)
  ultimately show ?thesis unfolding forest_def by blast
qed

lemma forest_insert:
  assumes "forest T h R" and "h a = None" and "T (proc_pid p) = None" and "proc_pid p \<notin> R"
    and "T (proc_ppid p) = Some b" and "h b = Some q" and "proc_children p = []"
  shows "forest (T(proc_pid p \<mapsto> a)) (h(a \<mapsto> p, b \<mapsto> q\<lparr> proc_children := proc_children q @ [a] \<rparr>)) R"
    (is "forest ?T ?h R")
proof -
  from assms(1) obtain rank where f: "linked T h" "listed h" "rooted T h R rank" by (auto simp: forest_def)
  have ab: "a \<noteq> b" and q: "proc_pid q = proc_ppid p" using assms(2,5,6) linkedD(1) [OF f(1)] by fastforce+
  have new: "proc_pid r \<noteq> proc_pid p" if "h x = Some r" for x r
    using linkedD(2) [OF f(1) that] assms(3) by auto
  have orphan: "proc_ppid r \<noteq> proc_pid p" if "h x = Some r" for x r
    using rootedD [OF f(3) that] assms(3) new [OF that] by fastforce
  have "linked ?T ?h"
    using f(1) assms(2,3,6) ab new unfolding linked_def by (auto split: if_splits; fastforce)
  moreover have "listed ?h" unfolding listed_def
  proof (intro allI impI)
    fix x r assume x: "?h x = Some r"
    have kids: "{c. \<exists>s. ?h c = Some s \<and> proc_ppid s = k \<and> c \<noteq> x} =
        {c. \<exists>s. h c = Some s \<and> proc_ppid s = k \<and> c \<noteq> x} \<union> (if k = proc_ppid p \<and> x \<noteq> a then {a} else {})" for k
      using assms(2,6) ab by auto
    consider "x = a" | "x = b" | "x \<noteq> a" "x \<noteq> b" by blast
    then show "distinct (proc_children r) \<and> set (proc_children r) = {c. \<exists>s. ?h c = Some s \<and> proc_ppid s = proc_pid r \<and> c \<noteq> x}"
    proof cases
      case 1
      then show ?thesis using x ab assms(7) orphan kids [of "proc_pid p"] by auto
    next
      case 2
      then show ?thesis using x ab q kids [of "proc_pid q"] f(2) assms(2,6) unfolding listed_def by auto
    next
      case 3
      then have "proc_pid r \<noteq> proc_ppid p" using x linkedD(3) [OF f(1) _ assms(6)] q by fastforce
      then show ?thesis using 3 x kids [of "proc_pid r"] f(2) unfolding listed_def by auto
    qed
  qed
  moreover have "rooted ?T ?h R (rank(a := rank b + 1))"
    unfolding rooted_def
  proof (intro allI impI)
    fix x r assume x: "?h x = Some r"
    show "if proc_pid r \<in> R then proc_ppid r = proc_pid r
        else \<exists>c. ?T (proc_ppid r) = Some c \<and> (rank(a := rank b + 1)) c < (rank(a := rank b + 1)) x"
    proof (cases "x = a")
      case True
      then show ?thesis using x ab assms(4,5) q new [OF assms(6)] by auto
    next
      case False
      then obtain r' where r': "h x = Some r'" "proc_pid r = proc_pid r'" "proc_ppid r = proc_ppid r'"
        using x assms(6) by (auto split: if_splits)
      moreover have "c \<noteq> a" if "T (proc_ppid r') = Some c" for c using that assms(2) linkedD(1) [OF f(1)] by fastforce
      ultimately show ?thesis using rootedD [OF f(3) r'(1)] orphan [OF r'(1)] False by auto
    qed
  qed
  ultimately show ?thesis unfolding forest_def by blast
qed

text \<open>The children \<open>cs\<close> of \<open>a\<close> handed over to \<open>i\<close>.\<close>

definition adopt :: "addr \<Rightarrow> addr \<Rightarrow> addr list \<Rightarrow> (addr \<rightharpoonup> process) \<Rightarrow> (addr \<rightharpoonup> process)" where
  "adopt a i cs h =
     (\<lambda>x. map_option (\<lambda>p. if x = a then p\<lparr> proc_children := [] \<rparr>
                          else if x = i then p\<lparr> proc_children := proc_children p @ cs \<rparr>
                          else if x \<in> set cs then p\<lparr> proc_ppid := 1 \<rparr> else p) (h x))"

lemma forest_adopt:
  assumes "forest T h R" and "h a = Some p" and "T 1 = Some i" and "1 \<in> R" and "a \<noteq> i"
  shows "forest T (adopt a i (proc_children p) h) R" (is "forest T ?h R")
proof -
  let ?cs = "proc_children p"
  from assms(1) obtain rank where f: "linked T h" "listed h" "rooted T h R rank" by (auto simp: forest_def)
  obtain r where r: "h i = Some r" "proc_pid r = 1" using linkedD(1) [OF f(1) assms(3)] by blast
  have cs: "\<exists>q. h c = Some q \<and> proc_ppid q = proc_pid p \<and> c \<noteq> a \<and> proc_pid q \<notin> R" if "c \<in> set ?cs" for c
    using forest_child [OF assms(1,2) that] .
  have ni: "i \<notin> set ?cs" "a \<notin> set ?cs" using cs r assms(4) by force+
  have p1: "proc_pid p \<noteq> 1" using linkedD(3) [OF f(1) assms(2) r(1)] r(2) assms(5) by auto
  have cell: "\<exists>q'. h x = Some q' \<and> proc_pid q = proc_pid q' \<and>
      proc_ppid q = (if x \<in> set ?cs then 1 else proc_ppid q') \<and>
      proc_children q = (if x = a then [] else if x = i then proc_children q' @ ?cs else proc_children q')"
    if "?h x = Some q" for x q using that ni by (cases "h x") (auto simp: adopt_def)
  have cell2: "\<exists>q. ?h x = Some q \<and> proc_pid q = proc_pid q'" if "h x = Some q'" for x q'
    using that by (auto simp: adopt_def)
  have link: "linked T ?h" using f(1) cell cell2 unfolding linked_def by metis
  moreover have "listed ?h" unfolding listed_def
  proof (intro allI impI)
    fix x q assume x: "?h x = Some q"
    then obtain q' where q': "h x = Some q'" "proc_pid q = proc_pid q'"
      "proc_children q = (if x = a then [] else if x = i then proc_children q' @ ?cs else proc_children q')"
      using cell [OF x] by auto
    have kid: "(\<exists>s. ?h c = Some s \<and> proc_ppid s = k \<and> c \<noteq> x) \<longleftrightarrow>
        (if c \<in> set ?cs then k = 1 \<and> c \<noteq> x else \<exists>s. h c = Some s \<and> proc_ppid s = k \<and> c \<noteq> x)" for c k
      using cs [of c] ni by (cases "h c"; cases "c = i"; cases "c = a"; cases "c \<in> set ?cs") (auto simp: adopt_def)
    note dq = listedD [OF f(2) q'(1)]
    have "distinct (proc_children q)"
      using q'(3) dq r listedD [OF f(2) assms(2)] p1 cs q'(1) by (auto split: if_splits)
    moreover have "c \<in> set (proc_children q) \<longleftrightarrow> (\<exists>s. ?h c = Some s \<and> proc_ppid s = proc_pid q \<and> c \<noteq> x)" for c
    proof (cases "c \<in> set ?cs")
      case True
      have "proc_pid q' = 1 \<longleftrightarrow> x = i" using linkedD(3) [OF f(1) q'(1) r(1)] r q'(1) by auto
      moreover have "c \<in> set (proc_children q') \<longleftrightarrow> x = a"
        using dq(2) cs [OF True] linkedD(3) [OF f(1) q'(1) assms(2)] assms(2) q'(1) True by fastforce
      ultimately show ?thesis using True kid [of c "proc_pid q"] q'(2,3) ni assms(5) by auto
    next
      case False
      then show ?thesis using kid [of c "proc_pid q"] q' dq(2) [of c] assms(2) by auto
    qed
    ultimately show "distinct (proc_children q) \<and>
        set (proc_children q) = {c. \<exists>s. ?h c = Some s \<and> proc_ppid s = proc_pid q \<and> c \<noteq> x}" by auto
  qed
  moreover have "rooted T ?h R (\<lambda>x. if x = i then 0 else rank x + 1)"
    unfolding rooted_def
  proof (intro allI impI)
    fix x q assume "?h x = Some q"
    then obtain q' where q': "h x = Some q'" "proc_pid q = proc_pid q'"
      "proc_ppid q = (if x \<in> set ?cs then 1 else proc_ppid q')" using cell by blast
    show "if proc_pid q \<in> R then proc_ppid q = proc_pid q
        else \<exists>b. T (proc_ppid q) = Some b \<and> (if b = i then 0 else rank b + 1) < (if x = i then 0 else rank x + 1)"
      using rootedD [OF f(3) q'(1)] q' cs [of x] assms(3,4) r by auto
  qed
  ultimately show ?thesis unfolding forest_def by blast
qed

text \<open>The removal of \<open>X\<close>, a process with all its descendants.\<close>

definition pids_of :: "(addr \<rightharpoonup> process) \<Rightarrow> addr set \<Rightarrow> pid set" where
  "pids_of h X = {k. \<exists>x \<in> X. \<exists>p. h x = Some p \<and> proc_pid p = k}"

lemma forest_remove:
  assumes "forest T h R" and "h a = Some p" and "proc_pid p \<notin> R" and "T (proc_ppid p) = Some b" and "h b = Some q"
    and X: "a \<in> X" "b \<notin> X" "X \<subseteq> dom h"
    and down: "\<And>x px c. x \<in> X \<Longrightarrow> h x = Some px \<Longrightarrow> c \<in> set (proc_children px) \<Longrightarrow> c \<in> X"
    and up: "\<And>x. x \<in> X \<Longrightarrow> x \<noteq> a \<Longrightarrow> \<exists>y py. y \<in> X \<and> h y = Some py \<and> x \<in> set (proc_children py)"
  shows "forest (T |` (- pids_of h X)) ((h(b \<mapsto> q\<lparr> proc_children := remove1 a (proc_children q) \<rparr>)) |` (- X)) R"
    (is "forest ?T ?h R")
proof -
  from assms(1) obtain rank where f: "linked T h" "listed h" "rooted T h R rank" by (auto simp: forest_def)
  have q: "proc_pid q = proc_ppid p" using linkedD(1) [OF f(1) assms(4)] assms(5) by auto
  have cell: "\<exists>r'. h x = Some r' \<and> x \<notin> X \<and> proc_pid r = proc_pid r' \<and> proc_ppid r = proc_ppid r' \<and>
      proc_children r = (if x = b then remove1 a (proc_children r') else proc_children r')" if "?h x = Some r" for x r
    using that assms(5) by (auto simp: restrict_map_def split: if_splits)
  have cell2: "\<exists>r. ?h x = Some r \<and> proc_pid r = proc_pid r' \<and> proc_ppid r = proc_ppid r'" if "h x = Some r'" "x \<notin> X" for x r'
    using that assms(5) by (auto simp: restrict_map_def)
  have pids: "proc_pid r \<in> pids_of h X \<longleftrightarrow> x \<in> X" if "h x = Some r" for x r
    using that linkedD(3) [OF f(1)] unfolding pids_of_def by blast
  have parent: "\<exists>y py. y \<in> X \<and> h y = Some py \<and> proc_ppid r = proc_pid py" if "x \<in> X" "x \<noteq> a" "h x = Some r" for x r
    using up [OF that(1,2)] listedD(2) [OF f(2)] that(3) by (metis option.inject)
  have "linked ?T ?h" unfolding linked_def
  proof (intro allI)
    fix k x
    show "?T k = Some x \<longleftrightarrow> (\<exists>r. ?h x = Some r \<and> proc_pid r = k)"
    proof
      assume "?T k = Some x"
      then have k: "T k = Some x" "k \<notin> pids_of h X" by (auto simp: restrict_map_def split: if_splits)
      with linkedD(1) [OF f(1) k(1)] pids show "\<exists>r. ?h x = Some r \<and> proc_pid r = k" using cell2 by metis
    next
      assume "\<exists>r. ?h x = Some r \<and> proc_pid r = k"
      then show "?T k = Some x"
        using cell linkedD(2) [OF f(1)] pids by (metis ComplI restrict_in)
    qed
  qed
  moreover have "listed ?h" unfolding listed_def
  proof (intro allI impI)
    fix x r assume x: "?h x = Some r"
    from cell [OF x] obtain r' where r': "h x = Some r'" "x \<notin> X" "proc_pid r = proc_pid r'"
      "proc_children r = (if x = b then remove1 a (proc_children r') else proc_children r')" by blast
    note d = listedD [OF f(2) r'(1)]
    have "c \<in> set (proc_children r) \<longleftrightarrow> (\<exists>s. ?h c = Some s \<and> proc_ppid s = proc_pid r \<and> c \<noteq> x)" for c
    proof (cases "c \<in> X")
      case True
      have "c \<notin> set (proc_children r')" if "c \<noteq> a"
        using parent [OF True that] d(2) [of c] linkedD(3) [OF f(1) r'(1)] r'(2) by metis
      moreover have "a \<in> set (proc_children r') \<longleftrightarrow> x = b"
        using d(2) [of a] assms(2,5) q linkedD(3) [OF f(1) r'(1) assms(5)] X r' by (metis option.inject)
      ultimately show ?thesis using True r' d(1) by (auto simp: restrict_map_def)
    next
      case False
      then have "(\<exists>s. ?h c = Some s \<and> proc_ppid s = k \<and> c \<noteq> x) \<longleftrightarrow> (\<exists>s. h c = Some s \<and> proc_ppid s = k \<and> c \<noteq> x)" for k
        using cell [of c] cell2 [of c] by metis
      moreover have "c \<noteq> a" using False X(1) by blast
      ultimately show ?thesis using d(2) [of c] r'(3,4) by simp
    qed
    moreover have "distinct (proc_children r)" using d(1) r' by simp
    ultimately show "distinct (proc_children r) \<and>
        set (proc_children r) = {c. \<exists>s. ?h c = Some s \<and> proc_ppid s = proc_pid r \<and> c \<noteq> x}" by auto
  qed
  moreover have "rooted ?T ?h R rank" unfolding rooted_def
  proof (intro allI impI)
    fix x r assume "?h x = Some r"
    then obtain r' where r': "h x = Some r'" "x \<notin> X" "proc_pid r = proc_pid r'" "proc_ppid r = proc_ppid r'"
      using cell by blast
    have "c \<notin> X" if "T (proc_ppid r') = Some c" "proc_pid r' \<notin> R" for c
      using forest_parent [OF assms(1) r'(1) that(2)] that(1) down r'(2) by (metis option.inject)
    then show "if proc_pid r \<in> R then proc_ppid r = proc_pid r
        else \<exists>c. ?T (proc_ppid r) = Some c \<and> rank c < rank x"
      using rootedD [OF f(3) r'(1)] r'(3,4) pids linkedD(1) [OF f(1)] by (metis ComplI restrict_in)
  qed
  ultimately show ?thesis unfolding forest_def by blast
qed

section \<open>Trees of processes\<close>

datatype ptree = Node (root: addr) "ptree list"

fun nodes :: "ptree \<Rightarrow> addr list" where
  "nodes (Node a ts) = a # concat (map nodes ts)"

fun heap_tree :: "(addr \<rightharpoonup> process) \<Rightarrow> ptree \<Rightarrow> bool" where
  "heap_tree h (Node a ts) \<longleftrightarrow> (\<exists>p. h a = Some p \<and> proc_children p = map root ts) \<and> (\<forall>t \<in> set ts. heap_tree h t)"

lemma heap_tree_cong: "(\<And>x. x \<in> set (nodes t) \<Longrightarrow> h x = h' x) \<Longrightarrow> heap_tree h t \<longleftrightarrow> heap_tree h' t"
  by (induction h t rule: heap_tree.induct) fastforce

lemma nodes_allocated: "heap_tree h t \<Longrightarrow> x \<in> set (nodes t) \<Longrightarrow> \<exists>p. h x = Some p"
  by (induction h t rule: heap_tree.induct) auto

lemma root_node [simp]: "root t \<in> set (nodes t)"
  by (cases t) simp

definition edges :: "(addr \<rightharpoonup> process) \<Rightarrow> (addr \<times> addr) set" where
  "edges h = {(c, a). \<exists>p. h a = Some p \<and> c \<in> set (proc_children p)}"

definition below :: "(addr \<rightharpoonup> process) \<Rightarrow> addr \<Rightarrow> addr set" where
  "below h a = {x. (x, a) \<in> (edges h)\<^sup>*}"

lemma below_unfold:
  assumes "h a = Some p"
  shows "below h a = insert a (\<Union>c \<in> set (proc_children p). below h c)"
proof -
  have "(x, a) \<in> (edges h)\<^sup>* \<longleftrightarrow> x = a \<or> (\<exists>c. (x, c) \<in> (edges h)\<^sup>* \<and> (c, a) \<in> edges h)" for x
    by (metis rtrancl.simps)
  then show ?thesis using assms by (auto simp: below_def edges_def)
qed

lemma edges_single: "forest T h R \<Longrightarrow> single_valued (edges h)"
proof (rule single_valuedI)
  fix c a b assume f: "forest T h R" and "(c, a) \<in> edges h" "(c, b) \<in> edges h"
  then obtain p q where "h a = Some p" "c \<in> set (proc_children p)" "h b = Some q" "c \<in> set (proc_children q)"
    by (auto simp: edges_def)
  then show "a = b" using forest_child [OF f] linkedD(3) f unfolding forest_def by (metis option.inject)
qed

lemma edges_rank:
  assumes "linked T h" and "listed h" and "rooted T h R rank" and "(c, a) \<in> edges h"
  shows "rank a < rank c"
proof -
  obtain p where p: "h a = Some p" "c \<in> set (proc_children p)" using assms(4) by (auto simp: edges_def)
  have f: "forest T h R" using assms(1-3) by (auto simp: forest_def)
  obtain q where q: "h c = Some q" "proc_ppid q = proc_pid p" "proc_pid q \<notin> R" using forest_child [OF f p] by blast
  then obtain b where "T (proc_ppid q) = Some b" "rank b < rank c" using rootedD(2) [OF assms(3)] by blast
  then show ?thesis using linkedD(2) [OF assms(1) p(1)] q(2) by simp
qed

lemma below_rank:
  assumes "linked T h" and "listed h" and "rooted T h R rank" and "x \<in> below h a"
  shows "rank a \<le> rank x"
  using assms(4) unfolding below_def mem_Collect_eq
  by (induction rule: converse_rtrancl_induct) (use edges_rank [OF assms(1-3)] in fastforce)+

lemma below_disjoint:
  assumes f: "linked T h" "listed h" "rooted T h R rank" and "h a = Some p"
    and "c \<in> set (proc_children p)" and "d \<in> set (proc_children p)" and "c \<noteq> d"
  shows "below h c \<inter> below h d = {}"
proof (rule ccontr)
  have one: False if e: "(c', d') \<in> (edges h)\<^sup>*" "c' \<noteq> d'" "(c', a) \<in> edges h" "(d', a) \<in> edges h" for c' d'
  proof -
    obtain y where "(c', y) \<in> edges h" "(y, d') \<in> (edges h)\<^sup>*" using e(1,2) by (metis converse_rtranclE)
    moreover have "single_valued (edges h)" using edges_single f unfolding forest_def by blast
    ultimately have "a \<in> below h d'" using e(3) by (auto simp: below_def dest: single_valuedD)
    then show False using below_rank [OF f] edges_rank [OF f e(4)] by fastforce
  qed
  assume "below h c \<inter> below h d \<noteq> {}"
  then obtain x where "(x, c) \<in> (edges h)\<^sup>*" "(x, d) \<in> (edges h)\<^sup>*" by (auto simp: below_def)
  moreover have "single_valued (edges h)" using edges_single f unfolding forest_def by blast
  ultimately have "(c, d) \<in> (edges h)\<^sup>* \<or> (d, c) \<in> (edges h)\<^sup>*" by (metis single_valued_confluent)
  moreover have "(c, a) \<in> edges h" "(d, a) \<in> edges h" using assms(4-6) by (auto simp: edges_def)
  ultimately show False using one assms(7) by blast
qed

lemma tree_exists:
  assumes f: "linked T h" "listed h" "rooted T h R rank" and fin: "finite (dom h)"
  shows "h a = Some p \<Longrightarrow> \<exists>t. root t = a \<and> heap_tree h t \<and> distinct (nodes t) \<and> set (nodes t) = below h a"
proof (induction "card {b \<in> dom h. rank a < rank b}" arbitrary: a p rule: less_induct)
  case less
  let ?cs = "proc_children p"
  have child: "rank a < rank c" "\<exists>q. h c = Some q" if "c \<in> set ?cs" for c
    using that less.prems edges_rank [OF f, of c a] listedD(2) [OF f(2) less.prems, of c] by (auto simp: edges_def)
  have "\<exists>t. root t = c \<and> heap_tree h t \<and> distinct (nodes t) \<and> set (nodes t) = below h c" if c: "c \<in> set ?cs" for c
  proof -
    from child(2) [OF c] obtain q where q: "h c = Some q" by blast
    have "card {b \<in> dom h. rank c < rank b} < card {b \<in> dom h. rank a < rank b}"
      using child [OF c] fin by (intro psubset_card_mono) auto
    then show ?thesis by (rule less.hyps) (rule q)
  qed
  then obtain t where t: "\<And>c. c \<in> set ?cs \<Longrightarrow>
      root (t c) = c \<and> heap_tree h (t c) \<and> distinct (nodes (t c)) \<and> set (nodes (t c)) = below h c" by metis
  let ?t = "Node a (map t ?cs)"
  have "heap_tree h ?t" using t less.prems by (auto simp: comp_def map_idI)
  moreover have "a \<notin> set (nodes (t c))" if "c \<in> set ?cs" for c
    using t [OF that] child(1) [OF that] below_rank [OF f, of a c] by auto
  moreover have "set (nodes (t c)) \<inter> set (nodes (t d)) = {}" if "c \<in> set ?cs" "d \<in> set ?cs" "c \<noteq> d" for c d
    using t that below_disjoint [OF f less.prems that] by auto
  then have "distinct (concat (map (nodes \<circ> t) ds))" if "distinct ds" "set ds \<subseteq> set ?cs" for ds
    using that t by (induction ds) fastforce+
  ultimately have "distinct (nodes ?t)"
    using listedD(1) [OF f(2) less.prems] by auto
  moreover have "set (nodes ?t) = below h a" using t below_unfold [of h a p, OF less.prems] by auto
  ultimately show ?case using \<open>heap_tree h ?t\<close> by (intro exI [of _ ?t]) simp
qed

section \<open>Dropping a tree\<close>

definition removed :: "'t proc_ops \<Rightarrow> addr set \<Rightarrow> 't procs \<Rightarrow> 't procs \<Rightarrow> bool" where
  "removed H X s s' \<longleftrightarrow>
     heap s' = heap s |` (- X) \<and>
     ht_get H (processes s') = ht_get H (processes s) |` (- pids_of (heap s) X) \<and>
     ready s' = filter (\<lambda>a. a \<notin> X) (ready s) \<and>
     next_addr s' = next_addr s \<and> proc_init s' = proc_init s \<and> proc_self s' = proc_self s"

lemma removed_empty: "removed H {} s s"
  by (simp add: removed_def pids_of_def restrict_map_def)

lemma pids_of_Un: "pids_of h (X \<union> Y) = pids_of h X \<union> pids_of h Y"
  by (auto simp: pids_of_def)

lemma pids_of_cong: "(\<And>x. x \<in> X \<Longrightarrow> h x = h' x) \<Longrightarrow> pids_of h X = pids_of h' X"
  by (auto simp: pids_of_def)

lemma removed_trans:
  assumes "removed H X s s1" and "removed H Y s1 s2" and "X \<inter> Y = {}"
  shows "removed H (X \<union> Y) s s2"
proof -
  have "pids_of (heap s |` (- X)) Y = pids_of (heap s) Y"
    using assms(3) by (intro pids_of_cong) (auto simp: restrict_map_def)
  then show ?thesis
    using assms(1,2) by (simp add: removed_def pids_of_Un restrict_restrict Int_commute conj_commute)
qed

locale proc_table = hash_table H for H :: "'t proc_ops"
begin

lemma removed_linked:
  assumes "removed H X s s'" and "linked (ht_get H (processes s)) (heap s)"
  shows "linked (ht_get H (processes s')) (heap s')"
proof -
  have pids: "proc_pid p \<in> pids_of (heap s) X \<longleftrightarrow> x \<in> X" if "heap s x = Some p" for x p
    using that linkedD(3) [OF assms(2)] unfolding pids_of_def by blast
  show ?thesis
    using assms pids unfolding removed_def linked_def by (auto simp: restrict_map_def split: if_splits)
qed

lemma linked_set: "linked T h \<Longrightarrow> h a = Some p \<Longrightarrow> proc_pid p' = proc_pid p \<Longrightarrow> linked T (h(a \<mapsto> p'))"
  unfolding linked_def by (metis fun_upd_apply option.inject)

definition droppable :: "'t procs \<Rightarrow> addr list \<Rightarrow> bool" where
  "droppable s xs \<longleftrightarrow> distinct xs \<and> linked (ht_get H (processes s)) (heap s) \<and> distinct (ready s)"

lemma drop_node:
  assumes IH: "\<And>s a p ts. heap s a = Some p \<Longrightarrow> proc_children p = map root ts \<Longrightarrow> (\<forall>t \<in> set ts. heap_tree (heap s) t) \<Longrightarrow>
      droppable s (a # concat (map nodes ts)) \<Longrightarrow> 2 * length (concat (map nodes ts)) + 1 \<le> n \<Longrightarrow>
      \<exists>s'. drop_children n H s a = Defined s' \<and>
        removed H (set (concat (map nodes ts))) (set_proc a (p\<lparr> proc_children := [] \<rparr>) s) s'"
    and "heap_tree (heap s) t" and "droppable s (nodes t)" and "2 * length (nodes t) \<le> Suc n"
  shows "\<exists>s'. process_drop_recursive (Suc n) H s (root t) = Defined s' \<and> removed H (set (nodes t)) s s'"
proof -
  obtain a ts where t: "t = Node a ts" by (cases t)
  let ?N = "set (concat (map nodes ts))"
  from assms(2) t obtain p where p: "heap s a = Some p" "proc_children p = map root ts" by auto
  have a: "a \<notin> ?N" and link: "linked (ht_get H (processes s)) (heap s)" and dr: "distinct (ready s)"
    using assms(3) t by (auto simp: droppable_def)
  define p0 where "p0 = p\<lparr> proc_ppid := 0 \<rparr>"
  define s0 where "s0 = set_proc a p0 s"
  have "heap_tree (heap s0) u" if "u \<in> set ts" for u
    using assms(2) t that a by (subst heap_tree_cong [of u _ "heap s"]) (auto simp: s0_def)
  moreover have "droppable s0 (a # concat (map nodes ts))"
    using assms(3) t p linked_set [OF link p(1), of p0] by (simp add: droppable_def s0_def p0_def)
  ultimately obtain s1 where s1: "drop_children n H s0 a = Defined s1"
      "removed H ?N (set_proc a (p0\<lparr> proc_children := [] \<rparr>) s0) s1"
    using IH [of s0 a p0 ts] p assms(4) t by (auto simp: s0_def p0_def)
  then have h1: "heap s1 a = Some (p0\<lparr> proc_children := [] \<rparr>)" using a by (simp add: removed_def)
  have pids: "pids_of ((heap s)(a \<mapsto> q)) ?N = pids_of (heap s) ?N" for q
    using a by (intro pids_of_cong) auto
  define s2 where "s2 = s1\<lparr> heap := (heap s1)(a := None), processes := snd (ht_pop H (processes s1) (proc_pid p)),
      ready := (if a \<in> set (ready s1) then remove1 a (ready s1) else ready s1) \<rparr>"
  have "process_drop_recursive (Suc n) H s (root t) = Defined s2"
    using t p(1) s1(1) h1 by (simp add: s0_def p0_def s2_def process_destroy_def)
  moreover have "heap s2 = heap s |` (- set (nodes t))"
    using s1(2) t by (auto simp: removed_def s0_def s2_def restrict_map_def fun_eq_iff)
  moreover have "ht_get H (processes s1) = ht_get H (processes s) |` (- pids_of (heap s) ?N)"
    using s1(2) unfolding removed_def s0_def set_proc_sel fun_upd_upd pids by blast
  moreover have "pids_of (heap s) (set (nodes t)) = insert (proc_pid p) (pids_of (heap s) ?N)"
    using t p(1) by (auto simp: pids_of_def)
  ultimately have "ht_get H (processes s2) = ht_get H (processes s) |` (- pids_of (heap s) (set (nodes t)))"
      "process_drop_recursive (Suc n) H s (root t) = Defined s2" "heap s2 = heap s |` (- set (nodes t))"
    by (auto simp: s2_def restrict_map_def fun_eq_iff)
  moreover have "ready s2 = filter (\<lambda>x. x \<notin> set (nodes t)) (ready s)"
    using s1(2) t dr by (auto simp: removed_def s0_def s2_def distinct_remove1_removeAll removeAll_filter_not_eq conj_commute
        intro!: filter_cong)
  ultimately show ?thesis using s1(2) by (auto simp: removed_def s0_def s2_def)
qed

lemma drop_loop:
  assumes IH1: "\<And>s t. heap_tree (heap s) t \<Longrightarrow> droppable s (nodes t) \<Longrightarrow> 2 * length (nodes t) \<le> n \<Longrightarrow>
      \<exists>s'. process_drop_recursive n H s (root t) = Defined s' \<and> removed H (set (nodes t)) s s'"
    and IH2: "\<And>s a p ts. heap s a = Some p \<Longrightarrow> proc_children p = map root ts \<Longrightarrow> (\<forall>t \<in> set ts. heap_tree (heap s) t) \<Longrightarrow>
      droppable s (a # concat (map nodes ts)) \<Longrightarrow> 2 * length (concat (map nodes ts)) + 1 \<le> n \<Longrightarrow>
      \<exists>s'. drop_children n H s a = Defined s' \<and>
        removed H (set (concat (map nodes ts))) (set_proc a (p\<lparr> proc_children := [] \<rparr>) s) s'"
    and p: "heap s a = Some p" "proc_children p = map root ts" and ht: "\<forall>t \<in> set ts. heap_tree (heap s) t"
    and d: "droppable s (a # concat (map nodes ts))" and n: "2 * length (concat (map nodes ts)) + 1 \<le> Suc n"
  shows "\<exists>s'. drop_children (Suc n) H s a = Defined s' \<and>
    removed H (set (concat (map nodes ts))) (set_proc a (p\<lparr> proc_children := [] \<rparr>) s) s'"
proof (cases ts)
  case Nil
  then have "set_proc a (p\<lparr> proc_children := [] \<rparr>) s = s" using p by (cases s) (auto simp: set_proc_def)
  then show ?thesis using Nil p removed_empty by simp
next
  case (Cons t us)
  let ?M = "set (nodes t)" and ?N = "set (concat (map nodes us))"
  define q where "q = p\<lparr> proc_children := map root us \<rparr>"
  define s0 where "s0 = set_proc a q s"
  have a: "a \<notin> ?M" "a \<notin> ?N" and MN: "?M \<inter> ?N = {}" and link: "linked (ht_get H (processes s)) (heap s)"
    using d Cons by (auto simp: droppable_def)
  have len: "2 * length (nodes t) \<le> n" "2 * length (concat (map nodes us)) + 1 \<le> n"
    using n Cons by (cases t; simp)+
  have "heap_tree (heap s0) u" if "u \<in> set ts" for u
    using ht that a Cons by (subst heap_tree_cong [of u _ "heap s"]) (auto simp: s0_def)
  moreover have "droppable s0 (nodes t)"
    using d Cons linked_set [OF link p(1), of q] by (simp add: droppable_def s0_def q_def)
  ultimately obtain s1 where s1: "process_drop_recursive n H s0 (root t) = Defined s1" "removed H ?M s0 s1"
    using IH1 [of s0 t] len(1) Cons by auto
  have h1: "heap s1 a = Some q" using s1(2) a by (simp add: removed_def s0_def)
  have "heap_tree (heap s1) u" if "u \<in> set us" for u
    using ht that a MN Cons s1(2)
    by (subst heap_tree_cong [of u _ "heap s"]) (auto simp: removed_def s0_def restrict_map_def)
  moreover have "droppable s1 (a # concat (map nodes us))"
    using d Cons removed_linked [OF s1(2)] linked_set [OF link p(1), of q] s1(2)
    by (simp add: droppable_def s0_def q_def removed_def)
  ultimately obtain s2 where s2: "drop_children n H s1 a = Defined s2"
      "removed H ?N (set_proc a (q\<lparr> proc_children := [] \<rparr>) s1) s2"
    using IH2 [of s1 a q us] h1 len(2) by (auto simp: q_def)
  have "pids_of ((heap s)(a \<mapsto> r)) ?M = pids_of (heap s) ?M" for r
    using a by (intro pids_of_cong) auto
  then have "removed H ?M (set_proc a (p\<lparr> proc_children := [] \<rparr>) s) (set_proc a (q\<lparr> proc_children := [] \<rparr>) s1)"
    using s1(2) a by (auto simp: removed_def s0_def q_def restrict_map_def fun_eq_iff)
  from removed_trans [OF this s2(2) MN] show ?thesis
    using p Cons s1(1) s2(1) by (auto simp: s0_def q_def)
qed

lemma drop_tree:
  "heap_tree (heap s) t \<Longrightarrow> droppable s (nodes t) \<Longrightarrow> 2 * length (nodes t) \<le> n \<Longrightarrow>
    \<exists>s'. process_drop_recursive n H s (root t) = Defined s' \<and> removed H (set (nodes t)) s s'"
  and drop_subtrees: "heap s a = Some p \<Longrightarrow> proc_children p = map root ts \<Longrightarrow> (\<forall>t \<in> set ts. heap_tree (heap s) t) \<Longrightarrow>
    droppable s (a # concat (map nodes ts)) \<Longrightarrow> 2 * length (concat (map nodes ts)) + 1 \<le> n \<Longrightarrow>
    \<exists>s'. drop_children n H s a = Defined s' \<and>
      removed H (set (concat (map nodes ts))) (set_proc a (p\<lparr> proc_children := [] \<rparr>) s) s'"
proof (induction n arbitrary: s t a p ts)
  case 0
  { case 1 then show ?case by (cases t) simp
  next case 2 then show ?case by simp }
next
  case (Suc n)
  { case 1 then show ?case by (intro drop_node [OF Suc.IH(2)])
  next case 2 then show ?case by (intro drop_loop [OF Suc.IH(1,2)]) }
qed

end

section \<open>Operations under the invariant\<close>

context proc_table
begin

abbreviation T :: "'t procs \<Rightarrow> pid \<rightharpoonup> addr" where
  "T s \<equiv> ht_get H (processes s)"

lemma invD:
  assumes "pw_inv H me s"
  shows "forest (T s) (heap s) {1, me}" "me \<noteq> 1" "\<exists>i. proc_init s = Some i \<and> T s 1 = Some i"
    "\<exists>a. proc_self s = Some a \<and> T s me = Some a" "distinct (ready s)"
    "a \<in> set (ready s) \<Longrightarrow> \<exists>p. heap s a = Some p \<and> proc_children p = [] \<and> proc_pid p \<notin> {1, me}"
    "heap s a = Some p \<Longrightarrow> a < next_addr s"
  using assms unfolding pw_inv_def by auto

lemma inv_linked: "pw_inv H me s \<Longrightarrow> linked (T s) (heap s)"
  and inv_listed: "pw_inv H me s \<Longrightarrow> listed (heap s)"
  using invD(1) unfolding forest_def by blast+

lemma inv_get:
  assumes "pw_inv H me s"
  shows "T s pid = Some a \<longleftrightarrow> (\<exists>p. heap s a = Some p \<and> proc_pid p = pid)"
  using inv_linked [OF assms] unfolding linked_def by blast

lemma inv_finite: "pw_inv H me s \<Longrightarrow> finite (dom (heap s)) \<and> card (dom (heap s)) = ht_size H (processes s)"
proof -
  assume inv: "pw_inv H me s"
  have "bij_betw (\<lambda>pid. the (T s pid)) (dom (T s)) (dom (heap s))"
  proof (rule bij_betw_imageI)
    show "inj_on (\<lambda>pid. the (T s pid)) (dom (T s))"
    proof (rule inj_onI)
      fix x y assume "x \<in> dom (T s)" "y \<in> dom (T s)" "the (T s x) = the (T s y)"
      then obtain a where "T s x = Some a" "T s y = Some a" by auto
      then show "x = y" using linkedD(1) [OF inv_linked [OF inv]] by (metis option.inject)
    qed
    show "(\<lambda>pid. the (T s pid)) ` dom (T s) = dom (heap s)"
    proof (intro equalityI subsetI)
      fix a assume "a \<in> (\<lambda>pid. the (T s pid)) ` dom (T s)"
      then obtain x where "T s x = Some a" by auto
      then show "a \<in> dom (heap s)" using linkedD(1) [OF inv_linked [OF inv]] by blast
    next
      fix a assume "a \<in> dom (heap s)"
      then obtain p where "heap s a = Some p" by blast
      then have "T s (proc_pid p) = Some a" by (rule linkedD(2) [OF inv_linked [OF inv]])
      then show "a \<in> (\<lambda>pid. the (T s pid)) ` dom (T s)" by (metis domI image_eqI option.sel)
    qed
  qed
  then show ?thesis using size_card by (metis bij_betw_finite bij_betw_same_card finite_dom)
qed

lemma tracked_abs:
  assumes "pw_inv H me s"
  shows "tracked (abs_table H s) pid = Some i \<longleftrightarrow> (\<exists>a p. T s pid = Some a \<and> heap s a = Some p \<and> info p = i)"
    and "tracked (abs_table H s) pid = None \<longleftrightarrow> T s pid = None"
proof -
  show "tracked (abs_table H s) pid = Some i \<longleftrightarrow> (\<exists>a p. T s pid = Some a \<and> heap s a = Some p \<and> info p = i)"
    by (cases "T s pid") (auto simp: abs_table_def)
  show "tracked (abs_table H s) pid = None \<longleftrightarrow> T s pid = None"
    using linkedD(1) [OF inv_linked [OF assms], of pid] by (cases "T s pid") (auto simp: abs_table_def)
qed

lemma exited_abs:
  assumes inv: "pw_inv H me s" and p: "heap s a = Some p"
  shows "proc_pid p \<in> set (exited (abs_table H s)) \<longleftrightarrow> a \<in> set (ready s)"
proof
  assume "proc_pid p \<in> set (exited (abs_table H s))"
  then obtain b where b: "b \<in> set (ready s)" "proc_pid p = proc_pid (the (heap s b))" by (auto simp: abs_table_def)
  moreover obtain q where "heap s b = Some q" using invD(6) [OF inv b(1)] by blast
  ultimately show "a \<in> set (ready s)" using linkedD(3) [OF inv_linked [OF inv] p, of b q] by simp
next
  assume "a \<in> set (ready s)"
  then show "proc_pid p \<in> set (exited (abs_table H s))" using p by (force simp: abs_table_def)
qed

lemma reparent_loop_adopt:
  assumes "proc_init s = Some i" and "a \<noteq> i" and "a \<notin> set cs" and "i \<notin> set cs"
    and "heap s a = Some p" and "proc_children p = cs" and "heap s i = Some r" and "\<forall>c \<in> set cs. \<exists>q. heap s c = Some q"
  shows "reparent_loop s a cs = Defined (s\<lparr> heap := adopt a i cs (heap s) \<rparr>)"
  using assms
proof (induction cs arbitrary: s p r)
  case Nil
  then have "adopt a i [] (heap s) = heap s" by (auto simp: adopt_def fun_eq_iff map_option_case split: option.split)
  then show ?case by simp
next
  case (Cons c cs)
  then obtain q where q: "heap s c = Some q" by auto
  define s' where "s' = set_proc i (r\<lparr> proc_children := proc_children r @ [c] \<rparr>)
      (set_proc c (q\<lparr> proc_ppid := 1 \<rparr>) (set_proc a (p\<lparr> proc_children := cs \<rparr>) s))"
  have "reparent_loop s a (c # cs) = reparent_loop s' a cs"
    using Cons.prems q by (simp add: s'_def)
  also have "\<dots> = Defined (s'\<lparr> heap := adopt a i cs (heap s') \<rparr>)"
    using Cons.prems q by (intro Cons.IH) (auto simp: s'_def)
  also have "s'\<lparr> heap := adopt a i cs (heap s') \<rparr> = s\<lparr> heap := adopt a i (c # cs) (heap s) \<rparr>"
    using Cons.prems q by (cases s) (auto simp: s'_def set_proc_def adopt_def fun_eq_iff map_option_case split: option.split)
  finally show ?case .
qed

lemma unparent_ok:
  assumes inv: "pw_inv H me s" and p: "heap s a = Some p" "proc_pid p \<notin> {1, me}"
  obtains b q where "T s (proc_ppid p) = Some b" "heap s b = Some q" "b \<noteq> a" "a \<in> set (proc_children q)"
    "process_unparent H s a = Defined (set_proc b (q\<lparr> proc_children := remove1 a (proc_children q) \<rparr>) s)"
proof -
  from forest_parent [OF invD(1) [OF inv] p] obtain b q where "T s (proc_ppid p) = Some b" "heap s b = Some q"
    "b \<noteq> a" "a \<in> set (proc_children q)" by blast
  with p that show ?thesis by (simp add: process_unparent_def process_get_def)
qed

end

end
