(* ===== verification/Control.thy ===== *)
theory Control
  imports Service Noise Procwatch
begin

unbundle bit_operations_syntax

text \<open>
  The control protocol of the monitor in \<^verbatim>\<open>src/sysvrun/monitor.c\<close>: the states of a service, the session that the
  monitor serves on its control socket, and the functions that a client calls. The buffers of both sides are
  explicit, since the code reads C strings from them: a read only replaces the bytes that it delivers. The results
  of the system calls are arguments.
\<close>

section \<open>States\<close>

datatype monitor_state =
    MS_ERROR | MS_IDLE | MS_RESTARTING | MS_STARTING | MS_RUNNING | MS_REMAINING | MS_STOPPING | MS_STOPPED | MS_FAILED | MS_DEAD

fun state_num :: "monitor_state \<Rightarrow> int" where
  "state_num MS_ERROR = -1"
| "state_num MS_IDLE = 0"
| "state_num MS_RESTARTING = 1"
| "state_num MS_STARTING = 2"
| "state_num MS_RUNNING = 3"
| "state_num MS_REMAINING = 4"
| "state_num MS_STOPPING = 5"
| "state_num MS_STOPPED = 6"
| "state_num MS_FAILED = 7"
| "state_num MS_DEAD = 8"

definition MS_NUM_STATES :: int where "MS_NUM_STATES = 9"

definition monitor_state_names :: "(string \<times> monitor_state) list" where
  "monitor_state_names =
     [(''idle'', MS_IDLE), (''restarting'', MS_RESTARTING), (''starting'', MS_STARTING), (''running'', MS_RUNNING),
      (''remaining'', MS_REMAINING), (''stopping'', MS_STOPPING), (''stopped'', MS_STOPPED), (''failed'', MS_FAILED),
      (''dead'', MS_DEAD)]"

definition monitor_state_from_name :: "string \<Rightarrow> monitor_state" where
  "monitor_state_from_name name = (case map_of monitor_state_names name of None \<Rightarrow> MS_ERROR | Some st \<Rightarrow> st)"

definition monitor_state_name :: "monitor_state \<Rightarrow> string" where
  "monitor_state_name st = (if st = MS_ERROR then ''error'' else fst (monitor_state_names ! nat (state_num st)))"

definition monitor_is_waiting :: "monitor_state \<Rightarrow> bool" where
  "monitor_is_waiting st \<longleftrightarrow> st = MS_RESTARTING \<or> st = MS_REMAINING"

definition monitor_is_stopping :: "monitor_state \<Rightarrow> bool" where
  "monitor_is_stopping st \<longleftrightarrow> st = MS_RESTARTING \<or> st = MS_STOPPING"

section \<open>The socket\<close>

definition sun_path_size :: nat where "sun_path_size = 108"

text \<open>The length of the address and its path, which starts with a NUL, or the error.\<close>

definition monitor_socket_addr :: "string \<Rightarrow> string \<Rightarrow> errno + nat \<times> string" where
  "monitor_socket_addr self_base name =
     (let path = [NUL] @ self_base @ ''/'' @ name @ DOT_SERVICE
      in if length path \<ge> sun_path_size then Inl ENAMETOOLONG else Inr (2 + length path, path))"

text \<open>\<^verbatim>\<open>monitor_control_listen\<close>: the error, if any, and the socket.\<close>

definition monitor_control_listen ::
  "string \<Rightarrow> string \<Rightarrow> errno + int \<Rightarrow> errno option \<Rightarrow> errno option \<Rightarrow> int \<Rightarrow> errno option \<times> int" where
  "monitor_control_listen self_base name socket_result bind_result listen_result sock =
     (case monitor_socket_addr self_base name of
        Inl e \<Rightarrow> (Some e, sock)
      | Inr addr \<Rightarrow>
          (case socket_result of
             Inl e \<Rightarrow> (Some e, -1)
           | Inr fd \<Rightarrow>
               (case bind_result of
                  Some e \<Rightarrow> (Some e, -1)
                | None \<Rightarrow> (case listen_result of Some e \<Rightarrow> (Some e, -1) | None \<Rightarrow> (None, fd)))))"

section \<open>Buffers\<close>

abbreviation CR :: char where "CR \<equiv> CHR 0x0D"

definition BUFSIZE :: nat where "BUFSIZE = 4096"

text \<open>The C string at the start of a buffer; there may be no end of it.\<close>

definition cstr :: "string \<Rightarrow> string outcome" where
  "cstr buf = (if NUL \<in> set buf then Defined (takeWhile (\<lambda>c. c \<noteq> NUL) buf) else UB)"

text \<open>\<^verbatim>\<open>strcmp (buf, lit) == 0\<close>, which reads no further than the first difference.\<close>

definition str_is :: "string \<Rightarrow> string \<Rightarrow> bool" where
  "str_is buf lit \<longleftrightarrow> take (length lit + 1) buf = lit @ [NUL]"

text \<open>A buffer after \<^verbatim>\<open>read\<close> has delivered \<open>data\<close> and the loop behind it has replaced white space at the end.\<close>

fun trim_loop :: "nat \<Rightarrow> string \<Rightarrow> string" where
  "trim_loop 0 buf = buf"
| "trim_loop (Suc n) buf = (if isspace (buf ! n) then trim_loop n (buf[n := NUL]) else buf)"

definition read_trim :: "string \<Rightarrow> string \<Rightarrow> string" where
  "read_trim data buf = trim_loop (length data) (data @ drop (length data) buf)"

text \<open>\<^verbatim>\<open>snprintf\<close> of a string, and the two characters and the NUL that follow it.\<close>

definition put_line :: "string \<Rightarrow> string \<Rightarrow> string" where
  "put_line str buf = str @ [CR, NL, NUL] @ drop (length str + 3) buf"

section \<open>Serving a session\<close>

definition MONITOR_CONTROL_VERSION :: nat where "MONITOR_CONTROL_VERSION = 20220303"
definition MONITOR_CONTROL_MAX_SESSION_DURATION :: u64 where "MONITOR_CONTROL_MAX_SESSION_DURATION = 100 * 1000"

definition banner :: string where
  "banner = ''{\"version\": \"'' @ decimal MONITOR_CONTROL_VERSION @ ''\"}''"

text \<open>
  A request: the reply, the state and the noise level. The request is given by the comparisons with it.
\<close>

definition handle_request :: "bool \<Rightarrow> (string \<Rightarrow> bool) \<Rightarrow> monitor_state \<Rightarrow> int \<Rightarrow> string \<times> monitor_state \<times> int" where
  "handle_request privileged req st noisy =
     (if req ''status'' then
        (if state_num st < MS_NUM_STATES then monitor_state_name st else ''unknown'', st, noisy)
      else if req ''stop'' then
        (if privileged then (''ok'', if state_num st < state_num MS_STOPPING then MS_STOPPING else st, noisy)
         else (''denied'', st, noisy))
      else if req ''restart'' then
        (if privileged then (''ok'', MS_RESTARTING, noisy) else (''denied'', st, noisy))
      else if req ''noise=debug'' then (if privileged then (''ok'', st, DEBUG) else (''denied'', st, noisy))
      else if req ''noise=verbose'' then (if privileged then (''ok'', st, VERBOSE) else (''denied'', st, noisy))
      else if req ''noise=normal'' then (if privileged then (''ok'', st, NORMAL) else (''denied'', st, noisy))
      else (''error'', st, noisy))"

text \<open>
  One turn of the loop, in which the request is also logged at the level \<open>DEBUG\<close>: what \<^verbatim>\<open>poll\<close>, \<^verbatim>\<open>read\<close> and \<^verbatim>\<open>write\<close> return, and the time afterwards. A read delivers at
  most as much as the buffer holds.
\<close>

record round =
  r_poll :: "errno + nat"
  r_read :: "errno + string"
  r_write :: "errno option"
  r_now :: u64

record session =
  s_buf :: string
  s_state :: monitor_state
  s_noisy :: int
  s_replies :: "string list"

datatype ending = Closed | Failed | Open

fun session_loop :: "bool \<Rightarrow> u64 \<Rightarrow> u64 \<Rightarrow> round list \<Rightarrow> session \<Rightarrow> (ending \<times> session) outcome" where
  "session_loop privileged deadline now rounds s =
     (if now \<ge> deadline then Defined (Closed, s)
      else case rounds of
        [] \<Rightarrow> Defined (Open, s)
      | r # rest \<Rightarrow>
          (case r_poll r of
             Inl e \<Rightarrow> Defined (Failed, s)
           | Inr 0 \<Rightarrow> Defined (Closed, s)
           | Inr (Suc n) \<Rightarrow>
               (case r_read r of
                  Inl e \<Rightarrow> Defined (Failed, s)
                | Inr data \<Rightarrow>
                    if data = [] then Defined (Closed, s)
                    else
                      let buf = read_trim data (s_buf s) in
                      obind (if s_noisy s \<ge> DEBUG then cstr buf else Defined []) (\<lambda>msg.
                      let (str, st, noisy) = handle_request privileged (str_is buf) (s_state s) (s_noisy s);
                          s' = s\<lparr> s_buf := put_line str buf, s_state := st, s_noisy := noisy \<rparr>
                      in case r_write r of
                           Some e \<Rightarrow> Defined (Failed, s')
                         | None \<Rightarrow>
                             session_loop privileged deadline (r_now r) rest
                               (s'\<lparr> s_replies := s_replies s @ [str @ [CR, NL]] \<rparr>)))))"

declare session_loop.simps [simp del]

text \<open>
  \<^verbatim>\<open>monitor_control_socket_ingest\<close>: \<open>cred\<close> is the user of the client, \<open>uid\<close> that of the command and \<open>buf\<close> the
  contents of the buffer on entry.
\<close>

record ingest_calls =
  i_accept :: "errno + int"
  i_cred :: "errno + nat"
  i_banner :: "errno option"
  i_now :: u64
  i_rounds :: "round list"

definition privileged_uid :: "nat \<Rightarrow> nat \<Rightarrow> bool" where
  "privileged_uid cred uid \<longleftrightarrow> cred = 0 \<or> cred = uid"

definition monitor_control_socket_ingest ::
  "nat \<Rightarrow> ingest_calls \<Rightarrow> string \<Rightarrow> monitor_state \<Rightarrow> int \<Rightarrow> (ending \<times> session) outcome" where
  "monitor_control_socket_ingest uid k buf st noisy =
     (let s = \<lparr> s_buf = buf, s_state = st, s_noisy = noisy, s_replies = [] \<rparr> in
      case i_accept k of
        Inl e \<Rightarrow> Defined (Failed, s)
      | Inr csock \<Rightarrow>
          (case i_cred k of
             Inl e \<Rightarrow> Defined (Failed, s)
           | Inr cred \<Rightarrow>
               let s = s\<lparr> s_buf := put_line banner buf \<rparr>
               in case i_banner k of
                    Some e \<Rightarrow> Defined (Failed, s)
                  | None \<Rightarrow>
                      session_loop (privileged_uid cred uid) (i_now k + MONITOR_CONTROL_MAX_SESSION_DURATION) (i_now k)
                        (i_rounds k) (s\<lparr> s_replies := [banner @ [CR, NL]] \<rparr>)))"

section \<open>The client\<close>

text \<open>
  \<^verbatim>\<open>sscanf\<close> with the format of the banner: the literal text up to the colon, white space, a quote and a number.
  What follows the number does not matter for the result.
\<close>

definition scan_banner :: "string \<Rightarrow> 32 word option" where
  "scan_banner s =
     (let lit = ''{\"version\":''; s1 = drop (length lit) s; s2 = dropWhile isspace s1
      in if take (length lit) s \<noteq> lit \<or> s2 = [] \<or> hd s2 \<noteq> CHR 0x22 then None
         else case scan_int 10 (tl s2) of
           None \<Rightarrow> None
         | Some (neg, v, r) \<Rightarrow> Some (ucast (fst (strtou64 10 (tl s2) EOK))))"

text \<open>
  The system calls of one call of \<^verbatim>\<open>monitor_control\<close>, and the contents of the two buffers on entry.
\<close>

record client_calls =
  c_socket :: "errno + int"
  c_connect :: "errno option"
  c_cred :: "errno + pid"
  c_banner :: "errno + string"
  c_write :: "errno option"
  c_reply :: "errno + string"
  c_buf1 :: string
  c_buf2 :: string

definition refused :: "errno \<Rightarrow> errno" where
  "refused e = (if e = ECONNRESET then ECONNREFUSED else e)"

text \<open>\<^verbatim>\<open>monitor_client_connect\<close>: the process of the monitor and its version, or the error.\<close>

definition monitor_client_connect :: "client_calls \<Rightarrow> (errno + pid \<times> 32 word) outcome" where
  "monitor_client_connect k =
     (case c_socket k of
        Inl e \<Rightarrow> Defined (Inl (refused e))
      | Inr sock \<Rightarrow>
          (case c_connect k of
             Some e \<Rightarrow> Defined (Inl (refused e))
           | None \<Rightarrow>
               (case c_cred k of
                  Inl e \<Rightarrow> Defined (Inl (refused e))
                | Inr pid \<Rightarrow>
                    (case c_banner k of
                       Inl e \<Rightarrow> Defined (Inl (refused e))
                     | Inr data \<Rightarrow>
                         obind (cstr (read_trim data (c_buf1 k))) (\<lambda>s.
                         Defined (case scan_banner s of None \<Rightarrow> Inl (refused EPROTO) | Some v \<Rightarrow> Inr (pid, v)))))))"

definition monitor_control_identify :: "client_calls \<Rightarrow> (int \<times> (pid \<times> 32 word) option) outcome" where
  "monitor_control_identify k =
     obind (monitor_client_connect k) (\<lambda>r.
     Defined (case r of Inl e \<Rightarrow> (-1, None) | Inr mc \<Rightarrow> (0, Some mc)))"

definition monitor_control :: "client_calls \<Rightarrow> string \<Rightarrow> (errno + string) outcome" where
  "monitor_control k command =
     obind (monitor_client_connect k) (\<lambda>mc.
     case mc of
       Inl e \<Rightarrow> Defined (Inl e)
     | Inr (pid, version) \<Rightarrow>
         if version > word_of_nat MONITOR_CONTROL_VERSION then Defined (Inl EPROTO)
         else if length command \<ge> BUFSIZE - 2 then Defined (Inl EINVAL)
         else
           let buf = put_line command (c_buf2 k)
           in case c_write k of
                Some e \<Rightarrow> Defined (Inl e)
              | None \<Rightarrow>
                  (case c_reply k of
                     Inl e \<Rightarrow> Defined (Inl e)
                   | Inr data \<Rightarrow> obind (cstr (read_trim data buf)) (\<lambda>s. Defined (Inr s))))"

text \<open>The state and \<^verbatim>\<open>errno\<close>, which is meaningful if the state is \<open>MS_ERROR\<close>.\<close>

definition state_of_response :: "errno + string \<Rightarrow> monitor_state \<times> errno" where
  "state_of_response response =
     (case response of
        Inl e \<Rightarrow> (if e = ENOENT \<or> e = ECONNREFUSED then MS_STOPPED else MS_ERROR, e)
      | Inr s \<Rightarrow>
          if s = ''denied'' then (MS_ERROR, EPERM)
          else let st = monitor_state_from_name s in (st, if st = MS_ERROR then EINVAL else EOK))"

definition monitor_control_get_state :: "client_calls \<Rightarrow> (monitor_state \<times> errno) outcome" where
  "monitor_control_get_state k = obind (monitor_control k ''status'') (\<lambda>r. Defined (state_of_response r))"

subsection \<open>Waiting for a state\<close>

definition MONITOR_POLL_INTERVAL :: u64 where "MONITOR_POLL_INTERVAL = ms2us 500"

definition state_bit :: "monitor_state \<Rightarrow> 32 word" where
  "state_bit st = push_bit (nat (state_num st)) 1"

text \<open>The mask of the arguments, which end with the first one that is not above \<open>MS_IDLE\<close>.\<close>

fun state_mask :: "monitor_state list \<Rightarrow> 32 word" where
  "state_mask [] = 0"
| "state_mask (st # args) =
     (if state_num st > state_num MS_IDLE then state_bit st OR state_mask args else 0)"

definition reached :: "32 word \<Rightarrow> monitor_state \<Rightarrow> bool" where
  "reached wanted st \<longleftrightarrow> st = MS_ERROR \<or> wanted AND state_bit st \<noteq> 0"

text \<open>
  The loop: \<open>poll i\<close> is the answer to the question for the state in turn \<open>i\<close> and \<open>clock i\<close> the time after it. The
  first argument bounds the number of turns; \<open>None\<close> is a loop that is still running.
\<close>

fun wait_loop ::
  "nat \<Rightarrow> 32 word \<Rightarrow> (nat \<Rightarrow> monitor_state \<times> errno) \<Rightarrow> (nat \<Rightarrow> u64) \<Rightarrow> u64 \<Rightarrow> nat \<Rightarrow> u64 \<Rightarrow> (monitor_state \<times> errno) option" where
  "wait_loop fuel wanted poll clock deadline i now =
     (if now \<ge> deadline then Some (MS_ERROR, ETIMEDOUT)
      else case fuel of
        0 \<Rightarrow> None
      | Suc n \<Rightarrow>
          if reached wanted (fst (poll i)) then Some (poll i)
          else wait_loop n wanted poll clock deadline (Suc i) (clock i))"

declare wait_loop.simps [simp del]

definition monitor_control_wait ::
  "nat \<Rightarrow> int \<Rightarrow> monitor_state list \<Rightarrow> monitor_state \<times> errno \<Rightarrow> u64 \<Rightarrow> (nat \<Rightarrow> monitor_state \<times> errno) \<Rightarrow> (nat \<Rightarrow> u64) \<Rightarrow>
    (monitor_state \<times> errno) option" where
  "monitor_control_wait fuel timeout states first start poll clock =
     (let wanted = state_mask states
      in if reached wanted (fst first) then Some first
         else wait_loop fuel wanted poll clock
                (if timeout < 0 then - 1 else start + ms2us (word_of_int timeout)) 0 start)"

text \<open>
  \<^verbatim>\<open>monitor_control_stop\<close> and \<^verbatim>\<open>monitor_control_restart\<close> up to the wait: the state that has been found, the
  response to the command, which is not sent in all states, and what the functions return or the states that they
  wait for.
\<close>

definition command_result :: "monitor_state \<Rightarrow> monitor_state \<Rightarrow> errno + string \<Rightarrow> monitor_state \<times> errno" where
  "command_result st goal response =
     (case response of
        Inl e \<Rightarrow> (st, e)
      | Inr s \<Rightarrow> if s = ''ok'' then (goal, EOK) else if s = ''denied'' then (MS_ERROR, EPERM) else (MS_ERROR, EPROTO))"

definition monitor_control_stop :: "monitor_state \<times> errno \<Rightarrow> errno + string \<Rightarrow> (monitor_state \<times> errno) + monitor_state list" where
  "monitor_control_stop found response =
     (let r = (if fst found \<in> {MS_ERROR, MS_STOPPED, MS_STOPPING} then found
               else command_result (fst found) MS_STOPPING response)
      in if fst r \<noteq> MS_STOPPING then Inl r else Inr [MS_STOPPED])"

definition monitor_control_restart :: "monitor_state \<times> errno \<Rightarrow> errno + string \<Rightarrow> (monitor_state \<times> errno) + monitor_state list" where
  "monitor_control_restart found response =
     (let r = (if fst found \<in> {MS_ERROR, MS_STOPPED, MS_STOPPING, MS_RESTARTING} then found
               else command_result (fst found) MS_RESTARTING response)
      in if fst r \<noteq> MS_RESTARTING then Inl r else Inr [MS_RUNNING, MS_REMAINING])"

section \<open>Names and lines\<close>

lemma state_name_roundtrip: "monitor_state_from_name (monitor_state_name st) = st"
  by (induct st; code_simp)

lemma state_name_plain:
  "NUL \<notin> set (monitor_state_name st)" "monitor_state_name st \<noteq> []" "\<not> isspace (last (monitor_state_name st))"
  "monitor_state_name st \<noteq> ''denied''"
  by (induct st; code_simp)+

lemma trim_snoc:
  "trim_loop (Suc (length xs)) (xs @ x # rest) = (if isspace x then trim_loop (length xs) (xs @ NUL # rest) else xs @ x # rest)"
  by simp

lemma trim_stop: "xs \<noteq> [] \<Longrightarrow> \<not> isspace (last xs) \<Longrightarrow> trim_loop (length xs) (xs @ rest) = xs @ rest"
  by (cases xs rule: rev_cases) simp_all

text \<open>A line of the protocol: text that does not end in white space and the two characters behind it.\<close>

definition plain :: "string \<Rightarrow> bool" where
  "plain str \<longleftrightarrow> str \<noteq> [] \<and> \<not> isspace (last str) \<and> NUL \<notin> set str"

lemma read_trim_line:
  assumes "plain str"
  shows "read_trim (str @ [CR, NL]) buf = str @ [NUL, NUL] @ drop (length str + 2) buf"
proof -
  have sp: "isspace CR" "isspace NL" by (simp_all add: isspace_def)
  have "trim_loop (Suc (Suc (length str))) ((str @ [CR]) @ NL # drop (length str + 2) buf) =
      trim_loop (length str) (str @ NUL # NUL # drop (length str + 2) buf)"
    using trim_snoc [of "str @ [CR]" NL] trim_snoc [of str CR] sp by simp
  then show ?thesis using assms trim_stop [of str] by (simp add: read_trim_def plain_def)
qed

lemma str_is_line:
  assumes "NUL \<notin> set str" and "NUL \<notin> set lit"
  shows "str_is (str @ NUL # rest) lit \<longleftrightarrow> str = lit"
proof
  assume "str_is (str @ NUL # rest) lit"
  then have "take (length lit + 1) (str @ NUL # rest) = lit @ [NUL]" by (simp add: str_is_def)
  then obtain ys where "str @ NUL # rest = (lit @ [NUL]) @ ys" by (metis append_take_drop_id)
  then have "takeWhile (\<lambda>c. c \<noteq> NUL) (str @ NUL # rest) = takeWhile (\<lambda>c. c \<noteq> NUL) (lit @ NUL # ys)" by simp
  moreover have "takeWhile (\<lambda>c. c \<noteq> NUL) (xs @ NUL # zs) = xs" if "NUL \<notin> set xs" for xs zs
    using that by (intro takeWhile_append_stop) auto
  ultimately show "str = lit" using assms by simp
qed (simp add: str_is_def)

lemma cstr_line: "NUL \<notin> set str \<Longrightarrow> cstr (str @ NUL # rest) = Defined str"
  unfolding cstr_def by (subst takeWhile_append_stop) auto

lemma banner_text: "banner = ''{\"version\": \"20220303\"}''"
proof -
  have "decimal MONITOR_CONTROL_VERSION = ''20220303''"
    by (simp add: MONITOR_CONTROL_VERSION_def decimal.simps digit_char_def)
  then show ?thesis by (simp add: banner_def)
qed

lemma plain_banner: "plain banner"
  unfolding plain_def banner_text by code_simp

lemma scan_banner_banner: "scan_banner banner = Some (word_of_nat MONITOR_CONTROL_VERSION)"
proof -
  have "scan_int 10 (''20220303'' @ ''\"}'') = Some (False, digits_val 10 ''20220303'', ''\"}'')"
    by (rule scan_int_digits) (auto simp: isdigit_def)
  moreover have "digits_val 10 ''20220303'' = MONITOR_CONTROL_VERSION"
    by (simp add: digits_val_def digit_val_def MONITOR_CONTROL_VERSION_def)
  ultimately show ?thesis
    by (simp add: scan_banner_def banner_text Let_def isspace_def strtou64_def MONITOR_CONTROL_VERSION_def)
qed

lemma handle_request_line:
  assumes "NUL \<notin> set req"
  shows "handle_request p (str_is (req @ NUL # rest)) st noisy = handle_request p (\<lambda>l. req = l) st noisy"
  unfolding handle_request_def using assms by (simp add: str_is_line)

lemma reply_plain: "plain (fst (handle_request p req st noisy))"
proof -
  have "plain ''ok''" "plain ''denied''" "plain ''error''" "plain ''unknown''" unfolding plain_def by code_simp+
  moreover have "plain (monitor_state_name st)" using state_name_plain by (simp add: plain_def)
  ultimately show ?thesis by (simp add: handle_request_def)
qed

section \<open>The mask of states\<close>

lemma state_num_inj: "state_num st = state_num st' \<longleftrightarrow> st = st'"
  by (cases st; cases st') simp_all

lemma state_num_range: "state_num st < 9" "-1 \<le> state_num st" "st \<noteq> MS_ERROR \<Longrightarrow> 0 \<le> state_num st"
  by (cases st; simp)+

lemma bit_state_mask:
  assumes "\<forall>st \<in> set sts. state_num st > 0"
  shows "bit (state_mask sts) n \<longleftrightarrow> (\<exists>st \<in> set sts. n = nat (state_num st))"
  using assms
proof (induction sts)
  case (Cons st sts)
  have "nat (state_num st) < 32" using state_num_range(1) [of st] by simp
  then have "bit (state_bit st) n \<longleftrightarrow> n = nat (state_num st)"
    by (auto simp: state_bit_def bit_simps bit_1_iff)
  with Cons show ?case by (auto simp: bit_or_iff)
qed simp

lemma reached_iff:
  assumes "\<forall>st \<in> set sts. state_num st > 0"
  shows "reached (state_mask sts) st \<longleftrightarrow> st = MS_ERROR \<or> st \<in> set sts"
proof (cases "st = MS_ERROR")
  case False
  let ?n = "nat (state_num st)"
  have "?n < 32" using state_num_range(1) [of st] by simp
  have "state_mask sts AND state_bit st = (if bit (state_mask sts) ?n then state_bit st else 0)"
    by (rule bit_eqI) (auto simp: state_bit_def bit_simps bit_1_iff)
  moreover have "bit (state_bit st) ?n" using \<open>?n < 32\<close> by (simp add: state_bit_def bit_simps)
  then have "state_bit st \<noteq> 0" by auto
  ultimately have "reached (state_mask sts) st \<longleftrightarrow> bit (state_mask sts) ?n" using False by (simp add: reached_def)
  also have "\<dots> \<longleftrightarrow> st \<in> set sts"
    unfolding bit_state_mask [OF assms] using state_num_range(3) [OF False] assms state_num_inj
    by (metis eq_nat_nat_iff order_less_imp_le)
  finally show ?thesis using False by simp
qed (simp add: reached_def)

section \<open>Sessions\<close>

lemma deny:
  assumes "handle_request False req st noisy = (str, st', noisy')"
  shows "st' = st \<and> noisy' = noisy \<and> str \<in> {monitor_state_name st, ''denied'', ''error''}"
proof -
  have "state_num st < MS_NUM_STATES" using state_num_range(1) by (simp add: MS_NUM_STATES_def)
  then show ?thesis using assms by (auto simp: handle_request_def split: if_splits)
qed

lemma session_denied:
  assumes "s_noisy s < DEBUG"
  shows "\<exists>e s'. session_loop False deadline now rounds s = Defined (e, s') \<and> s_state s' = s_state s \<and> s_noisy s' = s_noisy s \<and>
    set (s_replies s') \<subseteq> set (s_replies s) \<union> {str @ [CR, NL] |str. str \<in> {monitor_state_name (s_state s), ''denied'', ''error''}}"
  using assms
proof (induction rounds arbitrary: now s)
  case Nil
  then show ?case by (simp add: session_loop.simps)
next
  case (Cons r rounds)
  have stay: ?case if "session_loop False deadline now (r # rounds) s = Defined (e, s)" for e
    using that by auto
  show ?case
  proof (cases "now \<ge> deadline \<or> (\<exists>e. r_poll r = Inl e) \<or> r_poll r = Inr 0 \<or> (\<exists>e. r_read r = Inl e) \<or> r_read r = Inr []")
    case True
    then show ?thesis
      by (intro stay [of "if now \<ge> deadline then Closed else if \<exists>e. r_poll r = Inl e then Failed else if r_poll r = Inr 0 then Closed
          else if \<exists>e. r_read r = Inl e then Failed else Closed"])
        (auto simp: session_loop.simps [of _ _ _ "r # rounds"] split: sum.splits nat.splits)
  next
    case False
    then obtain n data where r: "\<not> now \<ge> deadline" "r_poll r = Inr (Suc n)" "r_read r = Inr data" "data \<noteq> []"
      by (metis not0_implies_Suc sum.exhaust)
    define buf where "buf = read_trim data (s_buf s)"
    obtain str st' noisy' where h: "handle_request False (str_is buf) (s_state s) (s_noisy s) = (str, st', noisy')"
      by (cases "handle_request False (str_is buf) (s_state s) (s_noisy s)")
    note d = deny [OF h]
    define s1 where "s1 = s\<lparr> s_buf := put_line str buf, s_state := st', s_noisy := noisy' \<rparr>"
    define s2 where "s2 = s1\<lparr> s_replies := s_replies s @ [str @ [CR, NL]] \<rparr>"
    have step: "session_loop False deadline now (r # rounds) s =
        (case r_write r of Some e \<Rightarrow> Defined (Failed, s1) | None \<Rightarrow> session_loop False deadline (r_now r) rounds s2)"
      using r h Cons.prems by (simp add: session_loop.simps [of _ _ _ "r # rounds"] Let_def buf_def [symmetric] s1_def s2_def split: option.split)
    show ?thesis
    proof (cases "r_write r")
      case (Some e)
      then show ?thesis using step d by (auto simp: s1_def)
    next
      case None
      have "s_noisy s2 < DEBUG" "s_state s2 = s_state s" "s_noisy s2 = s_noisy s" using Cons.prems d by (simp_all add: s2_def s1_def)
      with Cons.IH [OF this(1), of "r_now r"] d show ?thesis unfolding step None by (auto simp: s2_def)
    qed
  qed
qed

text \<open>The client side of an exchange, with the lines that the monitor has written.\<close>

lemma client_exchange:
  assumes ok: "c_socket k = Inr fd" "c_connect k = None" "c_cred k = Inr pid" "c_write k = None"
    and banner: "c_banner k = Inr (banner @ [CR, NL])" and reply: "c_reply k = Inr (str @ [CR, NL])" "plain str"
    and command: "length command < BUFSIZE - 2"
  shows "monitor_control k command = Defined (Inr str)"
proof -
  have "cstr (read_trim (banner @ [CR, NL]) (c_buf1 k)) = Defined banner"
    using cstr_line [of banner] plain_banner by (simp add: read_trim_line plain_def)
  then have "monitor_client_connect k = Defined (Inr (pid, word_of_nat MONITOR_CONTROL_VERSION))"
    using ok banner scan_banner_banner by (simp add: monitor_client_connect_def)
  moreover have "cstr (read_trim (str @ [CR, NL]) buf) = Defined str" for buf
    using cstr_line [of str] reply(2) by (simp add: read_trim_line plain_def)
  ultimately show ?thesis using ok reply command by (simp add: monitor_control_def Let_def)
qed

text \<open>The session in which the monitor serves one command and the client closes the connection.\<close>

definition one_request :: "nat \<Rightarrow> string \<Rightarrow> u64 \<Rightarrow> u64 \<Rightarrow> ingest_calls" where
  "one_request cred command now later =
     \<lparr> i_accept = Inr 0, i_cred = Inr cred, i_banner = None, i_now = now,
       i_rounds = [\<lparr> r_poll = Inr 1, r_read = Inr (command @ [CR, NL]), r_write = None, r_now = later \<rparr>,
                   \<lparr> r_poll = Inr 1, r_read = Inr [], r_write = None, r_now = later \<rparr>] \<rparr>"

lemma serve_one:
  assumes cmd: "plain command" and now: "now < now + MONITOR_CONTROL_MAX_SESSION_DURATION"
    and noisy: "noisy < DEBUG"
    and h: "handle_request (privileged_uid cred uid) (\<lambda>l. command = l) st noisy = (str, st', noisy')"
  shows "\<exists>s. monitor_control_socket_ingest uid (one_request cred command now later) buf st noisy = Defined (Closed, s) \<and>
    s_replies s = [banner @ [CR, NL], str @ [CR, NL]] \<and> s_state s = st' \<and> s_noisy s = noisy'"
proof -
  have "handle_request (privileged_uid cred uid) (str_is (command @ NUL # rest)) st noisy = (str, st', noisy')" for rest
    using h handle_request_line cmd by (simp add: plain_def)
  moreover have "\<not> now + MONITOR_CONTROL_MAX_SESSION_DURATION \<le> now" using now by simp
  ultimately show ?thesis
    using noisy cmd
    by (simp add: monitor_control_socket_ingest_def one_request_def Let_def session_loop.simps read_trim_line plain_def)
qed

section \<open>Properties\<close>

text \<open>
  C19. A client and the monitor understand each other: the reply that \<^verbatim>\<open>monitor_control\<close> returns is the one that the
  monitor's handler gives for the command, whatever the buffers of the two sides contain at the start, and the
  state and the noise level of the monitor change as the handler says. Asked for the status, the client gets the
  state the monitor is in.
\<close>

theorem control_exchange:
  assumes "plain command" and "length command < BUFSIZE - 2" and "noisy < DEBUG"
    and "now < now + MONITOR_CONTROL_MAX_SESSION_DURATION"
    and "c_socket k = Inr fd" and "c_connect k = None" and "c_cred k = Inr pid" and "c_write k = None"
    and "monitor_control_socket_ingest uid (one_request cred command now later) buf st noisy = Defined (e, s)"
    and "s_replies s = [hello, answer]" and "c_banner k = Inr hello" and "c_reply k = Inr answer"
  shows "\<exists>reply. monitor_control k command = Defined (Inr reply) \<and>
    handle_request (privileged_uid cred uid) (\<lambda>l. command = l) st noisy = (reply, s_state s, s_noisy s) \<and>
    (command = ''status'' \<longrightarrow> fst (state_of_response (Inr reply)) = st)"
proof -
  obtain str st' noisy' where h: "handle_request (privileged_uid cred uid) (\<lambda>l. command = l) st noisy = (str, st', noisy')"
    by (cases "handle_request (privileged_uid cred uid) (\<lambda>l. command = l) st noisy")
  with serve_one [OF assms(1,4,3) h, of later buf] assms(9-12) have s: "s_state s = st'" "s_noisy s = noisy'"
      "c_banner k = Inr (banner @ [CR, NL])" "c_reply k = Inr (str @ [CR, NL])" by auto
  moreover have "plain str" using reply_plain [of "privileged_uid cred uid" "\<lambda>l. command = l" st noisy] h by simp
  ultimately have "monitor_control k command = Defined (Inr str)" using client_exchange assms by blast
  moreover have "command = ''status'' \<Longrightarrow> str = monitor_state_name st"
    using h state_num_range(1) [of st] by (auto simp: handle_request_def MS_NUM_STATES_def)
  then have "command = ''status'' \<Longrightarrow> fst (state_of_response (Inr str)) = st"
    using state_name_roundtrip state_name_plain(4) by (simp add: state_of_response_def Let_def)
  ultimately show ?thesis using h s by blast
qed

definition example_client :: client_calls where
  "example_client =
     \<lparr> c_socket = Inr 3, c_connect = None, c_cred = Inr 100, c_banner = Inr (banner @ [CR, NL]), c_write = None,
       c_reply = Inr (''running'' @ [CR, NL]), c_buf1 = [], c_buf2 = [] \<rparr>"

theorem control_exchange_witness:
  "\<exists>reply. monitor_control example_client ''status'' = Defined (Inr reply) \<and>
    handle_request (privileged_uid 5 0) (\<lambda>l. ''status'' = l) MS_RUNNING NORMAL = (reply, MS_RUNNING, NORMAL) \<and>
    (''status'' = ''status'' \<longrightarrow> fst (state_of_response (Inr reply)) = MS_RUNNING)"
proof -
  have "plain ''status''" unfolding plain_def by code_simp
  moreover have "(0 :: u64) < 0 + MONITOR_CONTROL_MAX_SESSION_DURATION"
    by (simp add: MONITOR_CONTROL_MAX_SESSION_DURATION_def word_less_nat_alt)
  moreover have "handle_request (privileged_uid 5 0) (\<lambda>l. ''status'' = l) MS_RUNNING NORMAL = (''running'', MS_RUNNING, NORMAL)"
    by (simp add: handle_request_def MS_NUM_STATES_def monitor_state_name_def monitor_state_names_def)
  ultimately obtain s where s: "monitor_control_socket_ingest 0 (one_request 5 ''status'' 0 1) [] MS_RUNNING NORMAL = Defined (Closed, s)"
      "s_replies s = [banner @ [CR, NL], ''running'' @ [CR, NL]]" "s_state s = MS_RUNNING" "s_noisy s = NORMAL"
    using serve_one [of "''status''" 0 NORMAL 5 0 MS_RUNNING "''running''" MS_RUNNING NORMAL 1 "[]"] by (auto simp: noise_levels)
  show ?thesis
    using control_exchange [OF \<open>plain ''status''\<close> _ _ \<open>0 < 0 + _\<close> _ _ _ _ s(1,2), of example_client 3 100] s(3,4)
    by (simp add: example_client_def BUFSIZE_def noise_levels)
qed



lemma wait_loop_result:
  "wait_loop fuel wanted poll clock deadline i now = Some r \<Longrightarrow>
    r = (MS_ERROR, ETIMEDOUT) \<or> (\<exists>j. i \<le> j \<and> j < i + fuel \<and> r = poll j \<and> reached wanted (fst r))"
proof (induction fuel arbitrary: i now)
  case 0
  then show ?case by (simp add: wait_loop.simps split: if_splits)
next
  case (Suc n)
  then show ?case
    using Suc.IH [of "Suc i" "clock i"] by (subst (asm) wait_loop.simps) (fastforce split: if_splits)
qed

lemma wait_loop_returns:
  "deadline \<le> (if n = 0 then now else clock (i + n - 1)) \<Longrightarrow> \<exists>r. wait_loop n wanted poll clock deadline i now = Some r"
proof (induction n arbitrary: i now)
  case 0
  then show ?case by (simp add: wait_loop.simps)
next
  case (Suc n)
  then have "\<exists>r. wait_loop n wanted poll clock deadline (Suc i) (clock i) = Some r"
    by (intro Suc.IH) (cases "n = 0"; simp)
  then show ?case by (subst wait_loop.simps) simp
qed

lemma clock_advance:
  assumes "unat (clock 0) \<ge> unat start + d" and "\<forall>i < n. unat (clock (Suc i)) \<ge> unat (clock i) + d"
  shows "k \<le> n \<Longrightarrow> unat (clock k) \<ge> unat start + (k + 1) * d"
proof (induction k)
  case 0
  then show ?case using assms(1) by simp
next
  case (Suc k)
  then have "unat (clock (Suc k)) \<ge> unat (clock k) + d" using assms(2) by simp
  then show ?case using Suc by simp
qed

text \<open>
  C21. Waiting for a state ends: with a timeout that is not negative and a clock that advances by the poll interval in
  every turn, \<^verbatim>\<open>monitor_control_wait\<close> returns after one turn for every 500 milliseconds of the timeout, and one more.
  What it returns is an answer of the monitor that is an error or one of the states of the argument list, which the
  code keeps as a bit mask, or the report of a timeout.
\<close>

theorem control_wait_returns:
  fixes clock :: "nat \<Rightarrow> u64"
  assumes "0 \<le> timeout" and "timeout < 2 ^ 31" and "\<forall>st \<in> set states. state_num st > 0"
    and "unat start + nat timeout * 1000 < 2 ^ 64" and "unat (clock 0) \<ge> unat start + 500000"
    and "\<forall>i < nat timeout div 500. unat (clock (Suc i)) \<ge> unat (clock i) + 500000"
  shows "\<exists>r. monitor_control_wait (nat timeout div 500 + 1) timeout states first start poll clock = Some r \<and>
    (r = (MS_ERROR, ETIMEDOUT) \<or>
     (r = first \<or> (\<exists>i \<le> nat timeout div 500. r = poll i)) \<and> (fst r = MS_ERROR \<or> fst r \<in> set states))"
proof (cases "reached (state_mask states) (fst first)")
  case True
  then show ?thesis using reached_iff [OF assms(3)] by (simp add: monitor_control_wait_def Let_def)
next
  case False
  let ?n = "nat timeout div 500" and ?deadline = "start + ms2us (word_of_int timeout)"
  have "unat (ms2us (word_of_int timeout)) = nat timeout * 1000"
  proof -
    obtain t where t: "timeout = int t" using assms(1) nonneg_int_cases by blast
    have "ms2us (word_of_int timeout) = word_of_nat (t * 1000)" by (simp add: ms2us_def t)
    moreover have "take_bit 64 (t * 1000) = t * 1000" using assms(2) t by (intro take_bit_nat_eq_self) simp
    then have "unat (word_of_nat (t * 1000) :: u64) = t * 1000" by (subst unsigned_of_nat) simp
    ultimately show ?thesis by (simp only: t nat_int)
  qed
  then have "unat ?deadline = unat start + nat timeout * 1000"
    using assms(4) by (simp add: unat_add_lem [THEN iffD1])
  moreover have "unat (clock ?n) \<ge> unat start + (?n + 1) * 500000" by (rule clock_advance [OF assms(5,6)]) simp
  moreover have "nat timeout * 1000 \<le> (?n + 1) * 500000" by simp
  ultimately have "?deadline \<le> clock ?n" by (simp add: word_le_nat_alt)
  then obtain r where r: "wait_loop (?n + 1) (state_mask states) poll clock ?deadline 0 start = Some r"
    using wait_loop_returns [of ?deadline "?n + 1" start clock 0 "state_mask states" poll] by auto
  then show ?thesis
    using wait_loop_result [OF r] False assms(1) reached_iff [OF assms(3), of "fst r"]
    by (auto simp: monitor_control_wait_def Let_def less_Suc_eq_le)
qed

theorem control_wait_returns_witness:
  "\<exists>r. monitor_control_wait (nat 1000 div 500 + 1) 1000 [MS_STOPPED] (MS_STOPPING, EOK) 0
      (\<lambda>i. (if i = 0 then MS_STOPPING else MS_STOPPED, EOK)) (\<lambda>i. word_of_nat (500000 * (i + 1))) = Some r \<and>
    (r = (MS_ERROR, ETIMEDOUT) \<or>
     (r = (MS_STOPPING, EOK) \<or> (\<exists>i \<le> nat 1000 div 500. r = (if i = 0 then MS_STOPPING else MS_STOPPED, EOK))) \<and>
       (fst r = MS_ERROR \<or> fst r \<in> set [MS_STOPPED]))"
proof (rule control_wait_returns)
  show "\<forall>i < nat 1000 div 500. unat (word_of_nat (500000 * (Suc i + 1)) :: u64) \<ge> unat (word_of_nat (500000 * (i + 1)) :: u64) + 500000"
  proof (intro allI impI)
    fix i :: nat assume "i < nat 1000 div 500"
    then consider "i = 0" | "i = 1" by force
    then show "unat (word_of_nat (500000 * (Suc i + 1)) :: u64) \<ge> unat (word_of_nat (500000 * (i + 1)) :: u64) + 500000"
      by cases simp_all
  qed
qed simp_all

end
