(* ===== verification/Process_Table.thy ===== *)
theory Process_Table
  imports Procwatch
begin

text \<open>
  The operations of \<^verbatim>\<open>procwatch.c\<close> implement the table of \<open>Procwatch\<close> that has no pointers: every operation keeps
  the invariant, uses no memory that has been freed, and has the effect that the specification says.
\<close>

section \<open>The operations one by one\<close>

text \<open>A callback that looks at the contents of the process only, not at its list of children.\<close>

definition spec_cb :: "(procwatch_event \<Rightarrow> pid \<Rightarrow> pinfo \<Rightarrow> 'd \<Rightarrow> procwatch_action \<times> 'd) \<Rightarrow> 'd callback" where
  "spec_cb f ev p = f ev (proc_pid p) (info p)"

text \<open>The table that holds process 1 and the monitor only.\<close>

definition initial :: "pid \<Rightarrow> pid \<Rightarrow> table" where
  "initial me sid =
     \<lparr> tracked = [1 \<mapsto> \<lparr> pi_ppid = 1, pi_sid = 1, pi_status = -1 \<rparr>, me \<mapsto> \<lparr> pi_ppid = me, pi_sid = sid, pi_status = -1 \<rparr>],
       exited = [] \<rparr>"

context proc_table
begin

lemma table_eqI: "tracked t = tracked t' \<Longrightarrow> exited t = exited t' \<Longrightarrow> t = (t' :: table)"
  by simp

lemma setsid_ok:
  assumes inv: "pw_inv H me s" and a: "T s pid = Some a" and "pid \<noteq> 0"
  shows "\<exists>s'. process_insert H s pid 0 pid = Defined (Some a, s') \<and> pw_inv H me s' \<and> T s' = T s \<and>
    abs_table H s' = spec_setsid pid (abs_table H s)"
proof -
  obtain p where p: "heap s a = Some p" "proc_pid p = pid" using linkedD(1) [OF inv_linked [OF inv] a] by blast
  define s' where "s' = (if pid \<noteq> 0 \<and> pid \<noteq> proc_sid p then set_proc a (p\<lparr> proc_sid := pid \<rparr>) s else s)"
  have "process_insert H s pid 0 pid = Defined (Some a, s')"
    using a p by (simp add: process_insert_def process_get_def process_update_def s'_def)
  moreover have "pw_inv H me s'"
    using inv forest_field [OF invD(1) [OF inv] p(1), of "p\<lparr> proc_sid := pid \<rparr>"] p(1)
    by (auto simp: pw_inv_def s'_def)
  moreover have "tracked (abs_table H s') = tracked (spec_setsid pid (abs_table H s))"
  proof
    fix k
    show "tracked (abs_table H s') k = tracked (spec_setsid pid (abs_table H s)) k"
      using a p linkedD(1) [OF inv_linked [OF inv], of k] assms(3)
      by (cases "T s k") (auto simp: abs_table_def spec_setsid_def s'_def info_def)
  qed
  moreover have "exited (abs_table H s') = exited (spec_setsid pid (abs_table H s))"
    using p by (auto simp: abs_table_def spec_setsid_def s'_def)
  ultimately show ?thesis by (intro exI [of _ s']) (auto simp: s'_def)
qed

lemma fork_ok:
  assumes inv: "pw_inv H me s" and a: "T s ppid \<noteq> None" and n: "ppid \<noteq> 1" "ppid \<notin> set (exited (abs_table H s))"
  shows "\<exists>r s'. process_insert H s pid ppid 0 = Defined (r, s') \<and> pw_inv H me s' \<and>
    abs_table H s' = spec_fork ppid pid (abs_table H s)"
proof (cases "T s pid")
  case (Some x)
  then obtain p where "heap s x = Some p" using linkedD(1) [OF inv_linked [OF inv]] by blast
  moreover have "spec_fork ppid pid (abs_table H s) = abs_table H s"
    using Some tracked_abs(2) [OF inv, of pid] by (auto simp: spec_fork_def split: option.splits)
  ultimately show ?thesis
    using Some inv n by (cases "ppid = proc_ppid p") (auto simp: process_insert_def process_get_def process_update_def)
next
  case None
  let ?a = "next_addr s"
  from a obtain b where b: "T s ppid = Some b" by blast
  then obtain q where q: "heap s b = Some q" "proc_pid q = ppid" using linkedD(1) [OF inv_linked [OF inv]] by blast
  have pp: "pid \<noteq> ppid" using None b by auto
  have fresh: "heap s ?a = None" using invD(7) [OF inv, of ?a] by (cases "heap s ?a") auto
  then have ab: "?a \<noteq> b" using q by auto
  define p where "p = \<lparr> proc_pid = pid, proc_ppid = ppid, proc_sid = proc_sid q, proc_children = [], proc_wstatus = -1 \<rparr>"
  define q' where "q' = q\<lparr> proc_children := proc_children q @ [?a] \<rparr>"
  define s' where "s' = s\<lparr> heap := (heap s)(?a \<mapsto> p, b \<mapsto> q'), next_addr := ?a + 1,
      processes := snd (ht_put H (processes s) pid ?a) \<rparr>"
  have run: "process_insert H s pid ppid 0 = Defined (Some ?a, s')"
    using None b q pp ab fresh
    by (simp add: process_insert_def process_get_def process_create_def Let_def set_proc_def deref_def s'_def p_def q'_def)
  have "pid \<notin> {1, me}" using invD(3,4) [OF inv] None by auto
  then have "forest (T s') (heap s') {1, me}"
    using forest_insert [OF invD(1) [OF inv], of ?a p b q] None b q fresh by (simp add: s'_def p_def q'_def)
  moreover have "b \<notin> set (ready s)" using n(2) exited_abs [OF inv q(1)] q(2) by simp
  ultimately have inv': "pw_inv H me s'"
    using inv fresh ab invD(6,7) [OF inv] None invD(7) [OF inv, of b q] q
    unfolding pw_inv_def by (auto simp: s'_def less_Suc_eq)
  have "tracked (abs_table H s') = tracked (spec_fork ppid pid (abs_table H s))"
  proof
    fix k
    have other: "T s k = Some x \<Longrightarrow> x \<noteq> ?a" for x using linkedD(1) [OF inv_linked [OF inv], of k x] fresh by auto
    have "tracked (abs_table H s) pid = None" "tracked (abs_table H s) ppid = Some (info q)"
      using None b q by (simp_all add: abs_table_def)
    then show "tracked (abs_table H s') k = tracked (spec_fork ppid pid (abs_table H s)) k"
      using other b q ab pp
      by (cases "T s k") (auto simp: spec_fork_def abs_table_def s'_def p_def q'_def info_def)
  qed
  moreover have "exited (abs_table H s') = exited (spec_fork ppid pid (abs_table H s))"
    using invD(6) [OF inv] fresh q
    by (fastforce simp: abs_table_def spec_fork_def s'_def q'_def split: option.splits)
  ultimately show ?thesis using run inv' by auto
qed

text \<open>The state that \<^verbatim>\<open>process_exit\<close> leaves, for the process \<open>p\<close> at \<open>a\<close> and process 1 at \<open>i\<close>.\<close>

definition after_exit :: "'t procs \<Rightarrow> addr \<Rightarrow> process \<Rightarrow> addr \<Rightarrow> int \<Rightarrow> 't procs" where
  "after_exit s a p i code =
     s\<lparr> heap := adopt a i (proc_children p) ((heap s)(a \<mapsto> p\<lparr> proc_wstatus := code \<rparr>)), ready := ready s @ [a] \<rparr>"

lemma after_exit_rest:
  "T (after_exit s a p i code) = T s" "ready (after_exit s a p i code) = ready s @ [a]"
  "next_addr (after_exit s a p i code) = next_addr s" "proc_init (after_exit s a p i code) = proc_init s"
  "proc_self (after_exit s a p i code) = proc_self s"
  by (simp_all add: after_exit_def)

lemma after_exit_heap:
  "heap s a = Some p \<Longrightarrow> heap (after_exit s a p i code) x = (case heap s x of None \<Rightarrow> None | Some q \<Rightarrow> Some
     (if x = a then p\<lparr> proc_wstatus := code, proc_children := [] \<rparr>
      else if x = i then q\<lparr> proc_children := proc_children q @ proc_children p \<rparr>
      else if x \<in> set (proc_children p) then q\<lparr> proc_ppid := 1 \<rparr> else q))"
  by (auto simp: after_exit_def adopt_def split: option.split)

lemma exit_run:
  assumes inv: "pw_inv H me s" and p: "heap s a = Some p" and n: "proc_pid p \<notin> {1, me}" and i: "proc_init s = Some i"
  shows "process_exit H s (proc_pid p) code = Defined (True, after_exit s a p i code)"
    and "forest (T s) (heap (after_exit s a p i code)) {1, me}"
proof -
  have Ti: "T s 1 = Some i" using invD(3) [OF inv] i by simp
  obtain r where r: "heap s i = Some r" "proc_pid r = 1" using linkedD(1) [OF inv_linked [OF inv] Ti] by blast
  have ai: "a \<noteq> i" using p r n by auto
  define p' where "p' = p\<lparr> proc_wstatus := code \<rparr>"
  define s1 where "s1 = set_proc a p' s"
  have f1: "forest (T s) (heap s1) {1, me}"
    using forest_field [OF invD(1) [OF inv] p, of p'] by (simp add: s1_def p'_def)
  have p1: "heap s1 a = Some p'" "proc_children p' = proc_children p" by (simp_all add: s1_def p'_def)
  have kids: "\<exists>q. heap s1 c = Some q \<and> c \<noteq> a \<and> proc_pid q \<notin> {1, me}" if "c \<in> set (proc_children p)" for c
    using forest_child [OF f1 p1(1)] that p1(2) by auto
  have "reparent_loop s1 a (proc_children p) = Defined (s1\<lparr> heap := adopt a i (proc_children p) (heap s1) \<rparr>)"
    using kids r ai i p1 by (intro reparent_loop_adopt [where p = p' and r = r]) (fastforce simp: s1_def)+
  moreover have "T s (proc_pid p) = Some a" by (rule linkedD(2) [OF inv_linked [OF inv] p])
  ultimately show "process_exit H s (proc_pid p) code = Defined (True, after_exit s a p i code)"
    using p p1 by (simp add: process_exit_def process_get_def process_reparent_children_def s1_def p'_def after_exit_def set_proc_def)
  show "forest (T s) (heap (after_exit s a p i code)) {1, me}"
    using forest_adopt [OF f1 p1(1) Ti _ ai] p1(2) by (simp add: after_exit_def s1_def p'_def del: fun_upd_apply)
qed

lemma exit_inv:
  assumes inv: "pw_inv H me s" and p: "heap s a = Some p" and n: "proc_pid p \<notin> {1, me}" "a \<notin> set (ready s)"
    and i: "proc_init s = Some i"
  shows "pw_inv H me (after_exit s a p i code)" (is "pw_inv H me ?s")
proof -
  note cell = after_exit_heap [OF p, of i code]
  obtain r where r: "heap s i = Some r" "proc_pid r = 1"
    using linkedD(1) [OF inv_linked [OF inv], of 1 i] invD(3) [OF inv] i by auto
  have "\<exists>q. heap ?s x = Some q \<and> proc_children q = [] \<and> proc_pid q \<notin> {1, me}" if "x \<in> set (ready ?s)" for x
  proof (cases "x = a")
    case True
    then show ?thesis using cell [of a] p n(1) by simp
  next
    case False
    then have "x \<in> set (ready s)" using that by (simp add: after_exit_rest)
    then obtain q where "heap s x = Some q" "proc_children q = []" "proc_pid q \<notin> {1, me}" using invD(6) [OF inv] by blast
    moreover have "x \<noteq> i" using calculation r by auto
    ultimately show ?thesis using cell [of x] False by auto
  qed
  then show ?thesis
    using inv n(2) cell exit_run(2) [OF inv p n(1) i] unfolding pw_inv_def by (auto simp: after_exit_rest split: option.splits)
qed

lemma exit_abs:
  assumes inv: "pw_inv H me s" and p: "heap s a = Some p" and n: "proc_pid p \<notin> {1, me}" and i: "proc_init s = Some i"
  shows "abs_table H (after_exit s a p i code) = spec_exit (proc_pid p) code (abs_table H s)" (is "abs_table H ?s = _")
proof (rule table_eqI)
  note cell = after_exit_heap [OF p, of i code]
  obtain r where r: "heap s i = Some r" "proc_pid r = 1"
    using linkedD(1) [OF inv_linked [OF inv], of 1 i] invD(3) [OF inv] i by auto
  obtain rank where "rooted (T s) (heap s) {1, me} rank" using invD(1) [OF inv] by (auto simp: forest_def)
  then have rpp: "proc_ppid r = 1" using rootedD(1) [of _ _ _ rank i r] r by simp
  have child: "x \<in> set (proc_children p) \<longleftrightarrow> proc_ppid q = proc_pid p \<and> x \<noteq> a" if "heap s x = Some q" for x q
    using listedD(2) [OF inv_listed [OF inv] p, of x] that by auto
  show "tracked (abs_table H ?s) = tracked (spec_exit (proc_pid p) code (abs_table H s))"
  proof
    fix k
    show "tracked (abs_table H ?s) k = tracked (spec_exit (proc_pid p) code (abs_table H s)) k"
    proof (cases "T s k")
      case (Some x)
      then obtain q where q: "heap s x = Some q" "proc_pid q = k" using linkedD(1) [OF inv_linked [OF inv]] by blast
      have "x = a \<longleftrightarrow> k = proc_pid p" using Some linkedD(3) [OF inv_linked [OF inv] q(1) p] p q by auto
      moreover have "proc_ppid q \<noteq> proc_pid p" if "x = i" using that r q rpp n by auto
      moreover have "tracked (abs_table H ?s) k = map_option info (heap ?s x)" "tracked (abs_table H s) k = Some (info q)"
        using Some q(1) by (simp_all add: abs_table_def after_exit_rest)
      ultimately show ?thesis using q(1) cell [of x] child [OF q(1)] p by (auto simp: spec_exit_def info_def)
    qed (simp add: abs_table_def spec_exit_def after_exit_rest)
  qed
  have "proc_pid (the (heap ?s x)) = proc_pid (the (heap s x))" if x: "x \<in> set (ready s) \<union> {a}" for x
  proof -
    obtain q where "heap s x = Some q" using x invD(6) [OF inv] p by blast
    then show ?thesis using cell [of x] p by auto
  qed
  then show "exited (abs_table H ?s) = exited (spec_exit (proc_pid p) code (abs_table H s))"
    using p by (auto simp: abs_table_def spec_exit_def after_exit_rest)
qed

lemma exit_ok:
  assumes inv: "pw_inv H me s" and a: "T s pid = Some a" and n: "pid \<notin> {1, me}" "a \<notin> set (ready s)"
  shows "\<exists>s'. process_exit H s pid code = Defined (True, s') \<and> pw_inv H me s' \<and>
    abs_table H s' = spec_exit pid code (abs_table H s)"
proof -
  obtain p where p: "heap s a = Some p" "proc_pid p = pid" using linkedD(1) [OF inv_linked [OF inv] a] by blast
  obtain i where i: "proc_init s = Some i" using invD(3) [OF inv] by blast
  show ?thesis
    using exit_run(1) [OF inv p(1) _ i] exit_inv [OF inv p(1) _ n(2) i] exit_abs [OF inv p(1) _ i] n(1) p(2) by blast
qed

text \<open>The removal of a process and its descendants \<open>X\<close>, by whatever operation.\<close>

definition subtree :: "'t procs \<Rightarrow> addr \<Rightarrow> addr set \<Rightarrow> bool" where
  "subtree s a X \<longleftrightarrow>
     a \<in> X \<and> X \<subseteq> dom (heap s) \<and>
     (\<forall>x \<in> X. \<forall>p. heap s x = Some p \<longrightarrow> set (proc_children p) \<subseteq> X) \<and>
     (\<forall>x \<in> X. x \<noteq> a \<longrightarrow> (\<exists>y p. y \<in> X \<and> heap s y = Some p \<and> x \<in> set (proc_children p)))"

definition cut :: "'t procs \<Rightarrow> addr \<Rightarrow> addr \<Rightarrow> process \<Rightarrow> addr set \<Rightarrow> 't procs \<Rightarrow> bool" where
  "cut s a b q X s' \<longleftrightarrow>
     heap s' = ((heap s)(b \<mapsto> q\<lparr> proc_children := remove1 a (proc_children q) \<rparr>)) |` (- X) \<and>
     T s' = T s |` (- pids_of (heap s) X) \<and> ready s' = filter (\<lambda>x. x \<notin> X) (ready s) \<and>
     next_addr s' = next_addr s \<and> proc_init s' = proc_init s \<and> proc_self s' = proc_self s"

lemma cut_heap:
  "cut s a b q X s' \<Longrightarrow>
    heap s' x = (if x \<in> X then None else if x = b then Some (q\<lparr> proc_children := remove1 a (proc_children q) \<rparr>) else heap s x)"
  unfolding cut_def by (simp add: restrict_map_def)

lemma cut_rest:
  "cut s a b q X s' \<Longrightarrow> T s' = T s |` (- pids_of (heap s) X) \<and> ready s' = filter (\<lambda>x. x \<notin> X) (ready s) \<and>
    next_addr s' = next_addr s \<and> proc_init s' = proc_init s \<and> proc_self s' = proc_self s"
  unfolding cut_def by blast

lemma subtree_roots:
  assumes inv: "pw_inv H me s" and p: "heap s a = Some p" "proc_pid p \<notin> {1, me}" and X: "subtree s a X"
    and x: "x \<in> X" "heap s x = Some r"
  shows "proc_pid r \<notin> {1, me}"
proof (cases "x = a")
  case True
  then show ?thesis using p x(2) by auto
next
  case False
  then obtain y py where "heap s y = Some py" "x \<in> set (proc_children py)" using X x(1) unfolding subtree_def by blast
  then show ?thesis using forest_child [OF invD(1) [OF inv]] x(2) by (metis option.inject)
qed

lemma cut_inv:
  assumes inv: "pw_inv H me s" and p: "heap s a = Some p" "proc_pid p \<notin> {1, me}"
    and b: "T s (proc_ppid p) = Some b" "heap s b = Some q" "b \<notin> X" and X: "subtree s a X" and cut: "cut s a b q X s'"
  shows "pw_inv H me s'"
proof -
  have "forest (T s') (heap s') {1, me}"
    unfolding conjunct1 [OF cut [unfolded cut_def]] conjunct1 [OF conjunct2 [OF cut [unfolded cut_def]]]
    by (rule forest_remove [OF invD(1) [OF inv] p b(1,2) _ b(3)]) (use X in \<open>auto simp: subtree_def\<close>)
  moreover have root: "T s' k = Some x" if "T s k = Some x" "k \<in> {1, me}" for k x
  proof -
    have "k \<notin> pids_of (heap s) X" using subtree_roots [OF inv p X] that(2) unfolding pids_of_def by blast
    then show ?thesis using cut_rest [OF cut] that(1) by simp
  qed
  moreover have "\<exists>r. heap s' x = Some r \<and> proc_children r = [] \<and> proc_pid r \<notin> {1, me}" if x: "x \<in> set (ready s')" for x
  proof -
    from x have x': "x \<in> set (ready s)" "x \<notin> X" using cut_rest [OF cut] by auto
    from invD(6) [OF inv x'(1)] obtain r where "heap s x = Some r" "proc_children r = [] \<and> proc_pid r \<notin> {1, me}" by blast
    then show ?thesis using cut_heap [OF cut, of x] x'(2) b(2) by (cases "x = b") simp_all
  qed
  moreover have "x < next_addr s'" if x: "heap s' x = Some r" for x r
  proof -
    have "\<exists>r. heap s x = Some r" using x cut_heap [OF cut, of x] b(2) by (auto split: if_splits)
    then show ?thesis using invD(7) [OF inv] cut_rest [OF cut] by auto
  qed
  moreover have "distinct (ready s')" using invD(5) [OF inv] cut_rest [OF cut] by simp
  ultimately show ?thesis
    using invD(2-4) [OF inv] cut_rest [OF cut] unfolding pw_inv_def by (metis insertI1 insertI2)
qed

lemma cut_abs:
  assumes inv: "pw_inv H me s" and b: "heap s b = Some q" "b \<notin> X" and cut: "cut s a b q X s'"
  shows "tracked (abs_table H s') = tracked (abs_table H s) |` (- pids_of (heap s) X)"
    and "exited (abs_table H s') = filter (\<lambda>k. k \<notin> pids_of (heap s) X) (exited (abs_table H s))"
proof -
  have pids: "proc_pid r \<in> pids_of (heap s) X \<longleftrightarrow> x \<in> X" if "heap s x = Some r" for x r
    using that linkedD(3) [OF inv_linked [OF inv]] unfolding pids_of_def by blast
  have cell: "map_option info (heap s' x) = map_option info (heap s x)"
      "map_option proc_pid (heap s' x) = map_option proc_pid (heap s x)" if "x \<notin> X" for x
    using that cut_heap [OF cut, of x] b by (auto simp: info_def)
  show "tracked (abs_table H s') = tracked (abs_table H s) |` (- pids_of (heap s) X)"
  proof
    fix k
    show "tracked (abs_table H s') k = (tracked (abs_table H s) |` (- pids_of (heap s) X)) k"
    proof (cases "T s k")
      case (Some x)
      then obtain r where "heap s x = Some r" "proc_pid r = k" using linkedD(1) [OF inv_linked [OF inv]] by blast
      then have "k \<in> pids_of (heap s) X \<longleftrightarrow> x \<in> X" using pids by blast
      then show ?thesis using Some cut_rest [OF cut] cell(1) [of x] by (simp add: abs_table_def restrict_map_def)
    qed (use cut_rest [OF cut] in \<open>simp add: abs_table_def restrict_map_def\<close>)
  qed
  have pid: "proc_pid (the (heap s x)) \<in> pids_of (heap s) X \<longleftrightarrow> x \<in> X"
      "x \<notin> X \<Longrightarrow> proc_pid (the (heap s' x)) = proc_pid (the (heap s x))" if x: "x \<in> set (ready s)" for x
  proof -
    obtain r where r: "heap s x = Some r" using invD(6) [OF inv x] by blast
    then show "proc_pid (the (heap s x)) \<in> pids_of (heap s) X \<longleftrightarrow> x \<in> X" using pids by simp
    show "proc_pid (the (heap s' x)) = proc_pid (the (heap s x))" if "x \<notin> X" using cell(2) [OF that] r by auto
  qed
  have "exited (abs_table H s') = map (\<lambda>x. proc_pid (the (heap s' x))) (filter (\<lambda>x. x \<notin> X) (ready s))"
    using cut_rest [OF cut] by (simp add: abs_table_def)
  also have "\<dots> = map (\<lambda>x. proc_pid (the (heap s x))) (filter (\<lambda>x. proc_pid (the (heap s x)) \<notin> pids_of (heap s) X) (ready s))"
    using pid by (auto intro!: map_cong filter_cong)
  also have "\<dots> = filter (\<lambda>k. k \<notin> pids_of (heap s) X) (exited (abs_table H s))"
    by (simp add: abs_table_def filter_map comp_def)
  finally show "exited (abs_table H s') = filter (\<lambda>k. k \<notin> pids_of (heap s) X) (exited (abs_table H s))" .
qed

text \<open>The processes below a process are its descendants in the table.\<close>

lemma below_subtree:
  assumes inv: "pw_inv H me s" and p: "heap s a = Some p"
  shows "subtree s a (below (heap s) a)"
proof -
  have "x \<in> dom (heap s)" if "(x, a) \<in> (edges (heap s))\<^sup>*" for x
    using that
  proof (cases rule: converse_rtranclE)
    case (step y)
    then show ?thesis using listedD(2) [OF inv_listed [OF inv]] by (auto simp: edges_def)
  qed (use p in auto)
  moreover have "\<exists>y p. y \<in> below (heap s) a \<and> heap s y = Some p \<and> x \<in> set (proc_children p)"
    if "(x, a) \<in> (edges (heap s))\<^sup>*" "x \<noteq> a" for x
    using that(1)
  proof (cases rule: converse_rtranclE)
    case (step y)
    then show ?thesis by (auto simp: edges_def below_def)
  qed (use that(2) in simp)
  moreover have "c \<in> below (heap s) a" if "x \<in> below (heap s) a" "heap s x = Some q" "c \<in> set (proc_children q)" for x q c
    using that by (auto simp: below_def edges_def intro: converse_rtrancl_into_rtrancl)
  ultimately show ?thesis unfolding subtree_def by (auto simp: below_def)
qed

lemma parent_rel_edges:
  assumes inv: "pw_inv H me s" and x: "heap s x = Some p" "heap s y = Some q"
  shows "(proc_pid p, proc_pid q) \<in> parent_rel (tracked (abs_table H s)) \<longleftrightarrow> (x, y) \<in> edges (heap s)"
proof -
  have "tracked (abs_table H s) (proc_pid p) = Some (info p)"
    using x(1) linkedD(2) [OF inv_linked [OF inv] x(1)] by (simp add: abs_table_def)
  then show ?thesis
    using x listedD(2) [OF inv_listed [OF inv] x(2), of x] linkedD(3) [OF inv_linked [OF inv] x(1,2)]
    by (auto simp: parent_rel_def edges_def info_def)
qed

lemma below_descendants:
  assumes inv: "pw_inv H me s" and p: "heap s a = Some p"
  shows "pids_of (heap s) (below (heap s) a) = descendants (tracked (abs_table H s)) (proc_pid p)"
proof (intro equalityI subsetI)
  have "\<forall>q. heap s x = Some q \<longrightarrow> (proc_pid q, proc_pid p) \<in> (parent_rel (tracked (abs_table H s)))\<^sup>*"
    if "(x, a) \<in> (edges (heap s))\<^sup>*" for x
    using that
  proof (induction rule: converse_rtrancl_induct)
    case (step x y)
    from step(1) obtain r where r: "heap s y = Some r" by (auto simp: edges_def)
    then show ?case
      using step(1,3) parent_rel_edges [OF inv _ r, of x] by (auto intro: converse_rtrancl_into_rtrancl)
  qed (use p in simp)
  then show "k \<in> descendants (tracked (abs_table H s)) (proc_pid p)" if "k \<in> pids_of (heap s) (below (heap s) a)" for k
    using that by (auto simp: pids_of_def below_def descendants_def)
next
  fix k assume "k \<in> descendants (tracked (abs_table H s)) (proc_pid p)"
  then have "(k, proc_pid p) \<in> (parent_rel (tracked (abs_table H s)))\<^sup>*" by (simp add: descendants_def)
  then have "\<exists>x q. heap s x = Some q \<and> proc_pid q = k \<and> (x, a) \<in> (edges (heap s))\<^sup>*"
  proof (induction rule: converse_rtrancl_induct)
    case (step k l)
    then obtain y r where r: "heap s y = Some r" "proc_pid r = l" "(y, a) \<in> (edges (heap s))\<^sup>*" by blast
    from step(1) obtain x q where q: "heap s x = Some q" "proc_pid q = k"
      using linkedD(1) [OF inv_linked [OF inv]] tracked_abs(1) [OF inv] by (fastforce simp: parent_rel_def)
    then show ?case
      using step(1) r parent_rel_edges [OF inv q(1) r(1)] by (auto intro: converse_rtrancl_into_rtrancl)
  qed (use p in auto)
  then show "k \<in> pids_of (heap s) (below (heap s) a)" by (auto simp: pids_of_def below_def)
qed

lemma drop_ok:
  assumes inv: "pw_inv H me s" and a: "T s pid = Some a" and n: "pid \<notin> {1, me}"
  shows "\<exists>s'. process_drop H s pid = Defined (True, s') \<and> pw_inv H me s' \<and>
    abs_table H s' = spec_drop pid (abs_table H s)"
proof -
  obtain p where p: "heap s a = Some p" "proc_pid p = pid" using linkedD(1) [OF inv_linked [OF inv] a] by blast
  obtain b q where b: "T s (proc_ppid p) = Some b" "heap s b = Some q" "b \<noteq> a" "a \<in> set (proc_children q)"
      "process_unparent H s a = Defined (set_proc b (q\<lparr> proc_children := remove1 a (proc_children q) \<rparr>) s)"
    using unparent_ok [OF inv p(1)] p(2) n by blast
  obtain rank where f: "linked (T s) (heap s)" "listed (heap s)" "rooted (T s) (heap s) {1, me} rank"
    using invD(1) [OF inv] unfolding forest_def by blast
  let ?X = "below (heap s) a"
  have bX: "b \<notin> ?X"
    using below_rank [OF f, of b a] edges_rank [OF f, of a b] b(2,4) by (auto simp: edges_def)
  obtain t where t: "root t = a" "heap_tree (heap s) t" "distinct (nodes t)" "set (nodes t) = ?X"
    using tree_exists [OF f _ p(1)] inv_finite [OF inv] by blast
  define s1 where "s1 = set_proc b (q\<lparr> proc_children := remove1 a (proc_children q) \<rparr>) s"
  have "heap_tree (heap s1) t"
    using t(2,4) bX by (subst heap_tree_cong [of t _ "heap s"]) (auto simp: s1_def)
  moreover have "droppable s1 (nodes t)"
    using t(3) linked_set [OF f(1) b(2)] invD(5) [OF inv] by (simp add: droppable_def s1_def)
  moreover have "length (nodes t) \<le> ht_size H (processes s)"
    using inv_finite [OF inv] t(3,4) below_subtree [OF inv p(1)] unfolding subtree_def
    by (metis card_mono distinct_card)
  then have "2 * length (nodes t) \<le> drop_fuel H s" by (simp add: drop_fuel_def)
  ultimately obtain s2 where s2: "process_drop_recursive (drop_fuel H s) H s1 a = Defined s2" "removed H ?X s1 s2"
    using drop_tree [of s1 t "drop_fuel H s"] t(1,4) by auto
  have "pids_of (heap s1) ?X = pids_of (heap s) ?X" using bX by (intro pids_of_cong) (auto simp: s1_def)
  then have cut: "cut s a b q ?X s2" using s2(2) unfolding cut_def removed_def by (simp add: s1_def)
  have "pw_inv H me s2"
    by (rule cut_inv [OF inv p(1) _ b(1,2) bX below_subtree [OF inv p(1)] cut]) (use p(2) n in simp)
  moreover have "abs_table H s2 = spec_drop pid (abs_table H s)"
    using cut_abs [OF inv b(2) bX cut] below_descendants [OF inv p(1)] p(2) by (simp add: spec_drop_def)
  ultimately show ?thesis
    using a b(5) s2(1) by (simp add: process_drop_def process_get_def s1_def)
qed

lemma drop_untracked: "T s pid = None \<Longrightarrow> process_drop H s pid = Defined (False, s)"
  by (simp add: process_drop_def process_get_def)

text \<open>A collected process belongs to the caller, who frees it.\<close>

lemma collect_ok:
  assumes inv: "pw_inv H me s"
  shows "\<exists>r s'. process_collect H s = Defined (r, s') \<and>
    (case r of
       Inl e \<Rightarrow> s' = s \<and> spec_collect (abs_table H s) = (Inl e, abs_table H s)
     | Inr a \<Rightarrow> \<exists>p s''. heap s' a = Some p \<and> process_destroy s' a = Defined s'' \<and> pw_inv H me s'' \<and>
         spec_collect (abs_table H s) = (Inr (proc_pid p, info p), abs_table H s''))"
proof -
  have dom: "dom (tracked (abs_table H s)) = dom (T s)" using tracked_abs(2) [OF inv] by (auto simp: dom_def)
  consider (size) "ht_size H (processes s) = 2" | (empty) "ht_size H (processes s) \<noteq> 2" "ready s = []"
    | (proc) a rest where "ht_size H (processes s) \<noteq> 2" "ready s = a # rest" by (meson neq_Nil_conv)
  then show ?thesis
  proof cases
    case size
    then show ?thesis by (simp add: process_collect_def spec_collect_def size_card [symmetric] dom)
  next
    case empty
    then show ?thesis
      by (simp add: process_collect_def spec_collect_def size_card [symmetric] dom) (simp add: abs_table_def)
  next
    case proc
    let ?s0 = "s\<lparr> ready := rest \<rparr>"
    obtain p where p: "heap s a = Some p" "proc_children p = []" "proc_pid p \<notin> {1, me}"
      using invD(6) [OF inv, of a] proc(2) by auto
    obtain b q where b: "T s (proc_ppid p) = Some b" "heap s b = Some q" "b \<noteq> a" "a \<in> set (proc_children q)"
      using unparent_ok [OF inv p(1,3)] by blast
    define s1 where "s1 = set_proc b (q\<lparr> proc_children := remove1 a (proc_children q) \<rparr>) ?s0"
    define s' where "s' = s1\<lparr> processes := snd (ht_pop H (processes s1) (proc_pid p)) \<rparr>"
    define s'' where "s'' = s'\<lparr> heap := (heap s')(a := None) \<rparr>"
    have run: "process_collect H s = Defined (Inr a, s')"
      using proc p b by (simp add: process_collect_def process_unparent_def process_get_def deref_def s1_def s'_def)
    have h': "heap s' a = Some p" using b(3) p(1) by (simp add: s'_def s1_def)
    have X: "subtree s a {a}" using p by (auto simp: subtree_def)
    have pids: "pids_of (heap s) {a} = {proc_pid p}" using p(1) by (simp add: pids_of_def)
    have "ready s'' = filter (\<lambda>x. x \<notin> {a}) (ready s)"
      using proc(2) invD(5) [OF inv] by (auto simp: s''_def s'_def s1_def filter_id_conv intro!: filter_True [symmetric])
    then have cut: "cut s a b q {a} s''"
      unfolding cut_def pids by (auto simp: s''_def s'_def s1_def restrict_map_def fun_eq_iff)
    have inv'': "pw_inv H me s''" by (rule cut_inv [OF inv p(1,3) b(1,2) _ X cut]) (use b(3) in simp)
    have tr: "tracked (abs_table H s) (proc_pid p) = Some (info p)"
      using p(1) linkedD(2) [OF inv_linked [OF inv] p(1)] by (simp add: abs_table_def)
    have "proc_pid (the (heap s'' x)) = proc_pid (the (heap s x))" if "x \<in> set rest" for x
      using cut_heap [OF cut, of x] b(2) that invD(5) [OF inv] proc(2) by auto
    then have ex: "exited (abs_table H s) = proc_pid p # exited (abs_table H s'')"
      using proc(2) p(1) by (simp add: abs_table_def s''_def s'_def s1_def)
    have "spec_collect (abs_table H s) = (Inr (proc_pid p, info p), abs_table H s'')"
      using proc(1) ex tr dom cut_abs(1) [OF inv b(2) _ cut] b(3)
      by (simp add: spec_collect_def size_card pids restrict_complement_singleton_eq)
    then show ?thesis using run h' inv'' by (auto simp: process_destroy_def s''_def)
  qed
qed

section \<open>Creating and emptying the table\<close>

lemma init_ok:
  assumes "me \<noteq> 1"
  shows "\<exists>s. processes_init H (\<lambda>a. None) n me sid = Defined s \<and> pw_inv H me s \<and> abs_table H s = initial me sid"
proof -
  define p where "p = \<lparr> proc_pid = 1, proc_ppid = 1, proc_sid = 1, proc_children = [], proc_wstatus = - 1 \<rparr>"
  define q where "q = \<lparr> proc_pid = me, proc_ppid = me, proc_sid = sid, proc_children = [], proc_wstatus = - 1 \<rparr>"
  define s where "s = \<lparr> heap = [n \<mapsto> p, Suc n \<mapsto> q], next_addr = n + 2,
      processes = snd (ht_put H (snd (ht_put H (ht_make H) 1 n)) me (Suc n)), ready = [],
      proc_init = Some n, proc_self = Some (Suc n) \<rparr>"
  have "processes_init H (\<lambda>a. None) n me sid = Defined s"
    using assms
    by (simp add: processes_init_def process_insert_def process_get_def process_create_def set_proc_def Let_def s_def p_def q_def)
  moreover have "rooted (T s) (heap s) {1, me} (\<lambda>a. 0)"
    by (auto simp: rooted_def s_def p_def q_def split: if_splits)
  then have "pw_inv H me s"
    using assms by (auto simp: pw_inv_def forest_def linked_def listed_def s_def p_def q_def split: if_splits)
  moreover have "abs_table H s = initial me sid"
    using assms by (auto simp: abs_table_def initial_def s_def p_def q_def info_def fun_eq_iff)
  ultimately show ?thesis by blast
qed

lemma destroy_all_ok:
  assumes "distinct as" and "\<forall>a \<in> set as. heap s a \<noteq> None"
  shows "destroy_all s as = Defined (s\<lparr> heap := heap s |` (- set as) \<rparr>)"
  using assms
proof (induction as arbitrary: s)
  case Nil
  then show ?case by (simp add: restrict_map_def)
next
  case (Cons a as)
  then obtain p where "heap s a = Some p" by auto
  moreover have "destroy_all (s\<lparr> heap := (heap s)(a := None) \<rparr>) as =
      Defined (s\<lparr> heap := ((heap s)(a := None)) |` (- set as) \<rparr>)"
    using Cons by (subst Cons.IH) auto
  moreover have "((heap s)(a := None)) |` (- set as) = heap s |` (- set (a # as))"
    by (auto simp: restrict_map_def fun_eq_iff)
  ultimately show ?case by (simp add: process_destroy_def)
qed

lemma elems_heap:
  assumes inv: "pw_inv H me s"
  shows "snd ` set (ht_elems H (processes s)) = dom (heap s)"
  using linkedD(1,2) [OF inv_linked [OF inv]] unfolding elems_values ran_def by blast

lemma fini_ok:
  assumes inv: "pw_inv H me s"
  shows "\<exists>s'. processes_fini H s = Defined s' \<and> heap s' = (\<lambda>a. None)"
proof -
  let ?as = "map snd (ht_elems H (processes s))"
  have set: "set ?as = dom (heap s)" using elems_heap [OF inv] by simp
  moreover have "length ?as = card (dom (heap s))" using inv_finite [OF inv] size_elems by simp
  ultimately have "distinct ?as" by (metis card_distinct)
  then have "destroy_all s ?as = Defined (s\<lparr> heap := heap s |` (- dom (heap s)) \<rparr>)"
    using destroy_all_ok [of ?as s] set by auto
  moreover have "heap s |` (- dom (heap s)) = (\<lambda>a. None)" by (auto simp: restrict_map_def fun_eq_iff)
  ultimately show ?thesis by (simp add: processes_fini_def)
qed

lemma drain_ok:
  assumes inv: "pw_inv H me s"
  shows "\<exists>s'. procwatch_drain H me sid s = Defined s' \<and> pw_inv H me s' \<and> abs_table H s' = initial me sid"
proof -
  obtain s1 where "processes_fini H s = Defined s1" "heap s1 = (\<lambda>a. None)" using fini_ok [OF inv] by blast
  then show ?thesis using init_ok [OF invD(2) [OF inv], of "next_addr s1" sid] by (simp add: procwatch_drain_def)
qed

lemma foreach_ok:
  assumes inv: "pw_inv H me s"
  shows "\<exists>ps. process_foreach H s = Defined ps \<and>
    (\<forall>p. p \<in> set ps \<longleftrightarrow> (\<exists>a. heap s a = Some p) \<and> proc_pid p \<notin> {1, me})"
proof -
  have read: "\<forall>a \<in> set as. \<exists>p. heap s a = Some p \<Longrightarrow> read_all s as = Defined (map (\<lambda>a. the (heap s a)) as)" for as
    by (induction as) auto
  define L where "L = filter (\<lambda>a. Some a \<noteq> proc_init s \<and> Some a \<noteq> proc_self s) (map snd (ht_elems H (processes s)))"
  have as: "a \<in> set L \<longleftrightarrow> a \<in> dom (heap s) \<and> Some a \<noteq> proc_init s \<and> Some a \<noteq> proc_self s" for a
    using elems_heap [OF inv] by (auto simp: L_def)
  have root: "Some a \<noteq> proc_init s \<and> Some a \<noteq> proc_self s \<longleftrightarrow> proc_pid p \<notin> {1, me}" if "heap s a = Some p" for a p
  proof -
    obtain i j where "proc_init s = Some i" "T s 1 = Some i" "proc_self s = Some j" "T s me = Some j"
      using invD(3,4) [OF inv] by blast
    moreover have "T s (proc_pid p) = Some a" by (rule linkedD(2) [OF inv_linked [OF inv] that])
    ultimately show ?thesis using linkedD(1) [OF inv_linked [OF inv]] that by (metis insert_iff option.inject singletonD)
  qed
  have "process_foreach H s = Defined (map (\<lambda>a. the (heap s a)) L)"
    unfolding process_foreach_def L_def [symmetric] by (rule read) (use as in blast)
  moreover have "p \<in> set (map (\<lambda>a. the (heap s a)) L) \<longleftrightarrow> (\<exists>a. heap s a = Some p) \<and> proc_pid p \<notin> {1, me}" for p
  proof
    assume "p \<in> set (map (\<lambda>a. the (heap s a)) L)"
    then obtain a where "a \<in> set L" "p = the (heap s a)" by auto
    then have "heap s a = Some p" "Some a \<noteq> proc_init s \<and> Some a \<noteq> proc_self s" using as by auto
    then show "(\<exists>a. heap s a = Some p) \<and> proc_pid p \<notin> {1, me}" using root by blast
  next
    assume "(\<exists>a. heap s a = Some p) \<and> proc_pid p \<notin> {1, me}"
    then obtain a where a: "heap s a = Some p" "proc_pid p \<notin> {1, me}" by blast
    then have "a \<in> set L" using as root by blast
    then show "p \<in> set (map (\<lambda>a. the (heap s a)) L)" using a(1) by force
  qed
  ultimately show ?thesis by blast
qed

section \<open>Events\<close>

lemma notify_ok:
  assumes inv: "pw_inv H me s" and a: "T s pid = Some a"
    and n: "pid \<in> {1, me} \<longrightarrow> tracked (fst (spec_notify cb ev pid (abs_table H s) d)) pid \<noteq> None"
  shows "\<exists>s' d'. notify H (map_option spec_cb cb) ev (Some a) s d = Defined (s', d') \<and> pw_inv H me s' \<and>
    (abs_table H s', d') = spec_notify cb ev pid (abs_table H s) d"
proof -
  obtain p where p: "heap s a = Some p" "proc_pid p = pid" using linkedD(1) [OF inv_linked [OF inv] a] by blast
  have i: "tracked (abs_table H s) pid = Some (info p)" using tracked_abs(1) [OF inv] a p by blast
  show ?thesis
  proof (cases cb)
    case None
    then show ?thesis using inv by (simp add: notify_def callback_def spec_notify_def)
  next
    case (Some f)
    obtain act d' where f: "f ev pid (info p) d = (act, d')" by fastforce
    show ?thesis
    proof (cases act)
      case PROCWATCH_ACTION_DEFAULT
      then show ?thesis using inv p f i Some by (simp add: notify_def callback_def spec_cb_def spec_notify_def)
    next
      case PROCWATCH_ACTION_DROP
      have "pid \<in> descendants (tracked (abs_table H s)) pid" by (simp add: descendants_def)
      then have "pid \<notin> {1, me}"
        using n f i Some PROCWATCH_ACTION_DROP by (auto simp: spec_notify_def spec_drop_def)
      with drop_ok [OF inv a] obtain s' where "process_drop H s pid = Defined (True, s')" "pw_inv H me s'"
          "abs_table H s' = spec_drop pid (abs_table H s)" by blast
      then show ?thesis
        using p f i Some PROCWATCH_ACTION_DROP by (simp add: notify_def callback_def spec_cb_def spec_notify_def)
    qed
  qed
qed

lemma event_refines:
  assumes inv: "pw_inv H me s" and ok: "event_ok me cb ev (abs_table H s) d"
  shows "\<exists>s' d'. handle_event H (map_option spec_cb cb) ev s d = Defined (s', d') \<and> pw_inv H me s' \<and>
    (abs_table H s', d') = spec_event cb ev (abs_table H s) d"
proof (cases "T s (tgid (actor ev))")
  case None
  then show ?thesis
    using inv tracked_abs(2) [OF inv] by (cases ev) (auto simp: handle_event_def spec_event_def process_get_def)
next
  case (Some a)
  then obtain i where i: "tracked (abs_table H s) (tgid (actor ev)) = Some i"
    using tracked_abs(2) [OF inv, of "tgid (actor ev)"] by auto
  obtain p where p: "heap s a = Some p" "proc_pid p = tgid (actor ev)"
    using linkedD(1) [OF inv_linked [OF inv] Some] by blast
  note run = handle_event_def spec_event_def process_get_def
  show ?thesis
  proof (cases ev)
    case (PROC_EVENT_FORK parent child)
    then show ?thesis
      using fork_ok [OF inv, of "tgid parent" "tgid child"] inv ok i Some by (auto simp: run event_ok_def)
  next
    case (PROC_EVENT_EXEC q)
    then have spec: "spec_event cb ev (abs_table H s) d = spec_notify cb PROCWATCH_EVENT_EXEC (tgid q) (abs_table H s) d"
      using i by (simp add: spec_event_def)
    have "tgid q \<in> {1, me} \<longrightarrow> tracked (fst (spec_event cb ev (abs_table H s) d)) (tgid q) \<noteq> None"
      using ok PROC_EVENT_EXEC unfolding event_ok_def by simp
    from notify_ok [OF inv _ this [unfolded spec], of a] show ?thesis
      using PROC_EVENT_EXEC Some unfolding spec by (simp add: handle_event_def process_get_def)
  next
    case (PROC_EVENT_SID q)
    then obtain s1 where s1: "process_insert H s (tgid q) 0 (tgid q) = Defined (Some a, s1)" "pw_inv H me s1" "T s1 = T s"
        "abs_table H s1 = spec_setsid (tgid q) (abs_table H s)"
      using setsid_ok [OF inv, of "tgid q" a] ok Some by (auto simp: event_ok_def)
    have spec: "spec_event cb ev (abs_table H s) d = spec_notify cb PROCWATCH_EVENT_SETSID (tgid q) (abs_table H s1) d"
      using i s1(4) PROC_EVENT_SID by (simp add: spec_event_def)
    have "tgid q \<in> {1, me} \<longrightarrow> tracked (fst (spec_event cb ev (abs_table H s) d)) (tgid q) \<noteq> None"
      using ok PROC_EVENT_SID unfolding event_ok_def by simp
    from notify_ok [OF s1(2) _ this [unfolded spec], of a] show ?thesis
      using PROC_EVENT_SID Some s1(1,3) unfolding spec by (simp add: handle_event_def process_get_def)
  next
    case (PROC_EVENT_EXIT q code sig)
    then have "sig = SIGCHLD \<Longrightarrow> tgid q \<notin> {1, me} \<and> a \<notin> set (ready s)"
      using ok exited_abs [OF inv p(1)] p(2) by (auto simp: event_ok_def)
    then show ?thesis
      using exit_ok [OF inv, of "tgid q" a code] inv i Some PROC_EVENT_EXIT by (auto simp: run)
  qed (use inv i Some in \<open>auto simp: run\<close>)
qed

end

section \<open>Runs of the module\<close>

text \<open>
  What the monitor does to the table between \<^verbatim>\<open>procwatch_start\<close> and \<^verbatim>\<open>procwatch_stop\<close>: it passes on the events
  of the kernel, collects and frees processes that have exited, drops a process, and drains the table.
\<close>

datatype pw_op = Ingest proc_event | Collect | Drop pid | Drain pid

fun pw_exec :: "'t proc_ops \<Rightarrow> 'd spec_callback option \<Rightarrow> pid \<Rightarrow> pw_op \<Rightarrow> 't procs \<Rightarrow> 'd \<Rightarrow> ('t procs \<times> 'd) outcome" where
  "pw_exec H cb me (Ingest ev) s d = handle_event H (map_option spec_cb cb) ev s d"
| "pw_exec H cb me Collect s d =
     obind (process_collect H s) (\<lambda>(r, s').
     case r of
       Inl e \<Rightarrow> Defined (s', d)
     | Inr a \<Rightarrow> obind (process_destroy s' a) (\<lambda>s''. Defined (s'', d)))"
| "pw_exec H cb me (Drop pid) s d = obind (process_drop H s pid) (\<lambda>(b, s'). Defined (s', d))"
| "pw_exec H cb me (Drain sid) s d = obind (procwatch_drain H me sid s) (\<lambda>s'. Defined (s', d))"

fun op_ok :: "pid \<Rightarrow> 'd spec_callback option \<Rightarrow> pw_op \<Rightarrow> table \<Rightarrow> 'd \<Rightarrow> bool" where
  "op_ok me cb (Ingest ev) t d = event_ok me cb ev t d"
| "op_ok me cb Collect t d = True"
| "op_ok me cb (Drop pid) t d = (pid \<notin> {1, me})"
| "op_ok me cb (Drain sid) t d = True"

inductive pw_reach :: "'t proc_ops \<Rightarrow> 'd spec_callback option \<Rightarrow> pid \<Rightarrow> 't procs \<Rightarrow> 'd \<Rightarrow> bool"
  for H cb me where
  start: "processes_init H (\<lambda>a. None) n me sid = Defined s \<Longrightarrow> me \<noteq> 1 \<Longrightarrow> pw_reach H cb me s d"
| step: "pw_reach H cb me s d \<Longrightarrow> op_ok me cb op (abs_table H s) d \<Longrightarrow> pw_exec H cb me op s d = Defined (s', d') \<Longrightarrow>
    pw_reach H cb me s' d'"

context proc_table
begin

lemma exec_ok:
  assumes inv: "pw_inv H me s" and ok: "op_ok me cb op (abs_table H s) d"
  shows "\<exists>s' d'. pw_exec H cb me op s d = Defined (s', d') \<and> pw_inv H me s'"
proof (cases op)
  case (Ingest ev)
  then show ?thesis using event_refines [OF inv, of cb ev d] ok by auto
next
  case Collect
  obtain r s' where "process_collect H s = Defined (r, s')" "case r of
       Inl e \<Rightarrow> s' = s \<and> spec_collect (abs_table H s) = (Inl e, abs_table H s)
     | Inr a \<Rightarrow> \<exists>p s''. heap s' a = Some p \<and> process_destroy s' a = Defined s'' \<and> pw_inv H me s'' \<and>
         spec_collect (abs_table H s) = (Inr (proc_pid p, info p), abs_table H s'')"
    using collect_ok [OF inv] by blast
  then show ?thesis using inv Collect by (cases r) auto
next
  case (Drop pid)
  then show ?thesis
    using drop_ok [OF inv, of pid] drop_untracked [of s pid] ok inv by (cases "T s pid") auto
next
  case (Drain sid)
  then show ?thesis using drain_ok [OF inv, of sid] by auto
qed

lemma reach_inv: "pw_reach H cb me s d \<Longrightarrow> pw_inv H me s"
proof (induction rule: pw_reach.induct)
  case (start n sid s d)
  then show ?case using init_ok [of me n sid] by auto
next
  case (step s d op s' d')
  then show ?case using exec_ok [OF step.IH step.hyps(2)] by auto
qed

end

interpretation alist_procs: proc_table alist_ops
  by (rule proc_table.intro) (rule alist_table.hash_table_axioms)

text \<open>The table after a monitor with the number 7 has started, in session 5, and forked a process 8.\<close>

definition example_start :: "(pid \<times> addr) list procs" where
  "example_start = (case processes_init alist_ops (\<lambda>a. None) 0 7 5 of Defined s \<Rightarrow> s)"

definition example_fork :: "(pid \<times> addr) list procs" where
  "example_fork = (case process_insert alist_ops example_start 8 7 0 of Defined (r, s) \<Rightarrow> s)"

lemma example_start_ok:
  "pw_inv alist_ops 7 example_start" "abs_table alist_ops example_start = initial 7 5"
  "processes_init alist_ops (\<lambda>a. None) 0 7 5 = Defined example_start"
  using alist_procs.init_ok [of 7 0 5] by (auto simp: example_start_def)

lemma example_fork_ok:
  "pw_inv alist_ops 7 example_fork" "abs_table alist_ops example_fork = spec_fork 7 8 (initial 7 5)"
proof -
  have "\<exists>r s'. process_insert alist_ops example_start 8 7 0 = Defined (r, s') \<and> pw_inv alist_ops 7 s' \<and>
      abs_table alist_ops s' = spec_fork 7 8 (abs_table alist_ops example_start)"
    by (rule alist_procs.fork_ok [OF example_start_ok(1)])
      (use alist_procs.tracked_abs(2) [OF example_start_ok(1), of 7] in \<open>simp_all add: example_start_ok(2) initial_def\<close>)
  then show "pw_inv alist_ops 7 example_fork" "abs_table alist_ops example_fork = spec_fork 7 8 (initial 7 5)"
    by (auto simp: example_fork_def example_start_ok(2))
qed

section \<open>Properties\<close>

text \<open>
  C1. An event of the kernel that reaches \<^verbatim>\<open>procwatch_ingest\<close>, on a table in a consistent state and under the
  documented behaviour of the kernel, never makes the module use a structure that has been freed or loop; it
  leaves the table consistent, and changes what the table says exactly as the specification of the event does:
  a fork adds the child with the session of its parent, a new session is recorded, an exit queues the process and
  hands its children to process 1, and a callback that asks for it makes the process and its descendants vanish.
\<close>

theorem procwatch_event_refines:
  assumes "hash_table H" and "pw_inv H me s" and "event_ok me cb ev (abs_table H s) d"
  shows "\<exists>s' d'. procwatch_ingest H (map_option spec_cb cb) (Some ev) s d = Defined (True, s', d') \<and> pw_inv H me s' \<and>
    (abs_table H s', d') = spec_event cb ev (abs_table H s) d"
  using proc_table.event_refines [OF proc_table.intro [OF assms(1)] assms(2,3)] by (auto simp: procwatch_ingest_def)

theorem procwatch_event_refines_witness:
  "\<exists>s' d'. procwatch_ingest alist_ops (map_option spec_cb None) (Some (PROC_EVENT_FORK (7, 7) (8, 8))) example_start ()
      = Defined (True, s', d') \<and> pw_inv alist_ops 7 s' \<and>
    (abs_table alist_ops s', d') =
      spec_event None (PROC_EVENT_FORK (7, 7) (8, 8)) (abs_table alist_ops example_start) ()"
  by (rule procwatch_event_refines [OF alist_table.hash_table_axioms example_start_ok(1)])
    (simp add: event_ok_def example_start_ok(2) initial_def)

text \<open>
  C2. Whatever sequence of events, collections, drops and drains the monitor goes through from the start, the
  table is consistent: it and the heap describe the same processes, the lists of children and the recorded parents
  agree and have no cycle, the queue of exited processes holds each of them once, without children and without
  process 1 and the monitor. The next operation runs without an invalid access or an endless loop.
\<close>

theorem procwatch_reachable_safe:
  assumes "hash_table H" and "pw_reach H cb me s d" and "op_ok me cb op (abs_table H s) d"
  shows "pw_inv H me s \<and> (\<exists>s' d'. pw_exec H cb me op s d = Defined (s', d') \<and> pw_inv H me s')"
  using proc_table.exec_ok [OF proc_table.intro [OF assms(1)] _ assms(3)]
    proc_table.reach_inv [OF proc_table.intro [OF assms(1)] assms(2)] by blast

theorem procwatch_reachable_safe_witness:
  "pw_inv alist_ops 7 example_start \<and>
   (\<exists>s' d'. pw_exec alist_ops None 7 (Ingest (PROC_EVENT_FORK (7, 7) (8, 8))) example_start () = Defined (s', d') \<and>
      pw_inv alist_ops 7 s')"
proof (rule procwatch_reachable_safe [OF alist_table.hash_table_axioms])
  show "pw_reach alist_ops None 7 example_start ()" by (rule pw_reach.start [OF example_start_ok(3)]) simp
  show "op_ok 7 None (Ingest (PROC_EVENT_FORK (7, 7) (8, 8))) (abs_table alist_ops example_start) ()"
    by (simp add: event_ok_def example_start_ok(2) initial_def)
qed

text \<open>
  C14. \<^verbatim>\<open>process_drop\<close> returns, whatever the shape of the tree of processes: the depth of its recursion is bounded
  by twice the number of processes. It removes the process and its descendants, no more and no less, from the
  table and from the queue, and no other process changes.
\<close>

theorem process_drop_returns:
  assumes "hash_table H" and "pw_inv H me s" and "ht_get H (processes s) pid \<noteq> None" and "pid \<notin> {1, me}"
  shows "\<exists>s'. process_drop H s pid = Defined (True, s') \<and> pw_inv H me s' \<and>
    abs_table H s' = spec_drop pid (abs_table H s)"
  using proc_table.drop_ok [OF proc_table.intro [OF assms(1)] assms(2)] assms(3,4) by blast

theorem process_drop_returns_witness:
  "\<exists>s'. process_drop alist_ops example_fork 8 = Defined (True, s') \<and> pw_inv alist_ops 7 s' \<and>
    abs_table alist_ops s' = spec_drop 8 (abs_table alist_ops example_fork)"
  by (rule process_drop_returns [OF alist_table.hash_table_axioms example_fork_ok(1)])
    (use alist_procs.tracked_abs(2) [OF example_fork_ok(1), of 8] in \<open>simp_all add: example_fork_ok(2) spec_fork_def initial_def\<close>)

text \<open>
  \<^verbatim>\<open>process_collect\<close> reports \<open>ECHILD\<close> exactly when only process 1 and the monitor are tracked, \<open>EAGAIN\<close> when no
  tracked process has exited, and otherwise hands out the process that exited first, with the parent, session and
  status that were recorded. The process is then gone from the table and from the queue; once the caller has
  freed it the table is consistent again.
\<close>

theorem process_collect_fifo:
  assumes "hash_table H" and "pw_inv H me s"
  shows "\<exists>r s'. process_collect H s = Defined (r, s') \<and>
    (case r of
       Inl e \<Rightarrow> s' = s \<and> spec_collect (abs_table H s) = (Inl e, abs_table H s)
     | Inr a \<Rightarrow> \<exists>p s''. heap s' a = Some p \<and> process_destroy s' a = Defined s'' \<and> pw_inv H me s'' \<and>
         spec_collect (abs_table H s) = (Inr (proc_pid p, info p), abs_table H s''))"
  by (rule proc_table.collect_ok [OF proc_table.intro [OF assms(1)] assms(2)])

theorem process_collect_fifo_witness:
  "\<exists>r s'. process_collect alist_ops example_fork = Defined (r, s') \<and>
    (case r of
       Inl e \<Rightarrow> s' = example_fork \<and> spec_collect (abs_table alist_ops example_fork) = (Inl e, abs_table alist_ops example_fork)
     | Inr a \<Rightarrow> \<exists>p s''. heap s' a = Some p \<and> process_destroy s' a = Defined s'' \<and> pw_inv alist_ops 7 s'' \<and>
         spec_collect (abs_table alist_ops example_fork) = (Inr (proc_pid p, info p), abs_table alist_ops s''))"
  by (rule process_collect_fifo [OF alist_table.hash_table_axioms example_fork_ok(1)])

end
