(* ===== verification/Connector.thy ===== *)
theory Connector
  imports Process_Table
begin

text \<open>
  \<^verbatim>\<open>src/common/cn_proc.c\<close> and the functions of \<^verbatim>\<open>src/common/procwatch.c\<close> that use it: the connection to the process
  event connector of the kernel. What the system calls return is an argument of the operations; a control message
  that is handed to the kernel is part of the result.
\<close>

section \<open>The connection\<close>

record conn =
  nld :: int
  listening :: bool

definition conn_initial :: conn where
  "conn_initial = \<lparr> nld = -1, listening = False \<rparr>"

definition cn_proc_connect :: "errno + int \<Rightarrow> errno option \<Rightarrow> conn \<Rightarrow> bool \<times> conn" where
  "cn_proc_connect socket_result bind_result c =
     (if nld c \<ge> 0 then (True, c)
      else case socket_result of
        Inl e \<Rightarrow> (False, c\<lparr> nld := -1 \<rparr>)
      | Inr fd \<Rightarrow> (case bind_result of None \<Rightarrow> (True, c\<lparr> nld := fd \<rparr>) | Some e \<Rightarrow> (False, c\<lparr> nld := -1 \<rparr>)))"

definition cn_proc_fd :: "conn \<Rightarrow> errno + int" where
  "cn_proc_fd c = (if nld c < 0 then Inl EBADF else Inr (nld c))"

section \<open>Messages\<close>

text \<open>
  The sizes of \<^verbatim>\<open>struct nlmsghdr\<close>, \<^verbatim>\<open>struct cn_msg\<close> and \<^verbatim>\<open>struct proc_ctl\<close>, and of the smallest event. The
  headers of a message are the fields that the code reads or writes.
\<close>

definition nlmsghdr_size :: nat where "nlmsghdr_size = 16"
definition cn_msg_size :: nat where "cn_msg_size = 20"
definition proc_ctl_size :: nat where "proc_ctl_size = 4"
definition PROC_EVENT_MIN_SIZE :: nat where "PROC_EVENT_MIN_SIZE = 24"
definition CN_IDX_PROC :: "32 word" where "CN_IDX_PROC = 1"
definition CN_VAL_PROC :: "32 word" where "CN_VAL_PROC = 1"

record nl_message =
  nlmsg_len :: "32 word"
  id_idx :: "32 word"
  id_val :: "32 word"
  cnmsg_len :: "16 word"

definition send_headers :: "nat \<Rightarrow> nl_message" where
  "send_headers len =
     \<lparr> nlmsg_len = word_of_nat (nlmsghdr_size + cn_msg_size + len), id_idx = CN_IDX_PROC, id_val = CN_VAL_PROC,
       cnmsg_len = word_of_nat len \<rparr>"

text \<open>\<open>sendmsg\<close> is what the call of that name returns.\<close>

definition cn_proc_send :: "errno + nat \<Rightarrow> nat \<Rightarrow> errno + nat" where
  "cn_proc_send sendmsg len =
     (case sendmsg of
        Inl e \<Rightarrow> Inl e
      | Inr res \<Rightarrow> if res \<noteq> nlmsghdr_size + cn_msg_size + len then Inl ECOMM else Inr res)"

text \<open>
  What \<^verbatim>\<open>poll\<close> reports, an error, a timeout, or the flags \<^verbatim>\<open>POLLIN\<close> and \<^verbatim>\<open>POLLERR\<close>, and what \<^verbatim>\<open>recvmsg\<close> then
  returns, an error or the full length of the message.
\<close>

datatype poll_result = Poll_Error errno | Poll_Timeout | Poll_Ready (pollin: bool) (pollerr: bool)

definition cn_proc_receive :: "poll_result \<Rightarrow> errno + nat \<times> nl_message \<Rightarrow> errno + nat" where
  "cn_proc_receive poll recvmsg =
     (case poll of
        Poll_Error e \<Rightarrow> Inl e
      | Poll_Timeout \<Rightarrow> Inl ETIMEDOUT
      | Poll_Ready i err \<Rightarrow>
          if err then Inl EPIPE
          else if \<not> i then Inl EIO
          else case recvmsg of
            Inl e \<Rightarrow> Inl e
          | Inr (res, m) \<Rightarrow>
              if res < nlmsghdr_size \<or> res \<noteq> unat (nlmsg_len m) then Inl EPROTO
              else if res - nlmsghdr_size < cn_msg_size then Inl EPROTO
              else if id_idx m \<noteq> CN_IDX_PROC \<or> id_val m \<noteq> CN_VAL_PROC then Inl EPROTO
              else if res - nlmsghdr_size - cn_msg_size \<noteq> unat (cnmsg_len m) then Inl EPROTO
              else Inr (res - nlmsghdr_size - cn_msg_size))"

text \<open>An attempt to receive an event: the results of the two system calls, and the contents of the buffer.\<close>

type_synonym rx = "poll_result \<times> (errno + nat \<times> nl_message) \<times> proc_event"

datatype rx_result = Rx_Error errno | Rx_Event proc_event | Rx_Fatal

definition cn_proc_receive_event :: "rx \<Rightarrow> rx_result" where
  "cn_proc_receive_event r =
     (case r of (poll, recvmsg, ev) \<Rightarrow>
        (case cn_proc_receive poll recvmsg of
           Inl e \<Rightarrow> Rx_Error e
         | Inr rlen \<Rightarrow> if rlen < PROC_EVENT_MIN_SIZE then Rx_Fatal else Rx_Event ev))"

section \<open>Enabling and disabling the events\<close>

datatype proc_cn_mcast_op = PROC_CN_MCAST_LISTEN | PROC_CN_MCAST_IGNORE

text \<open>
  How the loop that waits for the acknowledgement ends; it is still waiting if \<open>rxs\<close>, the events so far, do not
  decide it.
\<close>

datatype ack = Ack errno | No_Ack errno | Ack_Fatal | Waiting

fun wait_ack :: "rx list \<Rightarrow> ack" where
  "wait_ack [] = Waiting"
| "wait_ack (r # rxs) =
     (case cn_proc_receive_event r of
        Rx_Error e \<Rightarrow> No_Ack e
      | Rx_Fatal \<Rightarrow> Ack_Fatal
      | Rx_Event ev \<Rightarrow> (case ev of PROC_EVENT_NONE err \<Rightarrow> Ack err | _ \<Rightarrow> wait_ack rxs))"

datatype 'a run = Return 'a | Fatal | Blocked

text \<open>
  \<^verbatim>\<open>cn_proc_listen\<close>: the result, the connection, and the control messages that were handed to \<^verbatim>\<open>sendmsg\<close>. The
  test of \<^verbatim>\<open>cn_proc_send\<close> compares its result with 0.
\<close>

definition cn_proc_listen :: "errno + nat \<Rightarrow> rx list \<Rightarrow> bool \<Rightarrow> conn \<Rightarrow> (bool \<times> conn) run \<times> proc_cn_mcast_op list" where
  "cn_proc_listen sendmsg rxs endis c =
     (if endis = listening c then (Return (True, c), [])
      else
        (if cn_proc_send sendmsg proc_ctl_size = Inr 0 then Return (False, c)
         else case wait_ack rxs of
           Waiting \<Rightarrow> Blocked
         | Ack_Fatal \<Rightarrow> Fatal
         | Ack err \<Rightarrow> if err \<noteq> EOK then Return (False, c) else Return (True, c\<lparr> listening := endis \<rparr>)
         | No_Ack e \<Rightarrow> Return (False, if \<not> endis then c\<lparr> listening := False \<rparr> else c),
         [if endis then PROC_CN_MCAST_LISTEN else PROC_CN_MCAST_IGNORE]))"

definition cn_proc_disconnect :: "errno + nat \<Rightarrow> rx list \<Rightarrow> conn \<Rightarrow> conn run" where
  "cn_proc_disconnect sendmsg rxs c =
     (if nld c < 0 then Return c
      else if listening c then
        (case fst (cn_proc_listen sendmsg rxs False c) of
           Return (r, c') \<Rightarrow> Return (c'\<lparr> nld := -1 \<rparr>)
         | Fatal \<Rightarrow> Fatal
         | Blocked \<Rightarrow> Blocked)
      else Return (c\<lparr> nld := -1 \<rparr>))"

text \<open>The system calls of a call of \<^verbatim>\<open>procwatch_reconnect\<close>.\<close>

record reconnect_calls =
  rc_ignore :: "errno + nat"
  rc_ignore_rx :: "rx list"
  rc_socket :: "errno + int"
  rc_bind :: "errno option"
  rc_listen :: "errno + nat"
  rc_listen_rx :: "rx list"

definition procwatch_reconnect :: "reconnect_calls \<Rightarrow> conn \<Rightarrow> (bool \<times> conn) run" where
  "procwatch_reconnect k c =
     (case cn_proc_disconnect (rc_ignore k) (rc_ignore_rx k) c of
        Fatal \<Rightarrow> Fatal
      | Blocked \<Rightarrow> Blocked
      | Return c1 \<Rightarrow>
          (case cn_proc_connect (rc_socket k) (rc_bind k) c1 of
             (False, c2) \<Rightarrow> Return (False, c2)
           | (True, c2) \<Rightarrow> fst (cn_proc_listen (rc_listen k) (rc_listen_rx k) True c2)))"

text \<open>
  \<^verbatim>\<open>procwatch_start\<close>; the table is absent (\<open>None\<close>) unless the module has been started. It is started with the
  number and session of the monitor.
\<close>

definition procwatch_start ::
  "'t proc_ops \<Rightarrow> pid \<Rightarrow> pid \<Rightarrow> reconnect_calls \<Rightarrow> 't procs option \<Rightarrow> conn \<Rightarrow> (bool \<times> 't procs option \<times> conn) outcome run" where
  "procwatch_start H pid sid k t c =
     (if t \<noteq> None then Fatal
      else case processes_init H (\<lambda>a. None) 0 pid sid of
        UB \<Rightarrow> Return UB
      | Defined s \<Rightarrow>
          (case procwatch_reconnect k c of
             Fatal \<Rightarrow> Fatal
           | Blocked \<Rightarrow> Blocked
           | Return (True, c') \<Rightarrow> Return (Defined (True, Some s, c'))
           | Return (False, c') \<Rightarrow> Return (obind (processes_fini H s) (\<lambda>s'. Defined (False, None, c')))))"

definition procwatch_stop ::
  "'t proc_ops \<Rightarrow> errno + nat \<Rightarrow> rx list \<Rightarrow> 't procs \<Rightarrow> conn \<Rightarrow> ('t procs option \<times> conn) outcome run" where
  "procwatch_stop H sendmsg rxs s c =
     (case cn_proc_disconnect sendmsg rxs c of
        Fatal \<Rightarrow> Fatal
      | Blocked \<Rightarrow> Blocked
      | Return c' \<Rightarrow> Return (obind (processes_fini H s) (\<lambda>s'. Defined (None, c'))))"

text \<open>
  The count of listeners in the kernel, as far as this process is concerned: an enable counts if it has been
  acknowledged, a disable if it has not been refused. Calls that do not return end the sequence.
\<close>

type_synonym listen_call = "bool \<times> (errno + nat) \<times> rx list"

definition enabled :: "proc_cn_mcast_op list \<Rightarrow> ack \<Rightarrow> nat" where
  "enabled sent a = (if PROC_CN_MCAST_LISTEN \<in> set sent \<and> a = Ack EOK then 1 else 0)"

definition disabled :: "proc_cn_mcast_op list \<Rightarrow> ack \<Rightarrow> nat" where
  "disabled sent a = (if PROC_CN_MCAST_IGNORE \<in> set sent \<and> (case a of Ack err \<Rightarrow> err = EOK | No_Ack e \<Rightarrow> True | _ \<Rightarrow> False) then 1 else 0)"

fun listen_counts :: "listen_call list \<Rightarrow> conn \<Rightarrow> (nat \<times> nat \<times> conn) option" where
  "listen_counts [] c = Some (0, 0, c)"
| "listen_counts ((endis, sendmsg, rxs) # calls) c =
     (case cn_proc_listen sendmsg rxs endis c of
        (Return (r, c'), sent) \<Rightarrow>
          map_option (\<lambda>(e, d, c''). (enabled sent (wait_ack rxs) + e, disabled sent (wait_ack rxs) + d, c''))
            (listen_counts calls c')
      | _ \<Rightarrow> None)"

section \<open>Properties\<close>

lemma send_not_zero: "cn_proc_send sendmsg len \<noteq> Inr 0"
  by (auto simp: cn_proc_send_def nlmsghdr_size_def split: sum.splits)

lemma listen_counts_balance:
  "listen_counts calls c = Some (e, d, c') \<Longrightarrow>
    e + of_bool (listening c) = d + of_bool (listening c')"
proof (induction calls arbitrary: c e d)
  case Nil
  then show ?case by simp
next
  case (Cons call calls)
  obtain endis sendmsg rxs where call: "call = (endis, sendmsg, rxs)" by (cases call)
  with Cons.prems obtain r c1 sent e' d' where
    1: "cn_proc_listen sendmsg rxs endis c = (Return (r, c1), sent)" and
    2: "listen_counts calls c1 = Some (e', d', c')"
      "e = enabled sent (wait_ack rxs) + e'" "d = disabled sent (wait_ack rxs) + d'"
    by (auto split: prod.splits run.splits)
  have "enabled sent (wait_ack rxs) + of_bool (listening c) = disabled sent (wait_ack rxs) + (of_bool (listening c1) :: nat)"
    using 1 by (auto simp: cn_proc_listen_def send_not_zero enabled_def disabled_def split: if_splits ack.splits)
  with Cons.IH [OF 2(1)] 2(2,3) show ?case by simp
qed


definition example_ack :: "errno \<Rightarrow> rx" where
  "example_ack err = (Poll_Ready True False, Inr (64, \<lparr> nlmsg_len = 64, id_idx = 1, id_val = 1, cnmsg_len = 28 \<rparr>), PROC_EVENT_NONE err)"


end
