(* ===== verification/Monitor.thy ===== *)
theory Monitor
  imports Control Connector
begin

text \<open>
  The monitor of \<^verbatim>\<open>src/sysvrun/monitor.c\<close>: the inner loop that watches a running service and stops it on request,
  the loop that waits between starts, and the outer loop that starts and restarts the service. A turn of a loop
  gets the results of its system calls as an argument. The signals that the monitor sends, what it reports to its
  parent and what it writes to the log are part of the state.
\<close>

section \<open>State\<close>

record monitor =
  mon_start_times :: "u64 list option"
  mon_limit_interval :: u64
  mon_limit_burst :: u64
  mon_cursor :: nat
  mon_child :: pid
  mon_pid :: pid
  mon_sid :: pid
  mon_wstatus :: int
  mon_state :: monitor_state

definition monitor_set_state :: "monitor \<Rightarrow> monitor_state \<Rightarrow> monitor" where
  "monitor_set_state mon st = mon\<lparr> mon_state := st \<rparr>"

text \<open>The wait status of a process.\<close>

definition WTERMSIG :: "int \<Rightarrow> int" where "WTERMSIG w = w mod 128"
definition WEXITSTATUS :: "int \<Rightarrow> int" where "WEXITSTATUS w = (w div 256) mod 256"
definition WIFEXITED :: "int \<Rightarrow> bool" where "WIFEXITED w \<longleftrightarrow> WTERMSIG w = 0"
definition WIFSIGNALED :: "int \<Rightarrow> bool" where "WIFSIGNALED w \<longleftrightarrow> WTERMSIG w \<noteq> 0 \<and> WTERMSIG w \<noteq> 127"

section \<open>Output of the service\<close>

text \<open>
  \<^verbatim>\<open>fd_to_log\<close>: the lines of the data, and the result; an unreadable descriptor gives a negative one unless there
  is just nothing to read.
\<close>

function output_lines :: "string \<Rightarrow> string list" where
  "output_lines buf =
     (if buf = [] then []
      else
        let line = takeWhile (\<lambda>c. c \<noteq> NUL \<and> c \<noteq> NL) buf;
            rest = output_lines (tl (dropWhile (\<lambda>c. c \<noteq> NUL \<and> c \<noteq> NL) buf))
        in if line = [] then rest else map suppress line # rest)"
  by pat_completeness auto

termination
proof (relation "measure length")
  fix buf :: string assume "buf \<noteq> []"
  then show "(tl (dropWhile (\<lambda>c. c \<noteq> NUL \<and> c \<noteq> NL) buf), buf) \<in> measure length"
    using length_dropWhile_le [of "\<lambda>c. c \<noteq> NUL \<and> c \<noteq> NL" buf] by (cases buf) (auto simp: less_Suc_eq_le intro: le_trans diff_le_self)
qed simp

declare output_lines.simps [simp del]

definition fd_to_log :: "errno + string \<Rightarrow> int \<times> string list" where
  "fd_to_log data =
     (case data of
        Inl e \<Rightarrow> (if e = EAGAIN then 0 else -1, [])
      | Inr buf \<Rightarrow> (let ls = output_lines buf in (int (length (concat ls)), ls)))"

section \<open>Signals\<close>

record kill_order =
  ko_signal :: int
  ko_all :: bool
  ko_sent :: u64

text \<open>The signals for a process; \<open>me\<close> is the number of the monitor.\<close>

definition monitor_kill :: "pid \<Rightarrow> monitor \<Rightarrow> kill_order \<Rightarrow> process \<Rightarrow> (pid \<times> int) list" where
  "monitor_kill me mon ko p =
     (if proc_pid p \<noteq> me \<and> proc_pid p \<noteq> 1 \<and> (ko_all ko \<or> proc_pid p = mon_pid mon)
      then [(proc_pid p, ko_signal ko), (proc_pid p, SIGCONT)]
      else [])"

section \<open>Process events\<close>

text \<open>The callback; \<open>mysid\<close> is the session of the monitor.\<close>

definition monitor_proc_event :: "settings \<Rightarrow> pid \<Rightarrow> monitor spec_callback" where
  "monitor_proc_event svc mysid ev pid i mon =
     (case ev of
        PROCWATCH_EVENT_SETSID \<Rightarrow>
          if svc_type svc \<noteq> ST_FORKING then (PROCWATCH_ACTION_DROP, mon)
          else if mon_sid mon \<noteq> mysid then (PROCWATCH_ACTION_DROP, mon)
          else (PROCWATCH_ACTION_DEFAULT, mon\<lparr> mon_sid := pi_sid i \<rparr>)
      | PROCWATCH_EVENT_EXEC \<Rightarrow> (PROCWATCH_ACTION_DEFAULT, mon))"

text \<open>\<^verbatim>\<open>monitor_find_main_pid\<close>; \<open>getpid\<close> is the result of \<^verbatim>\<open>command_getpid\<close>, which is called if there is a PID file.\<close>

definition monitor_find_main_pid :: "'t proc_ops \<Rightarrow> bool \<Rightarrow> pid \<Rightarrow> 't procs \<Rightarrow> monitor \<Rightarrow> bool \<times> monitor" where
  "monitor_find_main_pid H pidfile getpid s mon =
     (let mon = (if pidfile
                 then (if getpid > 0 \<and> process_get H s getpid = None then mon\<lparr> mon_pid := 0 \<rparr> else mon\<lparr> mon_pid := getpid \<rparr>)
                 else mon)
      in (mon_pid mon > 0, mon))"

section \<open>Watching the service\<close>

text \<open>
  What does not change during the watch: the settings of the service, the user of the command, whether there is a
  PID file, and the number and session of the monitor.
\<close>

record watch_env =
  we_svc :: settings
  we_uid :: nat
  we_pidfile :: bool
  we_me :: pid
  we_sid :: pid

record 't watch =
  w_mon :: monitor
  w_noisy :: int
  w_procs :: "'t procs"
  w_ko :: kill_order
  w_stopping :: nat
  w_pid :: pid
  w_signals :: "(pid \<times> int) list"
  w_ready :: nat
  w_log :: "(priority \<times> string) list"

text \<open>
  A turn: the result of \<^verbatim>\<open>poll\<close> and the time, what happens on the control socket and on the two pipes if they are
  ready, the process events up to the error that ends them, whether reconnecting works, and what the PID file holds.
\<close>

record turn =
  t_poll :: "errno option"
  t_now :: u64
  t_control :: "(ingest_calls \<times> string) option"
  t_err :: "(errno + string) option"
  t_out :: "(errno + string) option"
  t_events :: "(proc_event list \<times> errno) option"
  t_reconnect :: bool
  t_getpid :: pid

datatype 'w step = Next 'w | Break int 'w

definition sbind :: "'w step outcome \<Rightarrow> ('w \<Rightarrow> 'w step outcome) \<Rightarrow> 'w step outcome" where
  "sbind m f = obind m (\<lambda>r. case r of Next w \<Rightarrow> f w | Break ret w \<Rightarrow> Defined (Break ret w))"

definition control_step :: "nat \<Rightarrow> (ingest_calls \<times> string) option \<Rightarrow> monitor \<Rightarrow> int \<Rightarrow> (bool \<times> monitor \<times> int) outcome" where
  "control_step uid ctl mon noisy =
     (case ctl of
        None \<Rightarrow> Defined (True, mon, noisy)
      | Some (k, buf) \<Rightarrow>
          obind (monitor_control_socket_ingest uid k buf (mon_state mon) noisy) (\<lambda>(e, s).
          Defined (e \<noteq> Failed, monitor_set_state mon (s_state s), s_noisy s)))"

definition watch_control :: "watch_env \<Rightarrow> turn \<Rightarrow> 't watch \<Rightarrow> 't watch step outcome" where
  "watch_control env t w =
     obind (control_step (we_uid env) (t_control t) (w_mon w) (w_noisy w)) (\<lambda>(ok, mon, noisy).
     let w' = w\<lparr> w_mon := mon, w_noisy := noisy \<rparr> in Defined (if ok then Next w' else Break (-1) w'))"

text \<open>The order to send in the given pass, or \<open>None\<close> if there is no further pass.\<close>

definition kill_pass :: "killmode \<Rightarrow> nat \<Rightarrow> kill_order \<Rightarrow> kill_order option" where
  "kill_pass mode pass ko =
     (if pass = 1 then Some (ko\<lparr> ko_all := (ko_all ko \<or> mode = KM_CGROUP), ko_signal := SIGTERM \<rparr>)
      else if pass = 2 then Some (ko\<lparr> ko_all := (ko_all ko \<or> mode = KM_MIXED), ko_signal := SIGKILL \<rparr>)
      else None)"

definition watch_stop :: "'t proc_ops \<Rightarrow> watch_env \<Rightarrow> turn \<Rightarrow> 't watch \<Rightarrow> 't watch step outcome" where
  "watch_stop H env t w =
     (let mon = w_mon w; ko = w_ko w in
      if \<not> (monitor_is_stopping (mon_state mon) \<and> t_now t - ko_sent ko > stop_timeout (we_svc env)) then Defined (Next w)
      else if mon_pid mon \<le> 0 then
        (if ko_sent ko > 0 then
           obind (process_drop H (w_procs w) (mon_child mon)) (\<lambda>(b, s). Defined (Break 0 (w\<lparr> w_procs := s \<rparr>)))
         else Defined (Next (w\<lparr> w_ko := ko\<lparr> ko_sent := t_now t \<rparr> \<rparr>)))
      else if kill_mode (we_svc env) = KM_NONE then
        obind (process_drop H (w_procs w) (if mon_pid mon \<ge> 0 then mon_pid mon else mon_child mon)) (\<lambda>(b, s).
        Defined (Break 0 (w\<lparr> w_procs := s \<rparr>)))
      else
        let pass = w_stopping w + 1 in
        case kill_pass (kill_mode (we_svc env)) pass ko of
          None \<Rightarrow> Defined (Break 0 (w\<lparr> w_stopping := pass \<rparr>))
        | Some ko' \<Rightarrow>
            obind (process_foreach H (w_procs w)) (\<lambda>ps.
            Defined (Next (w\<lparr> w_stopping := pass, w_ko := ko'\<lparr> ko_sent := t_now t \<rparr>,
              w_signals := w_signals w @ concat (map (monitor_kill (we_me env) mon ko') ps) \<rparr>))))"

definition watch_output :: "turn \<Rightarrow> 't watch \<Rightarrow> 't watch" where
  "watch_output t w =
     (let f = (\<lambda>pri data log. case data of None \<Rightarrow> log | Some d \<Rightarrow> log @ map (Pair pri) (snd (fd_to_log d)))
      in w\<lparr> w_log := f LOG_NOTICE (t_out t) (f LOG_ERR (t_err t) (w_log w)) \<rparr>)"

text \<open>\<^verbatim>\<open>while (procwatch_ingest (0))\<close> on the events that are pending.\<close>

fun ingest_all :: "'t proc_ops \<Rightarrow> 'd callback option \<Rightarrow> proc_event list \<Rightarrow> 't procs \<Rightarrow> 'd \<Rightarrow> ('t procs \<times> 'd) outcome" where
  "ingest_all H cb [] s d = Defined (s, d)"
| "ingest_all H cb (ev # evs) s d =
     obind (procwatch_ingest H cb (Some ev) s d) (\<lambda>(r, s', d'). ingest_all H cb evs s' d')"

text \<open>A process that has been collected.\<close>

definition collected :: "watch_env \<Rightarrow> pid \<Rightarrow> int \<Rightarrow> 't watch \<Rightarrow> 't watch" where
  "collected env pid wstatus w =
     (let mon = w_mon w;
          ready = (pid = mon_child mon \<and> svc_type (we_svc env) = ST_FORKING);
          mon1 = (if ready then monitor_set_state mon MS_RUNNING else mon);
          mon2 = (if pid = mon_child mon then mon1\<lparr> mon_child := 0 \<rparr> else mon1);
          mon3 = (if pid = mon_pid mon then mon2\<lparr> mon_wstatus := wstatus \<rparr> else mon2)
      in w\<lparr> w_mon := mon3, w_pid := pid, w_ready := w_ready w + of_bool ready \<rparr>)"

text \<open>
  The loop that collects, with the error that ends it. The first argument bounds the number of turns; every turn
  takes a process off the queue.
\<close>

fun collect_loop :: "nat \<Rightarrow> 't proc_ops \<Rightarrow> watch_env \<Rightarrow> 't watch \<Rightarrow> ('t watch \<times> errno) outcome" where
  "collect_loop 0 H env w = UB"
| "collect_loop (Suc n) H env w =
     obind (process_collect H (w_procs w)) (\<lambda>(r, s).
     case r of
       Inl e \<Rightarrow> Defined (w\<lparr> w_procs := s \<rparr>, e)
     | Inr a \<Rightarrow>
         obind (deref s (Some a)) (\<lambda>(a, p).
         obind (process_destroy s a) (\<lambda>s'.
         collect_loop n H env (collected env (proc_pid p) (proc_wstatus p) (w\<lparr> w_procs := s' \<rparr>)))))"

definition watch_collect :: "'t proc_ops \<Rightarrow> watch_env \<Rightarrow> 't watch \<Rightarrow> ('t watch \<times> errno) outcome" where
  "watch_collect H env w = collect_loop (Suc (length (ready (w_procs w)))) H env w"

text \<open>The tests behind the collection.\<close>

definition watch_done :: "watch_env \<Rightarrow> errno \<Rightarrow> 't watch \<Rightarrow> 't watch step" where
  "watch_done env err w =
     (let mon = w_mon w in
      if svc_type (we_svc env) = ST_ONESHOT \<and> mon_wstatus mon \<ge> 0 then
        Break 0 (w\<lparr> w_mon := monitor_set_state mon MS_RUNNING, w_ready := w_ready w + 1 \<rparr>)
      else if mon_wstatus mon \<ge> 0 \<and> (\<not> monitor_is_stopping (mon_state mon) \<or> kill_mode (we_svc env) = KM_PROCESS) then
        Break 0 w
      else if err = ECHILD \<and> w_pid w \<noteq> 0 then Break 0 w
      else Next w)"

definition watch_ingested :: "'t proc_ops \<Rightarrow> watch_env \<Rightarrow> turn \<Rightarrow> errno \<Rightarrow> 't watch \<Rightarrow> 't watch step outcome" where
  "watch_ingested H env t err w =
     (if err \<noteq> ETIMEDOUT \<and> \<not> t_reconnect t then Defined (Break (-1) w)
      else
        let mon = w_mon w;
            w1 = (if mon_pid mon \<le> 0 \<and> mon_child mon = 0
                  then w\<lparr> w_mon := snd (monitor_find_main_pid H (we_pidfile env) (t_getpid t) (w_procs w) mon) \<rparr> else w)
        in obind (watch_collect H env w1) (\<lambda>(w2, e). Defined (watch_done env e w2)))"

definition watch_events :: "'t proc_ops \<Rightarrow> watch_env \<Rightarrow> turn \<Rightarrow> 't watch \<Rightarrow> 't watch step outcome" where
  "watch_events H env t w =
     (case t_events t of
        None \<Rightarrow> Defined (Next w)
      | Some (evs, err) \<Rightarrow>
          obind (ingest_all H (Some (spec_cb (monitor_proc_event (we_svc env) (we_sid env)))) evs (w_procs w) (w_mon w)) (\<lambda>(s, mon).
          watch_ingested H env t err (w\<lparr> w_procs := s, w_mon := mon \<rparr>)))"

definition watch_turn :: "'t proc_ops \<Rightarrow> watch_env \<Rightarrow> turn \<Rightarrow> 't watch \<Rightarrow> 't watch step outcome" where
  "watch_turn H env t w =
     (if t_poll t \<noteq> None \<and> t_poll t \<noteq> Some EINTR then Defined (Break (-1) w)
      else
        sbind (watch_control env t w) (\<lambda>w.
        sbind (watch_stop H env t w) (\<lambda>w.
        watch_events H env t (watch_output t w))))"

fun watch_loop :: "'t proc_ops \<Rightarrow> watch_env \<Rightarrow> turn list \<Rightarrow> 't watch \<Rightarrow> 't watch step outcome" where
  "watch_loop H env [] w = Defined (Next w)"
| "watch_loop H env (t # ts) w = sbind (watch_turn H env t w) (\<lambda>w. watch_loop H env ts w)"

text \<open>\<^verbatim>\<open>monitor_watch\<close>: its result, or \<open>Next\<close> if the loop is still running; at the end the table is drained.\<close>

definition watch_start :: "monitor \<Rightarrow> int \<Rightarrow> 't procs \<Rightarrow> 't watch" where
  "watch_start mon noisy s =
     \<lparr> w_mon = mon, w_noisy = noisy, w_procs = s, w_ko = \<lparr> ko_signal = 0, ko_all = False, ko_sent = 0 \<rparr>,
       w_stopping = 0, w_pid = 0, w_signals = [], w_ready = 0, w_log = [] \<rparr>"

definition monitor_watch ::
  "'t proc_ops \<Rightarrow> watch_env \<Rightarrow> turn list \<Rightarrow> monitor \<Rightarrow> int \<Rightarrow> 't procs \<Rightarrow> 't watch step outcome" where
  "monitor_watch H env ts mon noisy s =
     obind (watch_loop H env ts (watch_start mon noisy s)) (\<lambda>r.
     case r of
       Next w \<Rightarrow> Defined (Next w)
     | Break ret w \<Rightarrow>
         obind (procwatch_drain H (we_me env) (we_sid env) (w_procs w)) (\<lambda>s'. Defined (Break ret (w\<lparr> w_procs := s' \<rparr>))))"

section \<open>Waiting between starts\<close>

record wait_turn =
  wt_clock :: u64
  wt_poll :: "errno option"
  wt_control :: "(ingest_calls \<times> string) option"
  wt_events :: "(proc_event list \<times> errno) option"
  wt_reconnect :: bool

text \<open>Processes that exit in the meantime are collected and freed.\<close>

fun discard_loop :: "nat \<Rightarrow> 't proc_ops \<Rightarrow> 't procs \<Rightarrow> 't procs outcome" where
  "discard_loop 0 H s = UB"
| "discard_loop (Suc n) H s =
     obind (process_collect H s) (\<lambda>(r, s1).
     case r of Inl e \<Rightarrow> Defined s1 | Inr a \<Rightarrow> obind (process_destroy s1 a) (discard_loop n H))"

text \<open>
  \<^verbatim>\<open>monitor_wait\<close> on the monitor, the noise level and the table, from the state \<open>st\<close>; a deadline of 0 is none. The
  result is \<open>Next\<close> if the loop is still running.
\<close>

definition wait_events :: "'t proc_ops \<Rightarrow> wait_turn \<Rightarrow> 't procs \<Rightarrow> (bool \<times> 't procs) outcome" where
  "wait_events H t s =
     (case wt_events t of
        None \<Rightarrow> Defined (True, s)
      | Some (evs, err) \<Rightarrow>
          obind (ingest_all H None evs s ()) (\<lambda>(s1, d).
          if err \<noteq> ETIMEDOUT \<and> \<not> wt_reconnect t then Defined (False, s1)
          else obind (discard_loop (Suc (length (ready s1))) H s1) (\<lambda>s2. Defined (True, s2))))"

fun monitor_wait ::
  "'t proc_ops \<Rightarrow> nat \<Rightarrow> u64 \<Rightarrow> monitor_state \<Rightarrow> wait_turn list \<Rightarrow> monitor \<times> int \<times> 't procs \<Rightarrow> (monitor \<times> int \<times> 't procs) step outcome" where
  "monitor_wait H uid deadline st ts (mon, noisy, s) =
     (if mon_state mon \<noteq> st then Defined (Break 0 (mon, noisy, s))
      else case ts of
        [] \<Rightarrow> Defined (Next (mon, noisy, s))
      | t # rest \<Rightarrow>
          if deadline \<noteq> 0 \<and> wt_clock t \<ge> deadline then Defined (Break 0 (mon, noisy, s))
          else if wt_poll t \<noteq> None \<and> wt_poll t \<noteq> Some EINTR then Defined (Break (-1) (mon, noisy, s))
          else
            obind (control_step uid (wt_control t) mon noisy) (\<lambda>(ok, mon1, noisy1).
            if \<not> ok then Defined (Break (-1) (mon1, noisy1, s))
            else
              obind (wait_events H t s) (\<lambda>(ok, s1).
              if \<not> ok then Defined (Break (-1) (mon1, noisy1, s1))
              else monitor_wait H uid deadline st rest (mon1, noisy1, s1))))"

declare monitor_wait.simps [simp del]

section \<open>Limiting the rate of starts\<close>

definition MAX_START_LIMIT_BURST :: u64 where "MAX_START_LIMIT_BURST = 100"

text \<open>The ring of the start times, with the first start entered, if there is a limit.\<close>

definition start_limit_init :: "settings \<Rightarrow> u64 \<Rightarrow> monitor \<Rightarrow> monitor" where
  "start_limit_init svc now mon =
     (let interval = start_limit_interval svc; burst = start_limit_burst svc in
      if interval > 0 \<and> burst > 1 then
        let burst' = (if burst > MAX_START_LIMIT_BURST then MAX_START_LIMIT_BURST else burst)
        in mon\<lparr> mon_limit_interval := interval, mon_limit_burst := burst',
                mon_start_times := Some ((replicate (unat burst') 0)[0 := now]), mon_cursor := 1 mod unat burst' \<rparr>
      else mon\<lparr> mon_limit_interval := interval, mon_limit_burst := burst \<rparr>)"

text \<open>The check before a restart at the time \<open>next\<close>: \<open>None\<close> if it would exceed the limit.\<close>

definition start_limit_check :: "u64 \<Rightarrow> monitor \<Rightarrow> monitor option" where
  "start_limit_check next mon =
     (case mon_start_times mon of
        None \<Rightarrow> Some mon
      | Some ts \<Rightarrow>
          if next - ts ! mon_cursor mon < mon_limit_interval mon then None
          else Some (mon\<lparr> mon_start_times := Some (ts[mon_cursor mon := next]),
                          mon_cursor := (mon_cursor mon + 1) mod unat (mon_limit_burst mon) \<rparr>))"

section \<open>The outer loop\<close>

text \<open>How the main process ended: an unclean exit, an unclean signal.\<close>

definition ucexit :: "int \<Rightarrow> bool" where
  "ucexit w \<longleftrightarrow> WIFEXITED w \<and> WEXITSTATUS w \<noteq> 0"

definition ucsig :: "int \<Rightarrow> bool" where
  "ucsig w \<longleftrightarrow> \<not> WIFEXITED w \<and> WIFSIGNALED w \<and> WTERMSIG w \<noteq> SIGHUP \<and> WTERMSIG w \<noteq> SIGINT \<and> WTERMSIG w \<noteq> SIGTERM \<and>
     WTERMSIG w \<noteq> SIGPIPE"

text \<open>The state after the main process of a running service has ended with the status \<open>w\<close>.\<close>

definition exit_state :: "settings \<Rightarrow> int \<Rightarrow> monitor_state" where
  "exit_state svc w =
     (let p = restart_policy svc in
      if remain_after_exit svc \<and> \<not> ucexit w \<and> \<not> ucsig w then MS_REMAINING
      else if p = RP_ALWAYS \<or> (p = RP_ON_SUCCESS \<and> \<not> ucexit w \<and> \<not> ucsig w) \<or> (p = RP_ON_FAILURE \<and> (ucexit w \<or> ucsig w))
        \<or> (p = RP_ON_ABNORMAL \<and> ucsig w) \<or> (p = RP_ON_ABORT \<and> ucsig w) then MS_RESTARTING
      else if ucexit w \<or> ucsig w then MS_FAILED
      else MS_STOPPED)"

text \<open>
  What a turn of the outer loop uses: the time, the turns of the loop that waits, the result of \<^verbatim>\<open>fork_function\<close>, and
  the turns of the watch.
\<close>

record inputs =
  in_clock :: u64
  in_wait :: "wait_turn list"
  in_fork :: "errno + pid"
  in_watch :: "turn list"

record 't main =
  m_mon :: monitor
  m_noisy :: int
  m_procs :: "'t procs"
  m_ready :: nat
  m_signals :: "(pid \<times> int) list"

definition m_state :: "'t main \<Rightarrow> monitor_state \<Rightarrow> 't main" where
  "m_state m st = m\<lparr> m_mon := monitor_set_state (m_mon m) st \<rparr>"

definition main_running :: "'t proc_ops \<Rightarrow> watch_env \<Rightarrow> inputs \<Rightarrow> 't main \<Rightarrow> 't main run outcome" where
  "main_running H env i m =
     obind (monitor_watch H env (in_watch i) (m_mon m) (m_noisy m) (m_procs m)) (\<lambda>r.
     case r of
       Next w \<Rightarrow> Defined Blocked
     | Break ret w \<Rightarrow>
         let m1 = m\<lparr> m_mon := w_mon w, m_noisy := w_noisy w, m_procs := w_procs w, m_ready := m_ready m + w_ready w,
                     m_signals := m_signals m @ w_signals w \<rparr>
         in Defined (Return
              (if ret < 0 then m_state m1 MS_DEAD
               else if mon_state (m_mon m1) \<noteq> MS_RUNNING then m1
               else m_state m1 (exit_state (we_svc env) (mon_wstatus (m_mon m1))))))"

definition main_starting :: "'t proc_ops \<Rightarrow> watch_env \<Rightarrow> inputs \<Rightarrow> 't main \<Rightarrow> 't main run outcome" where
  "main_starting H env i m =
     (let mon = (m_mon m)\<lparr> mon_wstatus := -1, mon_sid := we_sid env \<rparr>; ty = svc_type (we_svc env) in
      case in_fork i of
        Inl e \<Rightarrow> Defined (Return (m\<lparr> m_mon := monitor_set_state (mon\<lparr> mon_child := -1 \<rparr>) MS_DEAD \<rparr>))
      | Inr child \<Rightarrow>
          let mon = mon\<lparr> mon_child := child \<rparr>;
              ready = (ty = ST_SIMPLE \<or> ty = ST_EXEC);
              mon = (if ready then monitor_set_state mon MS_RUNNING else mon);
              mon = (if ty \<noteq> ST_FORKING then mon\<lparr> mon_pid := child \<rparr> else mon)
          in main_running H env i (m\<lparr> m_mon := mon, m_ready := m_ready m + of_bool ready \<rparr>))"

definition main_wait :: "'t proc_ops \<Rightarrow> watch_env \<Rightarrow> inputs \<Rightarrow> u64 \<Rightarrow> 't main \<Rightarrow> 't main run outcome" where
  "main_wait H env i deadline m =
     obind (monitor_wait H (we_uid env) deadline (mon_state (m_mon m)) (in_wait i) (m_mon m, m_noisy m, m_procs m)) (\<lambda>r.
     case r of
       Next w \<Rightarrow> Defined Blocked
     | Break ret (mon, noisy, s) \<Rightarrow>
         let m1 = m\<lparr> m_mon := mon, m_noisy := noisy, m_procs := s \<rparr>
         in Defined (Return (if ret < 0 then m_state m1 MS_DEAD else m1)))"

definition main_restarting :: "'t proc_ops \<Rightarrow> watch_env \<Rightarrow> inputs \<Rightarrow> 't main \<Rightarrow> 't main run outcome" where
  "main_restarting H env i m =
     (let next = in_clock i + restart_delay (we_svc env) in
      case start_limit_check next (m_mon m) of
        None \<Rightarrow> Defined (Return (m_state m MS_FAILED))
      | Some mon \<Rightarrow>
          obind (main_wait H env i next (m\<lparr> m_mon := mon \<rparr>)) (\<lambda>r.
          case r of
            Return m1 \<Rightarrow> if mon_state (m_mon m1) \<noteq> MS_RESTARTING then Defined (Return m1) else main_starting H env i m1
          | Fatal \<Rightarrow> Defined Fatal
          | Blocked \<Rightarrow> Defined Blocked))"

definition main_turn :: "'t proc_ops \<Rightarrow> watch_env \<Rightarrow> inputs \<Rightarrow> 't main \<Rightarrow> 't main run outcome" where
  "main_turn H env i m =
     (case mon_state (m_mon m) of
        MS_RESTARTING \<Rightarrow> main_restarting H env i m
      | MS_STARTING \<Rightarrow> main_starting H env i m
      | MS_RUNNING \<Rightarrow> main_running H env i m
      | MS_STOPPING \<Rightarrow> Defined (Return (m_state m MS_STOPPED))
      | MS_REMAINING \<Rightarrow> main_wait H env i 0 m
      | _ \<Rightarrow> Defined (Return (m_state m MS_DEAD)))"

fun main_loop :: "'t proc_ops \<Rightarrow> watch_env \<Rightarrow> inputs list \<Rightarrow> 't main \<Rightarrow> 't main run outcome" where
  "main_loop H env is m =
     (if state_num (mon_state (m_mon m)) \<ge> state_num MS_STOPPED then Defined (Return m)
      else case is of
        [] \<Rightarrow> Defined Blocked
      | i # rest \<Rightarrow>
          obind (main_turn H env i m) (\<lambda>r.
          case r of Return m' \<Rightarrow> main_loop H env rest m' | Fatal \<Rightarrow> Defined Fatal | Blocked \<Rightarrow> Defined Blocked))"

declare main_loop.simps [simp del]

text \<open>
  \<^verbatim>\<open>monitor_func\<close>: whether the pipes, the control socket and the process events could be set up, the table that
  \<^verbatim>\<open>procwatch_start\<close> has made, and the two readings of the clock before the loop.
\<close>

definition monitor_initial :: monitor where
  "monitor_initial =
     \<lparr> mon_start_times = None, mon_limit_interval = 0, mon_limit_burst = 0, mon_cursor = 0, mon_child = 0, mon_pid = 0,
       mon_sid = 0, mon_wstatus = 0, mon_state = MS_IDLE \<rparr>"

definition main_start :: "watch_env \<Rightarrow> u64 \<Rightarrow> int \<Rightarrow> 't procs \<Rightarrow> 't main" where
  "main_start env now noisy s =
     \<lparr> m_mon = monitor_set_state (start_limit_init (we_svc env) now monitor_initial) MS_STARTING, m_noisy = noisy,
       m_procs = s, m_ready = 0, m_signals = [] \<rparr>"

definition monitor_func ::
  "'t proc_ops \<Rightarrow> watch_env \<Rightarrow> bool \<Rightarrow> bool \<Rightarrow> 't procs option \<Rightarrow> u64 \<Rightarrow> inputs list \<Rightarrow> int \<Rightarrow> (int \<times> 't main option) run outcome" where
  "monitor_func H env pipes control procs now is noisy =
     (if \<not> pipes then Defined (Return (EXIT_FAILURE, None))
      else if \<not> control then Defined (Return (EXIT_FAILURE, None))
      else case procs of
        None \<Rightarrow> Defined (Return (EXIT_FAILURE, None))
      | Some s \<Rightarrow>
          obind (main_loop H env is (main_start env now noisy s)) (\<lambda>r.
          case r of
            Return m \<Rightarrow> obind (processes_fini H (m_procs m)) (\<lambda>s'. Defined (Return (EXIT_SUCCESS, Some (m\<lparr> m_procs := s' \<rparr>))))
          | Fatal \<Rightarrow> Defined Fatal
          | Blocked \<Rightarrow> Defined Blocked))"

section \<open>The rate of starts\<close>

text \<open>The starts that were let through: the first one and the restarts in their order.\<close>

fun restarts_at :: "u64 list \<Rightarrow> monitor \<Rightarrow> monitor option" where
  "restarts_at [] mon = Some mon"
| "restarts_at (t # ts) mon = (case start_limit_check t mon of None \<Rightarrow> None | Some mon' \<Rightarrow> restarts_at ts mon')"

definition ring_wf :: "monitor \<Rightarrow> bool" where
  "ring_wf mon \<longleftrightarrow>
     (case mon_start_times mon of
        None \<Rightarrow> True
      | Some ts \<Rightarrow> length ts = unat (mon_limit_burst mon) \<and> mon_cursor mon < length ts \<and> length ts \<le> 100)"

definition ring_inv :: "u64 list \<Rightarrow> monitor \<Rightarrow> bool" where
  "ring_inv starts mon \<longleftrightarrow>
     (\<exists>ts. mon_start_times mon = Some ts \<and> length ts = unat (mon_limit_burst mon) \<and> 0 < length ts \<and>
        mon_cursor mon = length starts mod length ts \<and>
        (\<forall>i < length starts. length starts \<le> i + length ts \<longrightarrow> ts ! (i mod length ts) = starts ! i))"

lemma burst_cap:
  "unat (if b > MAX_START_LIMIT_BURST then MAX_START_LIMIT_BURST else b) = min (unat b) 100"
  by (auto simp: MAX_START_LIMIT_BURST_def word_less_nat_alt min_def)

lemma init_wf: "ring_wf (start_limit_init svc now monitor_initial)"
proof -
  have "unat (start_limit_burst svc) > 1" if "start_limit_burst svc > 1" using that by (simp add: word_less_nat_alt)
  then show ?thesis
    by (auto simp: ring_wf_def start_limit_init_def monitor_initial_def Let_def burst_cap)
qed

lemma check_wf: "ring_wf mon \<Longrightarrow> start_limit_check next mon = Some mon' \<Longrightarrow> ring_wf mon'"
  by (auto simp: ring_wf_def start_limit_check_def split: option.splits if_splits intro: mod_less_divisor)

lemma init_inv:
  assumes "start_limit_interval svc > 0" and "start_limit_burst svc > 1"
  shows "ring_inv [now] (start_limit_init svc now monitor_initial)"
proof -
  have "unat (start_limit_burst svc) > 1" using assms(2) by (simp add: word_less_nat_alt)
  then show ?thesis
    using assms by (auto simp: ring_inv_def start_limit_init_def monitor_initial_def Let_def burst_cap)
qed

lemma check_inv:
  assumes inv: "ring_inv starts mon" and check: "start_limit_check t mon = Some mon'"
  shows "ring_inv (starts @ [t]) mon' \<and> mon_limit_burst mon' = mon_limit_burst mon \<and> mon_limit_interval mon' = mon_limit_interval mon \<and>
    (unat (mon_limit_burst mon) \<le> length starts \<longrightarrow>
      mon_limit_interval mon \<le> t - starts ! (length starts - unat (mon_limit_burst mon)))"
proof -
  obtain ts where ts: "mon_start_times mon = Some ts" "length ts = unat (mon_limit_burst mon)" "0 < length ts"
      "mon_cursor mon = length starts mod length ts"
      and ring: "\<And>i. i < length starts \<Longrightarrow> length starts \<le> i + length ts \<Longrightarrow> ts ! (i mod length ts) = starts ! i"
    using inv unfolding ring_inv_def by blast
  let ?n = "length starts" and ?b = "length ts"
  have mon': "mon' = mon\<lparr> mon_start_times := Some (ts[?n mod ?b := t]), mon_cursor := (?n mod ?b + 1) mod ?b \<rparr>"
      "\<not> t - ts ! (?n mod ?b) < mon_limit_interval mon"
    using check ts by (auto simp: start_limit_check_def split: if_splits)
  have "ts[?n mod ?b := t] ! (i mod ?b) = (starts @ [t]) ! i" if "i < Suc ?n" "Suc ?n \<le> i + ?b" for i
  proof (cases "i = ?n")
    case True
    then show ?thesis using ts(3) by simp
  next
    case False
    then have "i < ?n" "?n - i < ?b" using that by auto
    then have "i mod ?b \<noteq> ?n mod ?b"
      by (metis less_or_eq_imp_le mod_eq_dvd_iff_nat nat_dvd_not_less zero_less_diff)
    then show ?thesis using ring [of i] \<open>i < ?n\<close> that by (simp add: nth_append)
  qed
  then have "ring_inv (starts @ [t]) mon'"
    using ts(2,3) by (auto simp: ring_inv_def mon'(1) mod_Suc_eq)
  moreover have "mon_limit_interval mon \<le> t - starts ! (?n - ?b)" if "?b \<le> ?n"
  proof -
    have "(?n - ?b) mod ?b = ?n mod ?b" using that by (metis le_mod_geq)
    moreover have "?n - ?b < ?n" using that ts(3) by linarith
    ultimately show ?thesis using ring [of "?n - ?b"] that mon'(2) by (simp add: not_less)
  qed
  ultimately show ?thesis using ts(2) by (simp add: mon'(1))
qed

lemma restarts_rate:
  assumes "ring_inv starts mon" and "restarts_at ts mon = Some mon'"
  shows "\<forall>i. length starts \<le> i + unat (mon_limit_burst mon) \<and> i + unat (mon_limit_burst mon) < length (starts @ ts) \<longrightarrow>
    mon_limit_interval mon \<le> (starts @ ts) ! (i + unat (mon_limit_burst mon)) - (starts @ ts) ! i"
  using assms
proof (induction ts arbitrary: starts mon)
  case Nil
  then show ?case by auto
next
  case (Cons t ts)
  then obtain mon1 where check: "start_limit_check t mon = Some mon1" and rest: "restarts_at ts mon1 = Some mon'"
    by (auto split: option.splits)
  note step = check_inv [OF Cons.prems(1) check]
  let ?b = "unat (mon_limit_burst mon)"
  show ?case
  proof (intro allI impI, elim conjE)
    fix i assume i: "length starts \<le> i + ?b" "i + ?b < length (starts @ t # ts)"
    show "mon_limit_interval mon \<le> (starts @ t # ts) ! (i + ?b) - (starts @ t # ts) ! i"
    proof (cases "i + ?b = length starts")
      case True
      have "0 < ?b" using Cons.prems(1) unfolding ring_inv_def by metis
      then have "(starts @ t # ts) ! i = starts ! (length starts - ?b)" "(starts @ t # ts) ! (i + ?b) = t"
        using True by (auto simp: nth_append simp flip: True)
      then show ?thesis using step True by auto
    next
      case False
      then show ?thesis using Cons.IH [of "starts @ [t]" mon1] step rest i by auto
    qed
  qed
qed


definition example_settings :: settings where
  "example_settings =
     \<lparr> svc_type = ST_SIMPLE, kill_mode = KM_CGROUP, stop_timeout = 10, restart_policy = RP_ALWAYS, remain_after_exit = False,
       restart_delay = 1, start_limit_interval = 100, start_limit_burst = 2, svc_required = [], svc_should = [] \<rparr>"


end
