(* ===== verification/Monitor_Watch.thy ===== *)
theory Monitor_Watch
  imports Monitor
begin

text \<open>
  Properties of the monitor: what its loops leave alone, which signals it sends to which processes, that it uses
  the process table correctly, that a stop order brings the watch to an end, and when it restarts the service.
\<close>

section \<open>Frames\<close>

lemma sbindE:
  assumes "sbind m f = Defined (Next w)"
  obtains v where "m = Defined (Next v)" "f v = Defined (Next w)"
  using assms unfolding sbind_def by (elim obindE) (auto split: step.splits)

text \<open>A property of the data of the callback that the callback keeps.\<close>

lemma notify_data:
  assumes "notify H (Some f) ev ptr s d = Defined (s', d')" and "\<And>ev p d. P d \<Longrightarrow> P (snd (f ev p d))" and "P d"
  shows "P d'"
proof -
  from assms(1) obtain act where "callback (Some f) ev ptr s d = Defined (act, d')"
    unfolding notify_def by (elim obindE_prod) (auto split: procwatch_action.splits elim!: obindE_prod)
  then obtain p where "f ev p d = (act, d')" by (auto simp: callback_def elim!: obindE_prod)
  then show ?thesis using assms(2) [OF assms(3), of ev p] by simp
qed

lemma handle_event_data:
  assumes run: "handle_event H (Some f) ev s d = Defined (s', d')" and keep: "\<And>ev p d. P d \<Longrightarrow> P (snd (f ev p d))" and "P d"
  shows "P d'"
proof -
  have notify: "P d'" if "notify H (Some f) ev' ptr s1 d = Defined (s', d')" for ev' ptr s1
    by (rule notify_data [where P = P, OF that keep \<open>P d\<close>])
  show ?thesis
    using run \<open>P d\<close> notify
    by (auto simp: handle_event_def split: proc_event.splits if_splits option.splits elim!: obindE_prod)
qed

lemma ingest_data:
  assumes keep: "\<And>ev p d. P d \<Longrightarrow> P (snd (f ev p d))"
  shows "ingest_all H (Some f) evs s d = Defined (s', d') \<Longrightarrow> P d \<Longrightarrow> P d'"
proof (induction evs arbitrary: s d)
  case (Cons ev evs)
  then obtain s1 d1 where "handle_event H (Some f) ev s d = Defined (s1, d1)" "ingest_all H (Some f) evs s1 d1 = Defined (s', d')"
    by (auto simp: procwatch_ingest_def elim!: obindE_prod)
  moreover have "P d1" if "handle_event H (Some f) ev s d = Defined (s1, d1)"
    by (rule handle_event_data [where P = P, OF that keep Cons.prems(2)])
  ultimately show ?case using Cons.IH by blast
qed simp

text \<open>The callback of the monitor changes nothing but the session.\<close>

definition same_but_sid :: "monitor \<Rightarrow> monitor \<Rightarrow> bool" where
  "same_but_sid mon mon' \<longleftrightarrow> mon'\<lparr> mon_sid := mon_sid mon \<rparr> = mon"

lemma same_but_sidD:
  "same_but_sid mon mon' \<Longrightarrow> mon_state mon' = mon_state mon \<and> mon_pid mon' = mon_pid mon \<and> mon_child mon' = mon_child mon \<and>
    mon_wstatus mon' = mon_wstatus mon \<and> mon_start_times mon' = mon_start_times mon \<and>
    mon_limit_burst mon' = mon_limit_burst mon \<and> mon_limit_interval mon' = mon_limit_interval mon \<and> mon_cursor mon' = mon_cursor mon"
  by (cases mon; cases mon') (auto simp: same_but_sid_def)

lemma events_same:
  assumes "ingest_all H (Some (spec_cb (monitor_proc_event svc mysid))) evs s mon = Defined (s', mon')"
  shows "same_but_sid mon mon'"
  by (rule ingest_data [OF _ assms, of "same_but_sid mon"])
    (auto simp: same_but_sid_def spec_cb_def monitor_proc_event_def split: procwatch_event.splits)

text \<open>A property of the state that the requests keep.\<close>

lemma session_state:
  assumes keep: "\<And>req st noisy. P st \<Longrightarrow> P (fst (snd (handle_request p req st noisy)))"
  shows "session_loop p deadline now rounds s = Defined (e, s') \<Longrightarrow> P (s_state s) \<Longrightarrow> P (s_state s')"
proof (induction rounds arbitrary: now s)
  case Nil
  then show ?case by (simp add: session_loop.simps split: if_splits)
next
  case (Cons r rounds)
  show ?case
  proof (cases "now \<ge> deadline \<or> (\<exists>e. r_poll r = Inl e) \<or> r_poll r = Inr 0 \<or> (\<exists>e. r_read r = Inl e) \<or> r_read r = Inr []")
    case True
    then show ?thesis
      using Cons.prems by (auto simp: session_loop.simps [of _ _ _ "r # rounds"] split: sum.splits nat.splits if_splits)
  next
    case False
    then obtain n data where r: "\<not> now \<ge> deadline" "r_poll r = Inr (Suc n)" "r_read r = Inr data" "data \<noteq> []"
      by (metis not0_implies_Suc sum.exhaust)
    define buf where "buf = read_trim data (s_buf s)"
    obtain str st' noisy' where h: "handle_request p (str_is buf) (s_state s) (s_noisy s) = (str, st', noisy')"
      by (cases "handle_request p (str_is buf) (s_state s) (s_noisy s)")
    then have "P st'" using keep [OF Cons.prems(2), of "str_is buf" "s_noisy s"] by simp
    with Cons r h show ?thesis
      by (auto simp: session_loop.simps [of _ _ _ "r # rounds"] Let_def buf_def [symmetric] split: option.splits if_splits elim!: obindE)
  qed
qed

lemma request_stopping:
  "monitor_is_stopping st \<Longrightarrow> monitor_is_stopping (fst (snd (handle_request p req st noisy)))"
  by (auto simp: handle_request_def monitor_is_stopping_def)

lemma ingest_stopping:
  assumes "monitor_control_socket_ingest uid k buf st noisy = Defined (e, s)" and "monitor_is_stopping st"
  shows "monitor_is_stopping (s_state s)"
  using assms session_state [of monitor_is_stopping, OF request_stopping]
  by (auto simp: monitor_control_socket_ingest_def Let_def split: sum.splits option.splits)

lemma control_step_frame:
  assumes "control_step uid ctl mon noisy = Defined (ok, mon', noisy')"
  shows "mon' = mon\<lparr> mon_state := mon_state mon' \<rparr>"
    and "monitor_is_stopping (mon_state mon) \<Longrightarrow> monitor_is_stopping (mon_state mon')"
  using assms ingest_stopping
  by (auto simp: control_step_def monitor_set_state_def split: option.splits elim!: obindE_prod)

lemma collected_frame:
  assumes "svc_type (we_svc env) \<noteq> ST_FORKING"
  shows "mon_state (w_mon (collected env pid st w)) = mon_state (w_mon w)"
    and "mon_pid (w_mon (collected env pid st w)) = mon_pid (w_mon w)"
    and "w_ko (collected env pid st w) = w_ko w" "w_stopping (collected env pid st w) = w_stopping w"
  using assms by (simp_all add: collected_def Let_def)

lemma collect_frame:
  assumes "svc_type (we_svc env) \<noteq> ST_FORKING"
  shows "collect_loop n H env w = Defined (w', e) \<Longrightarrow> mon_state (w_mon w') = mon_state (w_mon w) \<and>
    mon_pid (w_mon w') = mon_pid (w_mon w) \<and> w_ko w' = w_ko w \<and> w_stopping w' = w_stopping w"
proof (induction n arbitrary: w)
  case (Suc n)
  show ?case
    using Suc.prems
    by (auto simp: collected_frame [OF assms] split: sum.splits elim!: obindE_prod obindE dest!: Suc.IH)
qed simp

section \<open>A stop order ends the watch\<close>

lemma watch_control_next:
  assumes "watch_control env t w = Defined (Next w')"
  shows "w' = w\<lparr> w_mon := (w_mon w)\<lparr> mon_state := mon_state (w_mon w') \<rparr>, w_noisy := w_noisy w' \<rparr>"
    and "monitor_is_stopping (mon_state (w_mon w)) \<Longrightarrow> monitor_is_stopping (mon_state (w_mon w'))"
proof -
  from assms obtain mon' noisy' where c: "control_step (we_uid env) (t_control t) (w_mon w) (w_noisy w) = Defined (True, mon', noisy')"
      and w': "w' = w\<lparr> w_mon := mon', w_noisy := noisy' \<rparr>"
    unfolding watch_control_def by (elim obindE) (auto simp: Let_def split: if_splits)
  show "w' = w\<lparr> w_mon := (w_mon w)\<lparr> mon_state := mon_state (w_mon w') \<rparr>, w_noisy := w_noisy w' \<rparr>"
    using control_step_frame(1) [OF c] w' by simp
  show "monitor_is_stopping (mon_state (w_mon w)) \<Longrightarrow> monitor_is_stopping (mon_state (w_mon w'))"
    using control_step_frame(2) [OF c] w' by simp
qed

definition late :: "watch_env \<Rightarrow> u64 \<Rightarrow> 't watch \<Rightarrow> bool" where
  "late env now w \<longleftrightarrow> now - ko_sent (w_ko w) > stop_timeout (we_svc env)"

lemma watch_stop_next:
  assumes "watch_stop H env t w = Defined (Next w')"
    and "monitor_is_stopping (mon_state (w_mon w))" and "mon_pid (w_mon w) > 0"
  shows "w_mon w' = w_mon w"
    and "\<not> late env (t_now t) w \<Longrightarrow> w' = w"
    and "late env (t_now t) w \<Longrightarrow> w_stopping w' = Suc (w_stopping w) \<and> w_stopping w < 2 \<and> ko_sent (w_ko w') = t_now t"
  using assms
  by (auto simp: watch_stop_def late_def Let_def kill_pass_def split: if_splits option.splits elim!: obindE_prod obindE)

lemma watch_events_next:
  assumes run: "watch_events H env t w = Defined (Next w')" and pid: "mon_pid (w_mon w) > 0"
    and type: "svc_type (we_svc env) \<notin> {ST_FORKING, ST_ONESHOT}"
  shows "mon_state (w_mon w') = mon_state (w_mon w) \<and> mon_pid (w_mon w') = mon_pid (w_mon w) \<and> w_ko w' = w_ko w \<and>
    w_stopping w' = w_stopping w"
proof (cases "t_events t")
  case None
  then show ?thesis using run by (simp add: watch_events_def)
next
  case (Some ee)
  obtain evs err where e: "t_events t = Some (evs, err)" using Some by (cases ee) auto
  from run obtain s mon where ev: "ingest_all H (Some (spec_cb (monitor_proc_event (we_svc env) (we_sid env)))) evs (w_procs w) (w_mon w) = Defined (s, mon)"
      and rest: "watch_ingested H env t err (w\<lparr> w_procs := s, w_mon := mon \<rparr>) = Defined (Next w')"
    unfolding watch_events_def by (auto simp: e elim!: obindE_prod)
  note same = same_but_sidD [OF events_same [OF ev]]
  from rest pid same obtain w3 e3 where col: "watch_collect H env (w\<lparr> w_procs := s, w_mon := mon \<rparr>) = Defined (w3, e3)"
      and fin: "watch_done env e3 w3 = Next w'"
    by (auto simp: watch_ingested_def Let_def split: if_splits elim!: obindE_prod)
  have "w' = w3" using fin type by (auto simp: watch_done_def Let_def split: if_splits)
  then show ?thesis
    using collect_frame [OF _ col [unfolded watch_collect_def]] type same by simp
qed

lemma watch_turn_stopping:
  assumes run: "watch_turn H env t w = Defined (Next w')" and stop: "monitor_is_stopping (mon_state (w_mon w))"
    and pid: "mon_pid (w_mon w) > 0" and type: "svc_type (we_svc env) \<notin> {ST_FORKING, ST_ONESHOT}"
  shows "monitor_is_stopping (mon_state (w_mon w')) \<and> mon_pid (w_mon w') > 0"
    and "late env (t_now t) w \<Longrightarrow> w_stopping w' = Suc (w_stopping w) \<and> w_stopping w < 2 \<and> ko_sent (w_ko w') = t_now t"
    and "\<not> late env (t_now t) w \<Longrightarrow> w_stopping w' = w_stopping w \<and> w_ko w' = w_ko w"
proof -
  from run obtain w1 w2 where 1: "watch_control env t w = Defined (Next w1)" and 2: "watch_stop H env t w1 = Defined (Next w2)"
      and 3: "watch_events H env t (watch_output t w2) = Defined (Next w')"
    unfolding watch_turn_def by (auto split: if_splits elim!: sbindE)
  note c = watch_control_next [OF 1]
  have w1: "monitor_is_stopping (mon_state (w_mon w1))" "mon_pid (w_mon w1) > 0" "w_ko w1 = w_ko w" "w_stopping w1 = w_stopping w"
    using c(2) [OF stop] pid by (subst c(1), simp)+
  note s = watch_stop_next [OF 2 w1(1,2)]
  have out: "w_mon (watch_output t w2) = w_mon w2" "w_ko (watch_output t w2) = w_ko w2" "w_stopping (watch_output t w2) = w_stopping w2"
    by (simp_all add: watch_output_def Let_def)
  have "mon_pid (w_mon (watch_output t w2)) > 0" using s(1) out w1 by simp
  note e = watch_events_next [OF 3 this type]
  have late: "late env (t_now t) w1 \<longleftrightarrow> late env (t_now t) w" by (simp add: late_def w1)
  show "monitor_is_stopping (mon_state (w_mon w')) \<and> mon_pid (w_mon w') > 0" using e s(1) out w1 by simp
  show "late env (t_now t) w \<Longrightarrow> w_stopping w' = Suc (w_stopping w) \<and> w_stopping w < 2 \<and> ko_sent (w_ko w') = t_now t"
    using e s(3) out w1 late by simp
  show "\<not> late env (t_now t) w \<Longrightarrow> w_stopping w' = w_stopping w \<and> w_ko w' = w_ko w"
    using e s(2) out w1 late by simp
qed

text \<open>The number of turns that come later than the timeout after the signals before them.\<close>

fun late_turns :: "u64 \<Rightarrow> u64 \<Rightarrow> turn list \<Rightarrow> nat" where
  "late_turns timeout sent [] = 0"
| "late_turns timeout sent (t # ts) =
     (if t_now t - sent > timeout then Suc (late_turns timeout (t_now t) ts) else late_turns timeout sent ts)"

lemma watch_loop_stopping:
  assumes type: "svc_type (we_svc env) \<notin> {ST_FORKING, ST_ONESHOT}"
  shows "watch_loop H env ts w = Defined (Next w') \<Longrightarrow> monitor_is_stopping (mon_state (w_mon w)) \<Longrightarrow> mon_pid (w_mon w) > 0 \<Longrightarrow>
    w_stopping w \<le> 2 \<Longrightarrow> late_turns (stop_timeout (we_svc env)) (ko_sent (w_ko w)) ts + w_stopping w \<le> 2"
proof (induction ts arbitrary: w)
  case (Cons t ts)
  from Cons.prems(1) obtain w1 where t: "watch_turn H env t w = Defined (Next w1)" and rest: "watch_loop H env ts w1 = Defined (Next w')"
    by (auto elim!: sbindE)
  note w1 = watch_turn_stopping [OF t Cons.prems(2,3) type]
  show ?case
  proof (cases "late env (t_now t) w")
    case True
    then show ?thesis using Cons.IH [OF rest] w1(1,2) by (auto simp: late_def)
  next
    case False
    then show ?thesis using Cons.IH [OF rest] w1(1,3) Cons.prems(4) by (auto simp: late_def)
  qed
qed simp


text \<open>A watch of the process 8 of the example table, in which nothing happens but that time passes.\<close>

definition example_env :: watch_env where
  "example_env = \<lparr> we_svc = example_settings, we_uid = 0, we_pidfile = False, we_me = 7, we_sid = 5 \<rparr>"

definition example_watch :: "(pid \<times> addr) list watch" where
  "example_watch =
     watch_start (monitor_initial\<lparr> mon_state := MS_STOPPING, mon_pid := 8, mon_child := 8, mon_sid := 5, mon_wstatus := -1 \<rparr>) NORMAL example_fork"

definition example_turn :: "u64 \<Rightarrow> turn" where
  "example_turn now =
     \<lparr> t_poll = None, t_now = now, t_control = None, t_err = None, t_out = None, t_events = None, t_reconnect = True, t_getpid = 0 \<rparr>"


section \<open>The signals of a stop order\<close>

lemma collect_ko: "collect_loop n H env w = Defined (w', e) \<Longrightarrow> w_ko w' = w_ko w \<and> w_stopping w' = w_stopping w"
proof (induction n arbitrary: w)
  case (Suc n)
  have "w_ko (collected env pid st v) = w_ko v \<and> w_stopping (collected env pid st v) = w_stopping v" for pid st and v :: "'a watch"
    by (simp add: collected_def Let_def)
  with Suc.prems show ?case
    by (auto split: sum.splits elim!: obindE_prod obindE dest!: Suc.IH)
qed simp

lemma watch_collect_ko: "watch_collect H env w = Defined (w', e) \<Longrightarrow> w_ko w' = w_ko w \<and> w_stopping w' = w_stopping w"
  unfolding watch_collect_def by (rule collect_ko)

text \<open>Which processes the order is for depends on the pass and the mode.\<close>

definition ko_inv :: "watch_env \<Rightarrow> 't watch \<Rightarrow> bool" where
  "ko_inv env w \<longleftrightarrow> (w_stopping w = 0 \<longrightarrow> \<not> ko_all (w_ko w)) \<and> (w_stopping w = 1 \<longrightarrow> ko_all (w_ko w) = (kill_mode (we_svc env) = KM_CGROUP))"

lemma watch_done_ko: "watch_done env e w = Next w' \<Longrightarrow> w' = w"
  by (auto simp: watch_done_def Let_def split: if_splits)

lemma watch_events_ko:
  assumes "watch_events H env t w = Defined (Next w')"
  shows "w_ko w' = w_ko w \<and> w_stopping w' = w_stopping w"
  using assms
  by (auto simp: watch_events_def watch_ingested_def Let_def split: option.splits if_splits
      elim!: obindE_prod dest!: watch_collect_ko watch_done_ko)

lemma watch_stop_ko: "watch_stop H env t w = Defined (Next w') \<Longrightarrow> ko_inv env w \<Longrightarrow> ko_inv env w'"
  by (auto simp: watch_stop_def ko_inv_def Let_def kill_pass_def split: if_splits option.splits elim!: obindE_prod obindE)

lemma watch_turn_ko:
  assumes "watch_turn H env t w = Defined (Next w')" and "ko_inv env w"
  shows "ko_inv env w'"
proof -
  from assms(1) obtain w1 w2 where 1: "watch_control env t w = Defined (Next w1)" and 2: "watch_stop H env t w1 = Defined (Next w2)"
      and 3: "watch_events H env t (watch_output t w2) = Defined (Next w')"
    unfolding watch_turn_def by (auto split: if_splits elim!: sbindE)
  have "w_ko w1 = w_ko w" "w_stopping w1 = w_stopping w" by (subst watch_control_next(1) [OF 1], simp)+
  then have "ko_inv env w1" using assms(2) by (simp add: ko_inv_def)
  then have "ko_inv env (watch_output t w2)" using watch_stop_ko [OF 2] by (simp add: ko_inv_def watch_output_def Let_def)
  then show ?thesis using watch_events_ko [OF 3] by (simp add: ko_inv_def)
qed

lemma watch_loop_ko: "watch_loop H env ts w = Defined (Next w') \<Longrightarrow> ko_inv env w \<Longrightarrow> ko_inv env w'"
  by (induction ts arbitrary: w) (auto elim!: sbindE dest: watch_turn_ko)

context proc_table
begin

lemma kill_targets:
  assumes inv: "pw_inv H me s"
  shows "\<exists>ps. process_foreach H s = Defined ps \<and> set (concat (map (monitor_kill me mon ko) ps)) =
    {(pid, sig). T s pid \<noteq> None \<and> pid \<notin> {1, me} \<and> (ko_all ko \<or> pid = mon_pid mon) \<and> sig \<in> {ko_signal ko, SIGCONT}}"
proof -
  obtain ps where ps: "process_foreach H s = Defined ps" "\<And>p. p \<in> set ps \<longleftrightarrow> (\<exists>a. heap s a = Some p) \<and> proc_pid p \<notin> {1, me}"
    using foreach_ok [OF inv] by blast
  have tracked: "T s pid \<noteq> None \<longleftrightarrow> (\<exists>a p. heap s a = Some p \<and> proc_pid p = pid)" for pid
    using inv_get [OF inv, of pid] by auto
  have mem: "(pid, sig) \<in> set (monitor_kill me mon ko p) \<longleftrightarrow>
      pid = proc_pid p \<and> pid \<notin> {1, me} \<and> (ko_all ko \<or> pid = mon_pid mon) \<and> sig \<in> {ko_signal ko, SIGCONT}" for pid sig p
    by (auto simp: monitor_kill_def)
  have "(pid, sig) \<in> set (concat (map (monitor_kill me mon ko) ps)) \<longleftrightarrow>
      T s pid \<noteq> None \<and> pid \<notin> {1, me} \<and> (ko_all ko \<or> pid = mon_pid mon) \<and> sig \<in> {ko_signal ko, SIGCONT}" for pid sig
  proof -
    have "(pid, sig) \<in> set (concat (map (monitor_kill me mon ko) ps)) \<longleftrightarrow> (\<exists>p \<in> set ps. (pid, sig) \<in> set (monitor_kill me mon ko p))"
      by simp
    moreover have "(\<exists>p \<in> set ps. pid = proc_pid p) \<longleftrightarrow> T s pid \<noteq> None \<and> pid \<notin> {1, me}"
      unfolding tracked using ps(2) by metis
    ultimately show ?thesis unfolding mem by blast
  qed
  then have "set (concat (map (monitor_kill me mon ko) ps)) =
      {(pid, sig). T s pid \<noteq> None \<and> pid \<notin> {1, me} \<and> (ko_all ko \<or> pid = mon_pid mon) \<and> sig \<in> {ko_signal ko, SIGCONT}}"
    by blast
  then show ?thesis using ps(1) by blast
qed

end

text \<open>
  C10. A pass of the stop procedure reaches exactly the processes it is meant for. In the first pass \<^verbatim>\<open>SIGTERM\<close> and in
  the second \<^verbatim>\<open>SIGKILL\<close>, each with \<^verbatim>\<open>SIGCONT\<close>, go to every tracked process if the mode is \<^verbatim>\<open>control-group\<close>, or
  \<^verbatim>\<open>mixed\<close> and the pass the second, and to the main process only otherwise. Process 1 and the monitor itself are
  never signalled.
\<close>

theorem stop_pass_signals:
  assumes "hash_table H" and "watch_loop H env ts (watch_start mon noisy s) = Defined (Next w)"
    and "pw_inv H (we_me env) (w_procs w)" and "monitor_is_stopping (mon_state (w_mon w))" and "mon_pid (w_mon w) > 0"
    and "late env (t_now t) w" and "w_stopping w < 2" and "kill_mode (we_svc env) \<noteq> KM_NONE"
  shows "\<exists>w' new. watch_stop H env t w = Defined (Next w') \<and> w_signals w' = w_signals w @ new \<and>
    set new = {(pid, sig). ht_get H (processes (w_procs w)) pid \<noteq> None \<and> pid \<notin> {1, we_me env} \<and>
      (kill_mode (we_svc env) = KM_CGROUP \<or> kill_mode (we_svc env) = KM_MIXED \<and> w_stopping w = 1 \<or> pid = mon_pid (w_mon w)) \<and>
      sig \<in> {if w_stopping w = 0 then SIGTERM else SIGKILL, SIGCONT}}"
proof -
  have "ko_inv env (watch_start mon noisy s)" by (simp add: ko_inv_def watch_start_def)
  then have inv: "ko_inv env w" using watch_loop_ko assms(2) by blast
  obtain ko where ko: "kill_pass (kill_mode (we_svc env)) (w_stopping w + 1) (w_ko w) = Some ko"
  proof -
    have "w_stopping w = 0 \<or> w_stopping w = 1" using assms(7) by linarith
    then show ?thesis using that by (auto simp: kill_pass_def)
  qed
  have all: "ko_all ko \<longleftrightarrow> kill_mode (we_svc env) = KM_CGROUP \<or> kill_mode (we_svc env) = KM_MIXED \<and> w_stopping w = 1"
      "ko_signal ko = (if w_stopping w = 0 then SIGTERM else SIGKILL)"
    using ko inv assms(7) by (auto simp: kill_pass_def ko_inv_def split: if_splits)
  obtain ps where ps: "process_foreach H (w_procs w) = Defined ps"
      "set (concat (map (monitor_kill (we_me env) (w_mon w) ko) ps)) =
        {(pid, sig). ht_get H (processes (w_procs w)) pid \<noteq> None \<and> pid \<notin> {1, we_me env} \<and> (ko_all ko \<or> pid = mon_pid (w_mon w)) \<and>
          sig \<in> {ko_signal ko, SIGCONT}}"
    using proc_table.kill_targets [OF proc_table.intro [OF assms(1)] assms(3)] by blast
  let ?new = "concat (map (monitor_kill (we_me env) (w_mon w) ko) ps)"
  let ?w = "w\<lparr> w_stopping := w_stopping w + 1, w_ko := ko\<lparr> ko_sent := t_now t \<rparr>, w_signals := w_signals w @ ?new \<rparr>"
  have run: "watch_stop H env t w = Defined (Next ?w)"
    using assms(4-6,8) ko ps(1) by (simp add: watch_stop_def late_def Let_def)
  show ?thesis by (rule exI [of _ ?w], rule exI [of _ ?new], intro conjI run ps(2) [unfolded all disj_assoc]) simp
qed

theorem stop_pass_signals_witness:
  "\<exists>w' new. watch_stop alist_ops example_env (example_turn 100) example_watch = Defined (Next w') \<and>
    w_signals w' = w_signals example_watch @ new \<and>
    set new = {(pid, sig). ht_get alist_ops (processes (w_procs example_watch)) pid \<noteq> None \<and> pid \<notin> {1, we_me example_env} \<and>
      (kill_mode (we_svc example_env) = KM_CGROUP \<or> kill_mode (we_svc example_env) = KM_MIXED \<and> w_stopping example_watch = 1 \<or>
        pid = mon_pid (w_mon example_watch)) \<and>
      sig \<in> {if w_stopping example_watch = 0 then SIGTERM else SIGKILL, SIGCONT}}"
  by (rule stop_pass_signals [OF alist_table.hash_table_axioms, where ts = "[]"
        and mon = "monitor_initial\<lparr> mon_state := MS_STOPPING, mon_pid := 8, mon_child := 8, mon_sid := 5, mon_wstatus := -1 \<rparr>"
        and noisy = NORMAL and s = example_fork])
    (simp_all add: example_watch_def watch_start_def example_env_def example_fork_ok monitor_is_stopping_def late_def example_turn_def
      example_settings_def word_less_nat_alt)

section \<open>The watch and the process table\<close>

fun events_ok :: "pid \<Rightarrow> 'd spec_callback option \<Rightarrow> proc_event list \<Rightarrow> table \<Rightarrow> 'd \<Rightarrow> bool" where
  "events_ok me cb [] t d \<longleftrightarrow> True"
| "events_ok me cb (ev # evs) t d \<longleftrightarrow>
     event_ok me cb ev t d \<and> (case spec_event cb ev t d of (t', d') \<Rightarrow> events_ok me cb evs t' d')"

definition step_state :: "'w step \<Rightarrow> 'w" where
  "step_state r = (case r of Next w \<Rightarrow> w | Break ret w \<Rightarrow> w)"

lemma step_state_simps [simp]: "step_state (Next w) = w" "step_state (Break ret w) = w"
  by (simp_all add: step_state_def)

context proc_table
begin

lemma ingest_all_ok:
  "pw_inv H me s \<Longrightarrow> events_ok me cb evs (abs_table H s) d \<Longrightarrow>
    \<exists>s' d'. ingest_all H (map_option spec_cb cb) evs s d = Defined (s', d') \<and> pw_inv H me s'"
proof (induction evs arbitrary: s d)
  case (Cons ev evs)
  obtain s1 d1 where ev: "handle_event H (map_option spec_cb cb) ev s d = Defined (s1, d1)" "pw_inv H me s1"
      "(abs_table H s1, d1) = spec_event cb ev (abs_table H s) d"
    using event_refines [OF Cons.prems(1), of cb ev d] Cons.prems(2) by auto
  have "events_ok me cb evs (abs_table H s1) d1" using Cons.prems(2) by (simp add: ev(3) [symmetric])
  from Cons.IH [OF ev(2) this] show ?case using ev(1) by (simp add: procwatch_ingest_def)
qed simp

lemma collect_loop_ok:
  "pw_inv H me (w_procs w) \<Longrightarrow> length (ready (w_procs w)) < n \<Longrightarrow>
    \<exists>w' e. collect_loop n H env w = Defined (w', e) \<and> pw_inv H me (w_procs w')"
proof (induction n arbitrary: w)
  case (Suc n)
  let ?s = "w_procs w"
  obtain r s' where run: "process_collect H ?s = Defined (r, s')" and res: "case r of
       Inl e \<Rightarrow> s' = ?s \<and> spec_collect (abs_table H ?s) = (Inl e, abs_table H ?s)
     | Inr a \<Rightarrow> \<exists>p s''. heap s' a = Some p \<and> process_destroy s' a = Defined s'' \<and> pw_inv H me s'' \<and>
         spec_collect (abs_table H ?s) = (Inr (proc_pid p, info p), abs_table H s'')"
    using collect_ok [OF Suc.prems(1)] by blast
  show ?case
  proof (cases r)
    case (Inl e)
    then show ?thesis using run res Suc.prems(1) by simp
  next
    case (Inr a)
    then obtain p s'' where a: "heap s' a = Some p" "process_destroy s' a = Defined s''" "pw_inv H me s''"
        "spec_collect (abs_table H ?s) = (Inr (proc_pid p, info p), abs_table H s'')" using res by auto
    obtain rest i where q: "exited (abs_table H ?s) = proc_pid p # rest" "(abs_table H ?s)\<lparr> tracked := i, exited := rest \<rparr> = abs_table H s''"
      using a(4) by (auto simp: spec_collect_def split: if_splits list.splits)
    have "exited (abs_table H s'') = rest" unfolding q(2) [symmetric] by simp
    then have "length (exited (abs_table H ?s)) = Suc (length (exited (abs_table H s'')))" using q(1) by simp
    then have "length (ready ?s) = Suc (length (ready s''))" by (simp add: abs_table_def)
    moreover define w1 where "w1 = collected env (proc_pid p) (proc_wstatus p) (w\<lparr> w_procs := s'' \<rparr>)"
    moreover have "w_procs w1 = s''" by (simp add: w1_def collected_def Let_def)
    ultimately show ?thesis using Suc.IH [of w1] Suc.prems(2) run a Inr by simp
  qed
qed simp

lemma watch_ingested_ok:
  assumes "pw_inv H me (w_procs w)"
  shows "\<exists>r. watch_ingested H env t err w = Defined r \<and> pw_inv H me (w_procs (step_state r))"
proof -
  have "\<exists>r. obind (watch_collect H env v) (\<lambda>(w2, e). Defined (watch_done env e w2)) = Defined r \<and> pw_inv H me (w_procs (step_state r))"
    if v: "pw_inv H me (w_procs v)" for v
  proof -
    obtain w2 e where "watch_collect H env v = Defined (w2, e)" "pw_inv H me (w_procs w2)"
      using collect_loop_ok [OF v, of "Suc (length (ready (w_procs v)))" env] by (auto simp: watch_collect_def)
    moreover have "w_procs (step_state (watch_done env e w2)) = w_procs w2" by (simp add: watch_done_def Let_def)
    ultimately show ?thesis by simp
  qed
  then show ?thesis using assms by (simp add: watch_ingested_def Let_def)
qed

lemma watch_events_ok:
  assumes "pw_inv H me (w_procs w)"
    and ok: "\<forall>evs err. t_events t = Some (evs, err) \<longrightarrow>
      events_ok me (Some (monitor_proc_event (we_svc env) (we_sid env))) evs (abs_table H (w_procs w)) (w_mon w)"
  shows "\<exists>r. watch_events H env t w = Defined r \<and> pw_inv H me (w_procs (step_state r))"
proof (cases "t_events t")
  case None
  then show ?thesis using assms(1) by (simp add: watch_events_def)
next
  case (Some ee)
  obtain evs err where e: "t_events t = Some (evs, err)" using Some by (cases ee) auto
  with ok ingest_all_ok [OF assms(1)] obtain s d where
    "ingest_all H (Some (spec_cb (monitor_proc_event (we_svc env) (we_sid env)))) evs (w_procs w) (w_mon w) = Defined (s, d)"
    "pw_inv H me s" by fastforce
  then show ?thesis
    using watch_ingested_ok [of me "w\<lparr> w_procs := s, w_mon := d \<rparr>"] e by (simp add: watch_events_def)
qed

lemma watch_stop_ok:
  assumes inv: "pw_inv H me (w_procs w)" and roots: "mon_pid (w_mon w) \<notin> {1, me}" "mon_child (w_mon w) \<notin> {1, me}"
  shows "\<exists>r. watch_stop H env t w = Defined r \<and> pw_inv H me (w_procs (step_state r)) \<and>
    (\<forall>w'. r = Next w' \<longrightarrow> w_procs w' = w_procs w \<and> w_mon w' = w_mon w)"
proof -
  have drop: "\<exists>b s'. process_drop H (w_procs w) pid = Defined (b, s') \<and> pw_inv H me s'" if "pid \<notin> {1, me}" for pid
    using drop_ok [OF inv _ that] drop_untracked [of "w_procs w" pid] inv by (cases "T (w_procs w) pid") auto
  obtain ps where "process_foreach H (w_procs w) = Defined ps" using foreach_ok [OF inv] by blast
  then show ?thesis
    using drop [OF roots(1)] drop [OF roots(2)] inv by (auto simp: watch_stop_def Let_def split: option.split)
qed

end

text \<open>
  C6. A turn of the watch uses the process table correctly: from a consistent table and under the documented
  behaviour of the kernel, whatever is pending on the control socket, the pipes and the event connector, the turn
  runs without touching freed memory and leaves a consistent table. The PID of the main process and of the child
  must not be those of process 1 or of the monitor.
\<close>

theorem watch_turn_safe:
  assumes "hash_table H" and "pw_inv H (we_me env) (w_procs w)"
    and "mon_pid (w_mon w) \<notin> {1, we_me env}" and "mon_child (w_mon w) \<notin> {1, we_me env}"
    and "control_step (we_uid env) (t_control t) (w_mon w) (w_noisy w) = Defined c"
    and "\<forall>evs err st. t_events t = Some (evs, err) \<longrightarrow>
      events_ok (we_me env) (Some (monitor_proc_event (we_svc env) (we_sid env))) evs (abs_table H (w_procs w)) ((w_mon w)\<lparr> mon_state := st \<rparr>)"
  shows "\<exists>r. watch_turn H env t w = Defined r \<and> pw_inv H (we_me env) (w_procs (step_state r))"
proof (cases "t_poll t \<noteq> None \<and> t_poll t \<noteq> Some EINTR \<or> \<not> fst c")
  case True
  obtain ok mon noisy where c: "c = (ok, mon, noisy)" by (cases c)
  show ?thesis
    using True assms(2,5) by (auto simp: c watch_turn_def watch_control_def sbind_def Let_def)
next
  case False
  then have poll: "\<not> (t_poll t \<noteq> None \<and> t_poll t \<noteq> Some EINTR)" by blast
  obtain mon noisy where c: "c = (True, mon, noisy)" using False by (cases c) auto
  define w1 where "w1 = w\<lparr> w_mon := mon, w_noisy := noisy \<rparr>"
  have ctl: "watch_control env t w = Defined (Next w1)" using assms(5) by (simp add: watch_control_def c w1_def)
  have mon: "mon = (w_mon w)\<lparr> mon_state := mon_state mon \<rparr>" using control_step_frame(1) assms(5) c by blast
  have w1: "w_procs w1 = w_procs w" "w_mon w1 = mon" by (simp_all add: w1_def)
  have "mon_pid (w_mon w1) \<notin> {1, we_me env}" "mon_child (w_mon w1) \<notin> {1, we_me env}"
    using assms(3,4) w1(2) by (subst w1(2), subst mon, simp)+
  then obtain r where stop: "watch_stop H env t w1 = Defined r" "pw_inv H (we_me env) (w_procs (step_state r))"
      "\<And>w'. r = Next w' \<Longrightarrow> w_procs w' = w_procs w \<and> w_mon w' = mon"
    using proc_table.watch_stop_ok [OF proc_table.intro [OF assms(1)], of "we_me env" w1 env t] assms(2) w1 by auto
  show ?thesis
  proof (cases r)
    case (Break ret w2)
    then show ?thesis using poll stop(1,2) ctl by (auto simp: watch_turn_def sbind_def)
  next
    case (Next w2)
    define w3 where "w3 = watch_output t w2"
    have w3: "w_procs w3 = w_procs w" "w_mon w3 = mon" using stop(3) [OF Next] by (simp_all add: w3_def watch_output_def Let_def)
    have "\<forall>evs err. t_events t = Some (evs, err) \<longrightarrow>
        events_ok (we_me env) (Some (monitor_proc_event (we_svc env) (we_sid env))) evs (abs_table H (w_procs w)) mon"
      using assms(6) mon by metis
    then have "\<exists>r. watch_events H env t w3 = Defined r \<and> pw_inv H (we_me env) (w_procs (step_state r))"
      using proc_table.watch_events_ok [OF proc_table.intro [OF assms(1)]] assms(2) w3 by metis
    moreover have "watch_turn H env t w = watch_events H env t w3"
      using poll stop(1) ctl Next by (auto simp: watch_turn_def sbind_def w3_def)
    ultimately show ?thesis by simp
  qed
qed

theorem watch_turn_safe_witness:
  "\<exists>r. watch_turn alist_ops example_env ((example_turn 5)\<lparr> t_events := Some ([PROC_EVENT_FORK (8, 8) (9, 9), PROC_EVENT_EXIT (8, 8) 0 SIGCHLD], ETIMEDOUT) \<rparr>)
      example_watch = Defined r \<and> pw_inv alist_ops (we_me example_env) (w_procs (step_state r))"
proof (rule watch_turn_safe [OF alist_table.hash_table_axioms])
  show "pw_inv alist_ops (we_me example_env) (w_procs example_watch)"
    by (simp add: example_env_def example_watch_def watch_start_def example_fork_ok)
  let ?t = "(example_turn 5)\<lparr> t_events := Some ([PROC_EVENT_FORK (8, 8) (9, 9), PROC_EVENT_EXIT (8, 8) 0 SIGCHLD], ETIMEDOUT) \<rparr>"
  show "control_step (we_uid example_env) (t_control ?t) (w_mon example_watch) (w_noisy example_watch) =
      Defined (True, w_mon example_watch, w_noisy example_watch)"
    by (simp add: control_step_def example_turn_def)
  show "\<forall>evs err st. t_events ?t = Some (evs, err) \<longrightarrow>
      events_ok (we_me example_env) (Some (monitor_proc_event (we_svc example_env) (we_sid example_env))) evs
        (abs_table alist_ops (w_procs example_watch)) ((w_mon example_watch)\<lparr> mon_state := st \<rparr>)"
    by (simp add: example_env_def example_watch_def watch_start_def example_fork_ok event_ok_def spec_fork_def initial_def spec_event_def)
qed (simp_all add: example_env_def example_watch_def watch_start_def)

section \<open>Restarting\<close>

text \<open>
  How a process can end, the status that the kernel reports for it, and the table of \<^verbatim>\<open>Restart=\<close> in the
  documentation of systemd: which policies restart the service after which end.
\<close>

datatype process_end = Exited nat | Killed nat bool

fun wait_status :: "process_end \<Rightarrow> int" where
  "wait_status (Exited c) = 256 * int c"
| "wait_status (Killed sig core) = int sig + (if core then 128 else 0)"

fun end_ok :: "process_end \<Rightarrow> bool" where
  "end_ok (Exited c) \<longleftrightarrow> c < 256"
| "end_ok (Killed sig core) \<longleftrightarrow> 0 < sig \<and> sig < 127"

datatype cause = Clean | Unclean_Exit | Unclean_Signal

fun end_cause :: "process_end \<Rightarrow> cause" where
  "end_cause (Exited c) = (if c = 0 then Clean else Unclean_Exit)"
| "end_cause (Killed sig core) = (if int sig \<in> {SIGHUP, SIGINT, SIGTERM, SIGPIPE} then Clean else Unclean_Signal)"

definition restart_causes :: "restartpolicy \<Rightarrow> cause set" where
  "restart_causes p =
     (case p of
        RP_NO \<Rightarrow> {}
      | RP_ALWAYS \<Rightarrow> {Clean, Unclean_Exit, Unclean_Signal}
      | RP_ON_SUCCESS \<Rightarrow> {Clean}
      | RP_ON_FAILURE \<Rightarrow> {Unclean_Exit, Unclean_Signal}
      | RP_ON_ABNORMAL \<Rightarrow> {Unclean_Signal}
      | RP_ON_ABORT \<Rightarrow> {Unclean_Signal})"

lemma end_flags:
  assumes "end_ok e"
  shows "ucexit (wait_status e) \<longleftrightarrow> end_cause e = Unclean_Exit" and "ucsig (wait_status e) \<longleftrightarrow> end_cause e = Unclean_Signal"
proof -
  have "ucexit (wait_status e) \<longleftrightarrow> end_cause e = Unclean_Exit" "ucsig (wait_status e) \<longleftrightarrow> end_cause e = Unclean_Signal"
    if "e = Exited c" for c
  proof -
    have "(256 * int c) mod 128 = 0" by presburger
    then show "ucexit (wait_status e) \<longleftrightarrow> end_cause e = Unclean_Exit" "ucsig (wait_status e) \<longleftrightarrow> end_cause e = Unclean_Signal"
      using assms that by (auto simp: ucexit_def ucsig_def WIFEXITED_def WEXITSTATUS_def WTERMSIG_def)
  qed
  moreover have "ucexit (wait_status e) \<longleftrightarrow> end_cause e = Unclean_Exit" "ucsig (wait_status e) \<longleftrightarrow> end_cause e = Unclean_Signal"
    if "e = Killed sig core" for sig core
  proof -
    have "(int sig + (if core then 128 else 0)) mod 128 = int sig" using assms that by auto
    then show "ucexit (wait_status e) \<longleftrightarrow> end_cause e = Unclean_Exit" "ucsig (wait_status e) \<longleftrightarrow> end_cause e = Unclean_Signal"
      using assms that by (auto simp: ucexit_def ucsig_def WIFEXITED_def WIFSIGNALED_def WTERMSIG_def)
  qed
  ultimately show "ucexit (wait_status e) \<longleftrightarrow> end_cause e = Unclean_Exit" "ucsig (wait_status e) \<longleftrightarrow> end_cause e = Unclean_Signal"
    by (cases e; blast)+
qed

text \<open>
  C23. What the monitor does when the main process of a running service has ended is what the documentation of
  \<^verbatim>\<open>Restart=\<close> says: with \<^verbatim>\<open>RemainAfterExit=\<close> a service that ended cleanly counts as active, otherwise it is started
  again if the policy lists the cause, and if not it has stopped after a clean end and failed after any other. The
  clean signals are the four that systemd names.
\<close>

theorem restart_decision:
  assumes "end_ok e"
  shows "exit_state svc (wait_status e) =
    (if remain_after_exit svc \<and> end_cause e = Clean then MS_REMAINING
     else if end_cause e \<in> restart_causes (restart_policy svc) then MS_RESTARTING
     else if end_cause e = Clean then MS_STOPPED else MS_FAILED)"
proof -
  have "ucexit (wait_status e) \<longleftrightarrow> end_cause e = Unclean_Exit" "ucsig (wait_status e) \<longleftrightarrow> end_cause e = Unclean_Signal"
    using end_flags [OF assms] by auto
  then show ?thesis
    by (cases "end_cause e"; cases "restart_policy svc") (simp_all add: exit_state_def restart_causes_def Let_def)
qed

theorem restart_decision_witness:
  "exit_state example_settings (wait_status (Killed 9 False)) = MS_RESTARTING"
  using restart_decision [of "Killed 9 False" example_settings]
  by (simp add: example_settings_def restart_causes_def SIGHUP_def SIGINT_def SIGTERM_def SIGPIPE_def)

section \<open>The type invariant of the monitor\<close>

text \<open>
  The ring of the start times, which only the check of the start limit changes, and a state in which the outer loop
  has something to do or ends.
\<close>

definition ring :: "monitor \<Rightarrow> u64 list option \<times> u64 \<times> nat" where
  "ring mon = (mon_start_times mon, mon_limit_burst mon, mon_cursor mon)"

definition live_state :: "monitor_state \<Rightarrow> bool" where
  "live_state st \<longleftrightarrow> st \<noteq> MS_ERROR \<and> st \<noteq> MS_IDLE"

definition keeps :: "monitor \<Rightarrow> monitor \<Rightarrow> bool" where
  "keeps mon mon' \<longleftrightarrow> ring mon' = ring mon \<and> (live_state (mon_state mon) \<longrightarrow> live_state (mon_state mon'))"

lemma keeps_refl [simp]: "keeps mon mon"
  by (simp add: keeps_def)

lemma keeps_trans [trans]: "keeps a b \<Longrightarrow> keeps b c \<Longrightarrow> keeps a c"
  by (simp add: keeps_def)

lemma keeps_set_state: "live_state st \<Longrightarrow> keeps mon (monitor_set_state mon st)"
  by (simp add: keeps_def ring_def monitor_set_state_def)

lemma request_live: "live_state st \<Longrightarrow> live_state (fst (snd (handle_request p req st noisy)))"
  by (auto simp: handle_request_def live_state_def)

lemma ingest_live:
  assumes "monitor_control_socket_ingest uid k buf st noisy = Defined (e, s)" and "live_state st"
  shows "live_state (s_state s)"
  using assms session_state [of live_state, OF request_live]
  by (auto simp: monitor_control_socket_ingest_def Let_def split: sum.splits option.splits)

lemma keeps_control: "control_step uid ctl mon noisy = Defined (ok, mon', noisy') \<Longrightarrow> keeps mon mon'"
  by (auto simp: control_step_def keeps_def ring_def monitor_set_state_def split: option.splits elim!: obindE_prod dest: ingest_live)

lemma keeps_collected: "keeps (w_mon w) (w_mon (collected env pid st w))"
  by (simp add: collected_def Let_def keeps_def ring_def live_state_def monitor_set_state_def)

lemma keeps_collect: "collect_loop n H env w = Defined (w', e) \<Longrightarrow> keeps (w_mon w) (w_mon w')"
proof (induction n arbitrary: w)
  case (Suc n)
  from Suc.prems have "(\<exists>s. w' = w\<lparr> w_procs := s \<rparr>) \<or>
      (\<exists>p r s'. collect_loop n H env (collected env p r (w\<lparr> w_procs := s' \<rparr>)) = Defined (w', e))"
    by (auto split: sum.splits elim!: obindE_prod obindE)
  then show ?case
  proof (elim disjE exE)
    fix p r s' assume "collect_loop n H env (collected env p r (w\<lparr> w_procs := s' \<rparr>)) = Defined (w', e)"
    from Suc.IH [OF this] keeps_collected [of "w\<lparr> w_procs := s' \<rparr>" env p r] show ?thesis by (auto intro: keeps_trans)
  qed simp
qed simp

lemma keeps_watch_collect: "watch_collect H env w = Defined (w', e) \<Longrightarrow> keeps (w_mon w) (w_mon w')"
  unfolding watch_collect_def by (rule keeps_collect)

lemma keeps_find_main: "keeps mon (snd (monitor_find_main_pid H pf p s mon))"
  by (simp add: monitor_find_main_pid_def Let_def keeps_def ring_def)

lemma keeps_watch_done: "keeps (w_mon w) (w_mon (step_state (watch_done env e w)))"
  by (simp add: watch_done_def Let_def keeps_set_state live_state_def)

lemma keeps_watch_ingested:
  assumes "watch_ingested H env t err w = Defined r"
  shows "keeps (w_mon w) (w_mon (step_state r))"
proof (cases "err \<noteq> ETIMEDOUT \<and> \<not> t_reconnect t")
  case False
  define w1 where "w1 = (if mon_pid (w_mon w) \<le> 0 \<and> mon_child (w_mon w) = 0
    then w\<lparr> w_mon := snd (monitor_find_main_pid H (we_pidfile env) (t_getpid t) (w_procs w) (w_mon w)) \<rparr> else w)"
  obtain w2 e where "watch_collect H env w1 = Defined (w2, e)" "r = watch_done env e w2"
    using assms False by (auto simp: watch_ingested_def Let_def w1_def [symmetric] elim!: obindE_prod)
  moreover have "keeps (w_mon w) (w_mon w1)" by (simp add: w1_def keeps_find_main)
  ultimately show ?thesis using keeps_watch_done keeps_watch_collect keeps_trans by metis
qed (use assms in \<open>auto simp: watch_ingested_def\<close>)

lemma keeps_same_but_sid: "same_but_sid mon mon' \<Longrightarrow> keeps mon mon'"
  by (drule same_but_sidD) (simp add: keeps_def ring_def)

lemma keeps_watch_events:
  assumes "watch_events H env t w = Defined r"
  shows "keeps (w_mon w) (w_mon (step_state r))"
  using assms
  by (auto simp: watch_events_def split: option.splits elim!: obindE_prod
      dest!: keeps_watch_ingested keeps_same_but_sid [OF events_same] intro: keeps_trans)

lemma watch_stop_mon: "watch_stop H env t w = Defined r \<Longrightarrow> w_mon (step_state r) = w_mon w"
  by (auto simp: watch_stop_def Let_def split: if_splits option.splits elim!: obindE_prod obindE)

lemma keeps_watch_control: "watch_control env t w = Defined r \<Longrightarrow> keeps (w_mon w) (w_mon (step_state r))"
  by (auto simp: watch_control_def Let_def elim!: obindE dest!: keeps_control split: if_splits)

lemma sbind_keeps:
  assumes "sbind m f = Defined r" and "\<And>r. m = Defined r \<Longrightarrow> P (step_state r)" and "\<And>w r. P w \<Longrightarrow> f w = Defined r \<Longrightarrow> P (step_state r)"
  shows "P (step_state r)"
proof -
  obtain r1 where m: "m = Defined r1" using assms(1) by (cases m) (simp_all add: sbind_def)
  show ?thesis
    using assms(1) assms(2) [OF m] assms(3) by (cases r1) (auto simp: sbind_def m)
qed

lemma keeps_watch_turn:
  assumes "watch_turn H env t w = Defined r"
  shows "keeps (w_mon w) (w_mon (step_state r))"
proof (cases "t_poll t \<noteq> None \<and> t_poll t \<noteq> Some EINTR")
  case False
  have out: "w_mon (watch_output t v) = w_mon v" for v :: "'a watch" by (simp add: watch_output_def Let_def)
  have "sbind (watch_control env t w) (\<lambda>w. sbind (watch_stop H env t w) (\<lambda>w. watch_events H env t (watch_output t w))) = Defined r"
    using assms False by (auto simp: watch_turn_def)
  then show ?thesis
  proof (rule sbind_keeps)
    fix v r assume v: "keeps (w_mon w) (w_mon v)"
      and run: "sbind (watch_stop H env t v) (\<lambda>w. watch_events H env t (watch_output t w)) = Defined r"
    show "keeps (w_mon w) (w_mon (step_state r))"
      by (rule sbind_keeps [OF run, of "\<lambda>v. keeps (w_mon w) (w_mon v)"])
        (use v watch_stop_mon keeps_watch_events out keeps_trans in metis)+
  qed (rule keeps_watch_control)
qed (use assms in \<open>auto simp: watch_turn_def\<close>)

lemma keeps_watch_loop: "watch_loop H env ts w = Defined r \<Longrightarrow> keeps (w_mon w) (w_mon (step_state r))"
proof (induction ts arbitrary: w r)
  case (Cons t ts)
  from Cons.prems have "sbind (watch_turn H env t w) (\<lambda>w. watch_loop H env ts w) = Defined r" by simp
  then show ?case by (rule sbind_keeps) (auto dest: keeps_watch_turn Cons.IH intro: keeps_trans)
qed auto

lemma keeps_monitor_watch:
  assumes "monitor_watch H env ts mon noisy s = Defined r"
  shows "keeps mon (w_mon (step_state r))"
proof -
  obtain r1 where r1: "watch_loop H env ts (watch_start mon noisy s) = Defined r1"
    using assms by (auto simp: monitor_watch_def elim!: obindE)
  then have "w_mon (step_state r) = w_mon (step_state r1)"
    using assms by (auto simp: monitor_watch_def split: step.splits elim!: obindE)
  then show ?thesis using keeps_watch_loop [OF r1] by (simp add: watch_start_def)
qed

lemma keeps_monitor_wait:
  "monitor_wait H uid deadline st ts (mon, noisy, s) = Defined r \<Longrightarrow> keeps mon (fst (step_state r))"
proof (induction ts arbitrary: mon noisy s st deadline)
  case Nil
  then show ?case by (auto simp: monitor_wait.simps split: if_splits)
next
  case (Cons t ts)
  show ?case
    using Cons.prems
    by (subst (asm) monitor_wait.simps)
      (auto split: if_splits elim!: obindE_prod obindE dest!: keeps_control Cons.IH, (erule (1) keeps_trans)+)
qed

text \<open>The states that the outer loop goes through.\<close>

inductive main_reach :: "'t proc_ops \<Rightarrow> watch_env \<Rightarrow> 't main \<Rightarrow> bool"
  for H env where
  start: "main_reach H env (main_start env now noisy s)"
| turn: "main_reach H env m \<Longrightarrow> state_num (mon_state (m_mon m)) < state_num MS_STOPPED \<Longrightarrow>
    main_turn H env i m = Defined (Return m') \<Longrightarrow> main_reach H env m'"

definition mon_wf :: "monitor \<Rightarrow> bool" where
  "mon_wf mon \<longleftrightarrow> ring_wf mon \<and> live_state (mon_state mon)"

lemma wf_keeps: "mon_wf mon \<Longrightarrow> keeps mon mon' \<Longrightarrow> mon_wf mon'"
  by (auto simp: mon_wf_def keeps_def ring_def ring_wf_def split: option.splits)

lemma wf_state: "mon_wf mon \<Longrightarrow> live_state st \<Longrightarrow> mon_wf (monitor_set_state mon st)"
  using wf_keeps keeps_set_state by blast

lemma exit_live: "live_state (exit_state svc w)"
  by (simp add: exit_state_def live_state_def Let_def)

lemma wf_running:
  assumes "main_running H env i m = Defined (Return m')" and "mon_wf (m_mon m)"
  shows "mon_wf (m_mon m')"
proof -
  obtain ret w where w: "monitor_watch H env (in_watch i) (m_mon m) (m_noisy m) (m_procs m) = Defined (Break ret w)"
      and m': "m_mon m' = w_mon w \<or> m_mon m' = monitor_set_state (w_mon w) MS_DEAD \<or>
        m_mon m' = monitor_set_state (w_mon w) (exit_state (we_svc env) (mon_wstatus (w_mon w)))"
    using assms(1) by (auto simp: main_running_def m_state_def Let_def split: step.splits if_splits elim!: obindE)
  have "mon_wf (w_mon w)" using wf_keeps [OF assms(2) keeps_monitor_watch [OF w]] by simp
  then show ?thesis using m' wf_state exit_live by (auto simp: live_state_def)
qed

lemma wf_starting:
  assumes "main_starting H env i m = Defined (Return m')" and "mon_wf (m_mon m)"
  shows "mon_wf (m_mon m')"
proof (cases "in_fork i")
  case (Inl e)
  then have "keeps (m_mon m) (m_mon m')"
    using assms(1) by (auto simp: main_starting_def Let_def keeps_def ring_def monitor_set_state_def live_state_def)
  then show ?thesis using wf_keeps assms(2) by blast
next
  case (Inr child)
  obtain m1 where run: "main_running H env i m1 = Defined (Return m')" and m1: "keeps (m_mon m) (m_mon m1)"
    using assms(1) Inr
    by (simp add: main_starting_def Let_def keeps_def ring_def monitor_set_state_def live_state_def split: if_splits)
  then show ?thesis using wf_running [OF run] wf_keeps [OF assms(2) m1] by blast
qed

lemma wf_wait:
  assumes "main_wait H env i deadline m = Defined (Return m')" and "mon_wf (m_mon m)"
  shows "mon_wf (m_mon m')"
proof -
  obtain ret mon noisy s where w: "monitor_wait H (we_uid env) deadline (mon_state (m_mon m)) (in_wait i) (m_mon m, m_noisy m, m_procs m)
        = Defined (Break ret (mon, noisy, s))" and m': "m_mon m' = mon \<or> m_mon m' = monitor_set_state mon MS_DEAD"
    using assms(1) by (auto simp: main_wait_def m_state_def Let_def split: step.splits if_splits elim!: obindE)
  have "keeps (m_mon m) mon" using keeps_monitor_wait [OF w] by simp
  then show ?thesis using m' wf_keeps [OF assms(2)] wf_state [of mon MS_DEAD] by (auto simp: live_state_def)
qed

lemma wf_restarting:
  assumes "main_restarting H env i m = Defined (Return m')" and "mon_wf (m_mon m)"
  shows "mon_wf (m_mon m')"
proof (cases "start_limit_check (in_clock i + restart_delay (we_svc env)) (m_mon m)")
  case None
  then show ?thesis
    using assms wf_state [of "m_mon m" MS_FAILED] by (auto simp: main_restarting_def m_state_def Let_def live_state_def)
next
  case (Some mon)
  have "mon_state mon = mon_state (m_mon m)" using Some by (auto simp: start_limit_check_def split: option.splits if_splits)
  then have "mon_wf mon" using check_wf [OF _ Some] assms(2) by (simp add: mon_wf_def)
  moreover obtain m1 where "main_wait H env i (in_clock i + restart_delay (we_svc env)) (m\<lparr> m_mon := mon \<rparr>) = Defined (Return m1)"
      and "m' = m1 \<or> main_starting H env i m1 = Defined (Return m')"
    using assms(1) Some by (auto simp: main_restarting_def Let_def split: run.splits if_splits elim!: obindE)
  ultimately show ?thesis using wf_wait wf_starting by force
qed

lemma wf_turn:
  assumes "main_turn H env i m = Defined (Return m')" and "mon_wf (m_mon m)"
  shows "mon_wf (m_mon m')"
proof -
  have "mon_wf (m_mon m')" if "m' = m_state m st" "live_state st" for st
    using that assms(2) wf_state by (simp add: m_state_def)
  then show ?thesis
    using assms wf_restarting wf_starting wf_running wf_wait unfolding main_turn_def
    by (cases "mon_state (m_mon m)") (auto simp: live_state_def)
qed

text \<open>
  C22. The state of the monitor is well-formed throughout: in every state that the outer loop reaches, whatever the
  service, the clients and the clock do, the cursor is an index of the array of start times, the array has as many
  entries as the burst says and at most 100, and the state is one that the loop handles, so that the branch for an
  invalid state is never taken.
\<close>

theorem monitor_well_formed:
  assumes "main_reach H env m"
  shows "(case mon_start_times (m_mon m) of
       None \<Rightarrow> True
     | Some ts \<Rightarrow> length ts = unat (mon_limit_burst (m_mon m)) \<and> mon_cursor (m_mon m) < length ts \<and> length ts \<le> 100) \<and>
    mon_state (m_mon m) \<noteq> MS_ERROR \<and> mon_state (m_mon m) \<noteq> MS_IDLE"
proof -
  have "mon_wf (m_mon m)"
    using assms
  proof induction
    case (start now noisy s)
    have "ring (monitor_set_state mon MS_STARTING) = ring mon" for mon by (simp add: ring_def monitor_set_state_def)
    then show ?case
      using init_wf [of "we_svc env" now]
      by (auto simp: main_start_def mon_wf_def live_state_def monitor_set_state_def ring_wf_def split: option.splits)
  next
    case (turn m i m')
    then show ?case using wf_turn by blast
  qed
  then show ?thesis by (simp add: mon_wf_def ring_wf_def live_state_def)
qed

theorem monitor_well_formed_witness:
  "(case mon_start_times (m_mon (main_start example_env 500 NORMAL example_fork)) of
       None \<Rightarrow> True
     | Some ts \<Rightarrow> length ts = unat (mon_limit_burst (m_mon (main_start example_env 500 NORMAL example_fork))) \<and>
         mon_cursor (m_mon (main_start example_env 500 NORMAL example_fork)) < length ts \<and> length ts \<le> 100) \<and>
    mon_state (m_mon (main_start example_env 500 NORMAL example_fork)) \<noteq> MS_ERROR \<and>
    mon_state (m_mon (main_start example_env 500 NORMAL example_fork)) \<noteq> MS_IDLE"
  by (rule monitor_well_formed [OF main_reach.start [of alist_ops]])

end
