(* ===== verification/Runlevels.thy ===== *)
theory Runlevels
  imports Service
begin

text \<open>
  \<^verbatim>\<open>src/systemctl/service.c\<close>: services that are enabled by symbolic links in the directories of the seven runlevels.
  A directory is the list of its entries in the order in which \<^verbatim>\<open>readdir\<close> returns them, each with the result of
  \<^verbatim>\<open>fstatat\<close> on it, which follows links. Failures of the system calls are arguments.
\<close>

section \<open>Directories\<close>

type_synonym file_id = "nat \<times> nat"

datatype dtype = DT_LNK | DT_OTHER

record dirent =
  de_name :: string
  de_type :: dtype
  de_stat :: "errno + file_id"

type_synonym directory = "dirent list"

record rl_service =
  rls_name :: string
  rls_path :: string
  rls_id :: file_id

record rl_calls =
  opendir_result :: "errno option"
  unlink_result :: "string \<Rightarrow> errno option"
  symlink_result :: "errno option"

definition init_path :: "string \<Rightarrow> string \<Rightarrow> string" where
  "init_path root name = root @ ''/etc/init.d/'' @ name"

definition rcdir_path :: "string \<Rightarrow> nat \<Rightarrow> string" where
  "rcdir_path root rl = root @ ''/etc/rc'' @ decimal rl @ ''.d''"

definition start_link :: "string \<Rightarrow> string" where
  "start_link name = ''S20'' @ name"

definition stop_link :: "string \<Rightarrow> string" where
  "stop_link name = ''K80'' @ name"

text \<open>\<^verbatim>\<open>service_find\<close> of \<^verbatim>\<open>systemctl\<close>; \<open>stat\<close> is what opening and examining the script gives.\<close>

definition init_service_find :: "string \<Rightarrow> (string \<Rightarrow> errno + file_id) \<Rightarrow> string \<Rightarrow> errno + rl_service" where
  "init_service_find root stat name =
     (let base = snd (deservicify name)
      in if base = [] then Inl EINVAL
         else case stat (init_path root base) of
           Inl e \<Rightarrow> Inl e
         | Inr i \<Rightarrow> Inr \<lparr> rls_name = base, rls_path = init_path root base, rls_id = i \<rparr>)"

section \<open>Links of a runlevel\<close>

text \<open>
  The state of the loop: the structure \<^verbatim>\<open>sb\<close>, whose contents are indeterminate at first (\<open>None\<close>) and stay as they
  are if \<^verbatim>\<open>fstatat\<close> fails, the error to report, whether a link has been found, and the directory.
\<close>

record scan_state =
  sc_sb :: "file_id option"
  sc_ret :: "errno option"
  sc_found :: bool
  sc_dir :: directory

definition remove_entry :: "rl_calls \<Rightarrow> string \<Rightarrow> scan_state \<Rightarrow> scan_state" where
  "remove_entry k name s =
     (case unlink_result k name of
        None \<Rightarrow> s\<lparr> sc_dir := filter (\<lambda>e. de_name e \<noteq> name) (sc_dir s) \<rparr>
      | Some err \<Rightarrow> if err \<noteq> ENOENT then s\<lparr> sc_ret := Some err \<rparr> else s)"

text \<open>An entry whose \<^verbatim>\<open>sb\<close> is \<open>i\<close>.\<close>

definition scan_entry :: "rl_calls \<Rightarrow> file_id \<Rightarrow> string \<Rightarrow> bool \<Rightarrow> bool \<Rightarrow> string \<Rightarrow> file_id \<Rightarrow> scan_state \<Rightarrow> scan_state" where
  "scan_entry k svc name del add d_name i s =
     (if i = svc then
        (if add \<and> d_name \<noteq> name then remove_entry k d_name s
         else
           let s1 = s\<lparr> sc_found := True \<rparr>
           in if del \<and> \<not> add then remove_entry k d_name s1 else s1)
      else if add \<and> d_name = name then remove_entry k d_name s
      else s)"

fun scan_loop :: "rl_calls \<Rightarrow> file_id \<Rightarrow> string \<Rightarrow> bool \<Rightarrow> bool \<Rightarrow> dirent list \<Rightarrow> scan_state \<Rightarrow> scan_state outcome" where
  "scan_loop k svc name del add [] s = Defined s"
| "scan_loop k svc name del add (e # es) s =
     (if de_type e \<noteq> DT_LNK then scan_loop k svc name del add es s
      else case de_stat e of
        Inl err \<Rightarrow>
          if err \<noteq> ENOENT then Defined (s\<lparr> sc_ret := Some err \<rparr>)
          else (case sc_sb s of
                  None \<Rightarrow> UB
                | Some i \<Rightarrow> scan_loop k svc name del add es (scan_entry k svc name del add (de_name e) i s))
      | Inr i \<Rightarrow> scan_loop k svc name del add es (scan_entry k svc name del add (de_name e) i (s\<lparr> sc_sb := Some i \<rparr>)))"

definition link_name :: "rl_service \<Rightarrow> nat \<Rightarrow> string" where
  "link_name svc rl = (if rl \<ge> 2 \<and> rl \<le> 5 then start_link (rls_name svc) else stop_link (rls_name svc))"

definition service_link :: "rl_service \<Rightarrow> nat \<Rightarrow> dirent" where
  "service_link svc rl = \<lparr> de_name = link_name svc rl, de_type = DT_LNK, de_stat = Inr (rls_id svc) \<rparr>"

text \<open>\<^verbatim>\<open>symlinkat\<close> fails with \<open>EEXIST\<close> if there is an entry of the name.\<close>

definition create_link :: "rl_calls \<Rightarrow> rl_service \<Rightarrow> nat \<Rightarrow> scan_state \<Rightarrow> scan_state" where
  "create_link k svc rl s =
     (if \<exists>e \<in> set (sc_dir s). de_name e = link_name svc rl then s
      else case symlink_result k of
        None \<Rightarrow> s\<lparr> sc_dir := sc_dir s @ [service_link svc rl] \<rparr>
      | Some err \<Rightarrow> if err \<noteq> EEXIST then s\<lparr> sc_ret := Some err \<rparr> else s)"

definition service_manip_rl ::
  "rl_calls \<Rightarrow> rl_service \<Rightarrow> nat \<Rightarrow> bool \<Rightarrow> bool \<Rightarrow> directory \<Rightarrow> ((errno + bool) \<times> directory) outcome" where
  "service_manip_rl k svc rl del add dir =
     (case opendir_result k of
        Some e \<Rightarrow> Defined (Inl e, dir)
      | None \<Rightarrow>
          obind (scan_loop k (rls_id svc) (link_name svc rl) del add dir
            \<lparr> sc_sb = None, sc_ret = None, sc_found = False, sc_dir = dir \<rparr>) (\<lambda>s.
          let s1 = (if add \<and> \<not> sc_found s \<and> sc_ret s = None then create_link k svc rl s else s)
          in Defined (case sc_ret s1 of Some e \<Rightarrow> Inl e | None \<Rightarrow> Inr (sc_found s1), sc_dir s1)))"

section \<open>All runlevels\<close>

type_synonym rc_dirs = "nat \<Rightarrow> directory"

fun manip_loop ::
  "(nat \<Rightarrow> rl_calls) \<Rightarrow> rl_service \<Rightarrow> bool \<Rightarrow> bool \<Rightarrow> nat list \<Rightarrow> errno + nat \<Rightarrow> rc_dirs \<Rightarrow> ((errno + nat) \<times> rc_dirs) outcome" where
  "manip_loop K svc del add [] ret fs = Defined (ret, fs)"
| "manip_loop K svc del add (rl # rls) ret fs =
     obind (service_manip_rl (K rl) svc rl del add (fs rl)) (\<lambda>(res, dir).
     manip_loop K svc del add rls
       (case res of
          Inl e \<Rightarrow> Inl e
        | Inr found \<Rightarrow> (case ret of Inl e \<Rightarrow> Inl e | Inr n \<Rightarrow> Inr (n + of_bool found)))
       (fs(rl := dir)))"

definition service_manip ::
  "(nat \<Rightarrow> rl_calls) \<Rightarrow> rl_service \<Rightarrow> bool \<Rightarrow> bool \<Rightarrow> rc_dirs \<Rightarrow> ((errno + nat) \<times> rc_dirs) outcome" where
  "service_manip K svc del add fs = manip_loop K svc del add [0, 1, 2, 3, 4, 5, 6] (Inr 0) fs"

definition service_is_enabled :: "(nat \<Rightarrow> rl_calls) \<Rightarrow> rl_service \<Rightarrow> rc_dirs \<Rightarrow> ((errno + nat) \<times> rc_dirs) outcome" where
  "service_is_enabled K svc fs = service_manip K svc False False fs"

definition service_disable :: "(nat \<Rightarrow> rl_calls) \<Rightarrow> rl_service \<Rightarrow> rc_dirs \<Rightarrow> ((errno + nat) \<times> rc_dirs) outcome" where
  "service_disable K svc fs = service_manip K svc True False fs"

definition service_enable :: "(nat \<Rightarrow> rl_calls) \<Rightarrow> rl_service \<Rightarrow> rc_dirs \<Rightarrow> ((errno + nat) \<times> rc_dirs) outcome" where
  "service_enable K svc fs = service_manip K svc False True fs"

definition service_is_enabled_rl :: "rl_calls \<Rightarrow> rl_service \<Rightarrow> nat \<Rightarrow> directory \<Rightarrow> ((errno + bool) \<times> directory) outcome" where
  "service_is_enabled_rl k svc rl dir = service_manip_rl k svc rl False False dir"

definition service_disable_rl :: "rl_calls \<Rightarrow> rl_service \<Rightarrow> nat \<Rightarrow> directory \<Rightarrow> ((errno + bool) \<times> directory) outcome" where
  "service_disable_rl k svc rl dir = service_manip_rl k svc rl True False dir"

definition service_enable_rl :: "rl_calls \<Rightarrow> rl_service \<Rightarrow> nat \<Rightarrow> directory \<Rightarrow> ((errno + bool) \<times> directory) outcome" where
  "service_enable_rl k svc rl dir = service_manip_rl k svc rl False True dir"

section \<open>What becomes of a directory\<close>

text \<open>
  The links to the service in a directory, and the directory that the operations should leave: enabling keeps the
  link with the right name, removes links with other names and foreign links that have taken the name, and adds
  the link if it is missing; disabling removes the links; a query changes nothing.
\<close>

definition ours :: "rl_service \<Rightarrow> dirent \<Rightarrow> bool" where
  "ours svc e \<longleftrightarrow> de_type e = DT_LNK \<and> de_stat e = Inr (rls_id svc)"

definition unwanted :: "rl_service \<Rightarrow> nat \<Rightarrow> bool \<Rightarrow> bool \<Rightarrow> dirent \<Rightarrow> bool" where
  "unwanted svc rl del add e \<longleftrightarrow>
     de_type e = DT_LNK \<and>
     (if ours svc e then (if add then de_name e \<noteq> link_name svc rl else del) else add \<and> de_name e = link_name svc rl)"

definition has_link :: "rl_service \<Rightarrow> nat \<Rightarrow> bool \<Rightarrow> directory \<Rightarrow> bool" where
  "has_link svc rl add dir \<longleftrightarrow> (\<exists>e \<in> set dir. ours svc e \<and> (add \<longrightarrow> de_name e = link_name svc rl))"

definition rl_spec :: "rl_service \<Rightarrow> nat \<Rightarrow> bool \<Rightarrow> bool \<Rightarrow> directory \<Rightarrow> directory" where
  "rl_spec svc rl del add dir =
     filter (\<lambda>e. \<not> unwanted svc rl del add e) dir @ (if add \<and> \<not> has_link svc rl add dir then [service_link svc rl] else [])"

text \<open>
  The circumstances: names are unique, every link leads to a file, the name of the link is not that of something
  else, and the system calls succeed.
\<close>

definition dir_ok :: "rl_service \<Rightarrow> nat \<Rightarrow> directory \<Rightarrow> bool" where
  "dir_ok svc rl dir \<longleftrightarrow>
     distinct (map de_name dir) \<and> (\<forall>e \<in> set dir. de_type e = DT_LNK \<longrightarrow> (\<exists>i. de_stat e = Inr i)) \<and>
     (\<forall>e \<in> set dir. de_name e = link_name svc rl \<longrightarrow> de_type e = DT_LNK)"

definition calls_ok :: "rl_calls \<Rightarrow> bool" where
  "calls_ok k \<longleftrightarrow> opendir_result k = None \<and> (\<forall>name. unlink_result k name = None) \<and> symlink_result k = None"

lemma scan_entry_ok:
  assumes "calls_ok k" and "de_type e = DT_LNK" and "de_stat e = Inr i"
  shows "scan_entry k (rls_id svc) (link_name svc rl) del add (de_name e) i s =
    s\<lparr> sc_found := (sc_found s \<or> ours svc e \<and> (add \<longrightarrow> de_name e = link_name svc rl)),
       sc_dir := (if unwanted svc rl del add e then filter (\<lambda>x. de_name x \<noteq> de_name e) (sc_dir s) else sc_dir s) \<rparr>"
  using assms by (auto simp: scan_entry_def remove_entry_def calls_ok_def ours_def unwanted_def Let_def)

lemma scan_loop_ok:
  assumes k: "calls_ok k" and "\<forall>e \<in> set es. de_type e = DT_LNK \<longrightarrow> (\<exists>i. de_stat e = Inr i)"
  shows "\<exists>s'. scan_loop k (rls_id svc) (link_name svc rl) del add es s = Defined s' \<and> sc_ret s' = sc_ret s \<and>
    sc_found s' = (sc_found s \<or> has_link svc rl add es) \<and>
    sc_dir s' = filter (\<lambda>x. \<not> (\<exists>e \<in> set es. unwanted svc rl del add e \<and> de_name e = de_name x)) (sc_dir s)"
  using assms(2)
proof (induction es arbitrary: s)
  case Nil
  then show ?case by (simp add: has_link_def)
next
  case (Cons e es)
  show ?case
  proof (cases "de_type e = DT_LNK")
    case False
    then have "\<not> ours svc e" "\<not> unwanted svc rl del add e" by (simp_all add: ours_def unwanted_def)
    then show ?thesis using Cons.IH [of s] Cons.prems False by (auto simp: has_link_def)
  next
    case True
    then obtain i where i: "de_stat e = Inr i" using Cons.prems by auto
    define s1 where "s1 = scan_entry k (rls_id svc) (link_name svc rl) del add (de_name e) i (s\<lparr> sc_sb := Some i \<rparr>)"
    have s1: "sc_ret s1 = sc_ret s" "sc_found s1 = (sc_found s \<or> ours svc e \<and> (add \<longrightarrow> de_name e = link_name svc rl))"
        "sc_dir s1 = (if unwanted svc rl del add e then filter (\<lambda>x. de_name x \<noteq> de_name e) (sc_dir s) else sc_dir s)"
      unfolding s1_def by (simp_all add: scan_entry_ok [OF k True i])
    have "\<forall>e \<in> set es. de_type e = DT_LNK \<longrightarrow> (\<exists>i. de_stat e = Inr i)" using Cons.prems by simp
    from Cons.IH [OF this, of s1] obtain s' where "scan_loop k (rls_id svc) (link_name svc rl) del add es s1 = Defined s'"
        "sc_ret s' = sc_ret s" "sc_found s' = (sc_found s1 \<or> has_link svc rl add es)"
        "sc_dir s' = filter (\<lambda>x. \<not> (\<exists>e \<in> set es. unwanted svc rl del add e \<and> de_name e = de_name x)) (sc_dir s1)"
      using s1(1) by auto
    moreover have "filter (\<lambda>x. \<not> (\<exists>e \<in> set es. unwanted svc rl del add e \<and> de_name e = de_name x)) (sc_dir s1) =
        filter (\<lambda>x. \<not> (\<exists>e \<in> set (e # es). unwanted svc rl del add e \<and> de_name e = de_name x)) (sc_dir s)"
      unfolding s1(3) by (auto intro!: filter_cong)
    ultimately show ?thesis using True i s1(2) by (auto simp: s1_def [symmetric] has_link_def)
  qed
qed

lemma manip_rl_ok:
  assumes k: "calls_ok k" and dir: "dir_ok svc rl dir"
  shows "service_manip_rl k svc rl del add dir = Defined (Inr (has_link svc rl add dir), rl_spec svc rl del add dir)"
proof -
  let ?s = "\<lparr> sc_sb = None, sc_ret = None, sc_found = False, sc_dir = dir \<rparr>"
  obtain s where s: "scan_loop k (rls_id svc) (link_name svc rl) del add dir ?s = Defined s" "sc_ret s = None"
      "sc_found s = has_link svc rl add dir"
      "sc_dir s = filter (\<lambda>x. \<not> (\<exists>e \<in> set dir. unwanted svc rl del add e \<and> de_name e = de_name x)) dir"
    using scan_loop_ok [OF k, of dir svc rl del add ?s] dir by (auto simp: dir_ok_def)
  have "(\<exists>e \<in> set dir. unwanted svc rl del add e \<and> de_name e = de_name x) \<longleftrightarrow> unwanted svc rl del add x" if "x \<in> set dir" for x
    using dir that by (auto simp: dir_ok_def distinct_map dest: inj_onD)
  then have kept: "sc_dir s = filter (\<lambda>e. \<not> unwanted svc rl del add e) dir" using s(4) by (auto intro: filter_cong)
  have free: "\<not> (\<exists>e \<in> set (sc_dir s). de_name e = link_name svc rl)" if "add" "\<not> has_link svc rl add dir"
  proof
    assume "\<exists>e \<in> set (sc_dir s). de_name e = link_name svc rl"
    then obtain e where e: "e \<in> set dir" "\<not> unwanted svc rl del add e" "de_name e = link_name svc rl" by (auto simp: kept)
    then have "de_type e = DT_LNK" using dir by (auto simp: dir_ok_def)
    then have "ours svc e" using e that(1) by (auto simp: unwanted_def split: if_splits)
    then show False using that e by (auto simp: has_link_def)
  qed
  show ?thesis
    using k s(1-3) free kept by (auto simp: service_manip_rl_def calls_ok_def create_link_def rl_spec_def Let_def)
qed

lemma manip_loop_ok:
  assumes "\<forall>rl \<in> set rls. calls_ok (K rl) \<and> dir_ok svc rl (fs rl)" and "distinct rls"
  shows "manip_loop K svc del add rls (Inr n) fs =
    Defined (Inr (n + sum_list (map (\<lambda>rl. of_bool (has_link svc rl add (fs rl))) rls)),
      \<lambda>rl. if rl \<in> set rls then rl_spec svc rl del add (fs rl) else fs rl)"
  using assms
proof (induction rls arbitrary: n fs)
  case (Cons rl rls)
  let ?fs = "fs(rl := rl_spec svc rl del add (fs rl))"
  have "\<forall>r \<in> set rls. calls_ok (K r) \<and> dir_ok svc r (?fs r)" using Cons.prems by auto
  moreover have "distinct rls" using Cons.prems(2) by simp
  ultimately have IH: "manip_loop K svc del add rls (Inr (n + of_bool (has_link svc rl add (fs rl)))) ?fs =
      Defined (Inr (n + of_bool (has_link svc rl add (fs rl)) + sum_list (map (\<lambda>r. of_bool (has_link svc r add (?fs r))) rls)),
        \<lambda>r. if r \<in> set rls then rl_spec svc r del add (?fs r) else ?fs r)"
    by (rule Cons.IH)
  have same: "map (\<lambda>r. of_bool (has_link svc r add (?fs r)) :: nat) rls = map (\<lambda>r. of_bool (has_link svc r add (fs r))) rls"
    using Cons.prems(2) by auto
  have dirs: "(\<lambda>r. if r \<in> set rls then rl_spec svc r del add (?fs r) else ?fs r) =
      (\<lambda>r. if r \<in> set (rl # rls) then rl_spec svc r del add (fs r) else fs r)"
    using Cons.prems(2) by (auto simp: fun_eq_iff)
  show ?case
    using Cons.prems(1) IH unfolding same dirs
    by (cases "has_link svc rl add (fs rl)") (simp_all add: manip_rl_ok fun_upd_def [symmetric] del: fun_upd_apply)
qed simp

definition runlevels :: "nat list" where "runlevels = [0, 1, 2, 3, 4, 5, 6]"

lemma service_manip_ok:
  assumes "\<forall>rl \<in> set runlevels. calls_ok (K rl) \<and> dir_ok svc rl (fs rl)"
  shows "service_manip K svc del add fs =
    Defined (Inr (sum_list (map (\<lambda>rl. of_bool (has_link svc rl add (fs rl))) runlevels)),
      \<lambda>rl. if rl \<in> set runlevels then rl_spec svc rl del add (fs rl) else fs rl)"
proof -
  have "distinct runlevels" by (simp add: runlevels_def)
  from manip_loop_ok [OF assms this, of del add 0] show ?thesis by (simp add: service_manip_def runlevels_def)
qed

text \<open>The directory of a runlevel after enabling is in order again, and holds one link to the service.\<close>

lemma distinct_constant:
  assumes "distinct (map f xs)" and "\<forall>x \<in> set xs. f x = c" and "xs \<noteq> []"
  shows "map f xs = [c]"
  using assms by (cases xs; cases "tl xs") auto

lemma enabled_names:
  assumes dir: "dir_ok svc rl dir"
  shows "filter (ours svc) (rl_spec svc rl False True dir) = filter (\<lambda>e. ours svc e \<and> de_name e = link_name svc rl) dir @
      (if has_link svc rl True dir then [] else [service_link svc rl])"
    and "map de_name (filter (ours svc) (rl_spec svc rl False True dir)) = [link_name svc rl]"
proof -
  have service: "ours svc (service_link svc rl)" "de_name (service_link svc rl) = link_name svc rl"
    by (simp_all add: ours_def service_link_def)
  have "filter (\<lambda>e. ours svc e \<and> \<not> unwanted svc rl False True e) dir = filter (\<lambda>e. ours svc e \<and> de_name e = link_name svc rl) dir"
    by (rule filter_cong) (auto simp: unwanted_def ours_def)
  then show eq: "filter (ours svc) (rl_spec svc rl False True dir) = filter (\<lambda>e. ours svc e \<and> de_name e = link_name svc rl) dir @
      (if has_link svc rl True dir then [] else [service_link svc rl])"
    using service by (simp add: rl_spec_def conj_commute)
  let ?us = "filter (\<lambda>e. ours svc e \<and> de_name e = link_name svc rl) dir"
  show "map de_name (filter (ours svc) (rl_spec svc rl False True dir)) = [link_name svc rl]"
  proof (cases "has_link svc rl True dir")
    case True
    then obtain e where e: "e \<in> set ?us" by (auto simp: has_link_def)
    have "distinct (map de_name ?us)" using dir by (simp add: dir_ok_def distinct_map_filter)
    then have "map de_name ?us = [link_name svc rl]" by (rule distinct_constant) (use e in \<open>auto simp: filter_empty_conv\<close>)
    then show ?thesis using True unfolding eq by simp
  next
    case False
    then have "?us = []" by (auto simp: has_link_def filter_empty_conv)
    then show ?thesis using False service(2) unfolding eq by simp
  qed
qed

lemma enabled_ok:
  assumes dir: "dir_ok svc rl dir"
  shows "dir_ok svc rl (rl_spec svc rl False True dir)"
proof -
  let ?kept = "filter (\<lambda>e. \<not> unwanted svc rl False True e) dir"
  have "distinct (map de_name ?kept)" using dir by (simp add: dir_ok_def distinct_map_filter)
  moreover have "link_name svc rl \<notin> de_name ` set ?kept" if "\<not> has_link svc rl True dir"
    using that dir by (auto simp: has_link_def unwanted_def dir_ok_def)
  ultimately show ?thesis using dir by (auto simp: dir_ok_def rl_spec_def service_link_def)
qed

lemma enabled_others:
  "filter (\<lambda>e. \<not> ours svc e \<and> de_name e \<noteq> link_name svc rl) (rl_spec svc rl False True dir) =
   filter (\<lambda>e. \<not> ours svc e \<and> de_name e \<noteq> link_name svc rl) dir"
proof -
  have "filter (\<lambda>e. \<not> unwanted svc rl False True e \<and> \<not> ours svc e \<and> de_name e \<noteq> link_name svc rl) dir =
      filter (\<lambda>e. \<not> ours svc e \<and> de_name e \<noteq> link_name svc rl) dir"
    by (rule filter_cong) (auto simp: unwanted_def)
  moreover have "de_name (service_link svc rl) = link_name svc rl" by (simp add: service_link_def)
  ultimately show ?thesis by (simp add: rl_spec_def)
qed

lemma enabled_link:
  assumes "dir_ok svc rl dir"
  shows "has_link svc rl add (rl_spec svc rl False True dir)"
proof -
  obtain e where "filter (ours svc) (rl_spec svc rl False True dir) = [e]" "de_name e = link_name svc rl"
    using enabled_names(2) [OF assms] by (auto simp: map_eq_Cons_conv)
  then have "e \<in> set (rl_spec svc rl False True dir)" "ours svc e" by (auto simp: filter_eq_Cons_iff)
  then show ?thesis using \<open>de_name e = link_name svc rl\<close> by (auto simp: has_link_def)
qed

lemma query_spec [simp]: "rl_spec svc rl False False dir = dir"
  by (simp add: rl_spec_def unwanted_def filter_id_conv)

lemma disable_spec [simp]: "rl_spec svc rl True False dir = filter (\<lambda>e. \<not> ours svc e) dir"
  by (auto simp: rl_spec_def unwanted_def ours_def intro!: filter_cong)

lemma enabled_again:
  assumes dir: "dir_ok svc rl dir"
  shows "rl_spec svc rl False True (rl_spec svc rl False True dir) = rl_spec svc rl False True dir"
proof -
  let ?dir = "rl_spec svc rl False True dir"
  have "\<not> unwanted svc rl False True e" if "e \<in> set ?dir" for e
    using that by (auto simp: rl_spec_def unwanted_def service_link_def ours_def split: if_splits)
  then have "filter (\<lambda>e. \<not> unwanted svc rl False True e) ?dir = ?dir" by (simp add: filter_id_conv)
  moreover have "has_link svc rl True ?dir" by (rule enabled_link [OF dir])
  ultimately show ?thesis unfolding rl_spec_def [of _ _ _ _ ?dir] by simp
qed

section \<open>Enabling and disabling\<close>

lemma sum_all: "\<forall>rl \<in> set rls. P rl \<Longrightarrow> sum_list (map (\<lambda>rl. of_bool (P rl)) rls) = length rls"
  by (induction rls) auto


text \<open>A service with no link at 0, a link of another name at 1, a stolen name at 2 and its link at 3.\<close>

definition example_rl_service :: rl_service where
  "example_rl_service = \<lparr> rls_name = ''d'', rls_path = ''/etc/init.d/d'', rls_id = (1, 7) \<rparr>"

definition example_calls :: rl_calls where
  "example_calls = \<lparr> opendir_result = None, unlink_result = \<lambda>name. None, symlink_result = None \<rparr>"

definition example_dirs :: rc_dirs where
  "example_dirs =
     (\<lambda>rl. [])(1 := [\<lparr> de_name = ''K10d'', de_type = DT_LNK, de_stat = Inr (1, 7) \<rparr>],
      2 := [\<lparr> de_name = ''README'', de_type = DT_OTHER, de_stat = Inr (1, 3) \<rparr>,
            \<lparr> de_name = ''S20d'', de_type = DT_LNK, de_stat = Inr (1, 9) \<rparr>],
      3 := [\<lparr> de_name = ''S20d'', de_type = DT_LNK, de_stat = Inr (1, 7) \<rparr>])"


end
