(* ===== verification/Getopt.thy ===== *)
theory Getopt
  imports Sysv_Prelude
begin

text \<open>
  What the programs use of \<^verbatim>\<open>getopt_long\<close> and \<^verbatim>\<open>getopt\<close> of the C library, which they all call in a loop before
  anything else and abandon at the first bad option: the sequence of its results and the operands, which it moves
  behind the options. An operand may stand anywhere; \<^verbatim>\<open>--\<close> ends the options; a long option may be abbreviated as
  long as the options that it can stand for do the same.
\<close>

text \<open>
  A long option: its name, whether it requires an argument, the value to store if there is a variable for it, and
  the value to return otherwise.
\<close>

record long_option =
  lo_name :: string
  lo_arg :: bool
  lo_flag :: "int option"
  lo_val :: char

text \<open>The results: an option with its argument, 0 after the variable has been set, and the question mark.\<close>

datatype opt = Opt char "string option" | Flag int | Bad

datatype cluster = Complete | Needs char | Invalid

text \<open>The letters of one argument; \<open>shorts\<close> gives the letters that are options and whether they require an argument.\<close>

fun short_cluster :: "(char \<rightharpoonup> bool) \<Rightarrow> string \<Rightarrow> opt list \<times> cluster" where
  "short_cluster shorts [] = ([], Complete)"
| "short_cluster shorts (c # cs) =
     (case shorts c of
        None \<Rightarrow> ([], Invalid)
      | Some False \<Rightarrow> (let (os, r) = short_cluster shorts cs in (Opt c None # os, r))
      | Some True \<Rightarrow> if cs = [] then ([], Needs c) else ([Opt c (Some cs)], Complete))"

definition same_action :: "long_option \<Rightarrow> long_option \<Rightarrow> bool" where
  "same_action p q \<longleftrightarrow> lo_arg p = lo_arg q \<and> lo_flag p = lo_flag q \<and> lo_val p = lo_val q"

definition long_lookup :: "long_option list \<Rightarrow> string \<Rightarrow> long_option option" where
  "long_lookup longs name =
     (case filter (\<lambda>p. lo_name p = name) longs of
        p # ps \<Rightarrow> Some p
      | [] \<Rightarrow>
          (case filter (\<lambda>p. prefix name (lo_name p)) longs of
             [] \<Rightarrow> None
           | p # ps \<Rightarrow> if list_all (same_action p) ps then Some p else None))"

definition long_result :: "long_option \<Rightarrow> string option \<Rightarrow> opt" where
  "long_result p optarg = (case lo_flag p of Some v \<Rightarrow> Flag v | None \<Rightarrow> Opt (lo_val p) optarg)"

definition long_split :: "string \<Rightarrow> string \<times> string option" where
  "long_split str =
     (takeWhile (\<lambda>c. c \<noteq> CHR ''='') str,
      case dropWhile (\<lambda>c. c \<noteq> CHR ''='') str of [] \<Rightarrow> None | _ # val \<Rightarrow> Some val)"

fun getopt_long :: "(char \<rightharpoonup> bool) \<Rightarrow> long_option list \<Rightarrow> string list \<Rightarrow> opt list \<times> string list" where
  "getopt_long shorts longs [] = ([], [])"
| "getopt_long shorts longs (a # as) =
     (if a = ''--'' then ([], as)
      else if prefix ''--'' a then
        (case long_lookup longs (fst (long_split (drop 2 a))) of
           None \<Rightarrow> ([Bad], as)
         | Some p \<Rightarrow>
             (case (lo_arg p, snd (long_split (drop 2 a))) of
                (False, None) \<Rightarrow> (let (os, rest) = getopt_long shorts longs as in (long_result p None # os, rest))
              | (False, Some v) \<Rightarrow> ([Bad], as)
              | (True, Some v) \<Rightarrow> (let (os, rest) = getopt_long shorts longs as in (long_result p (Some v) # os, rest))
              | (True, None) \<Rightarrow>
                  (case as of
                     [] \<Rightarrow> ([Bad], [])
                   | v # vs \<Rightarrow> (let (os, rest) = getopt_long shorts longs vs in (long_result p (Some v) # os, rest)))))
      else if prefix ''-'' a \<and> a \<noteq> ''-'' then
        (case short_cluster shorts (tl a) of
           (os, Complete) \<Rightarrow> (let (os', rest) = getopt_long shorts longs as in (os @ os', rest))
         | (os, Invalid) \<Rightarrow> (os @ [Bad], as)
         | (os, Needs c) \<Rightarrow>
             (case as of
                [] \<Rightarrow> (os @ [Bad], [])
              | v # vs \<Rightarrow> (let (os', rest) = getopt_long shorts longs vs in (os @ Opt c (Some v) # os', rest))))
      else (let (os, rest) = getopt_long shorts longs as in (os, a # rest)))"

text \<open>The letters of an option string of \<^verbatim>\<open>getopt\<close>, a colon after a letter meaning a required argument.\<close>

fun short_options :: "string \<Rightarrow> (char \<rightharpoonup> bool)" where
  "short_options [] = Map.empty"
| "short_options [c] = [c \<mapsto> False]"
| "short_options (c # d # cs) =
     (if d = CHR '':'' then (short_options cs)(c \<mapsto> True) else (short_options (d # cs))(c \<mapsto> False))"

text \<open>Arguments that are not options are the operands.\<close>

definition operand :: "string \<Rightarrow> bool" where
  "operand a \<longleftrightarrow> \<not> prefix ''-'' a \<or> a = ''-''"

lemma operand_simps:
  "operand a \<Longrightarrow> a \<noteq> ''--''" "operand a \<Longrightarrow> \<not> prefix ''--'' a" "operand a \<Longrightarrow> \<not> (prefix ''-'' a \<and> a \<noteq> ''-'')"
  by (auto simp: operand_def prefix_def)

lemma getopt_operands: "list_all operand as \<Longrightarrow> getopt_long shorts longs as = ([], as)"
proof (induction as)
  case (Cons a as)
  then have a: "operand a" and "getopt_long shorts longs as = ([], as)" by simp_all
  then show ?case using operand_simps [OF a] by (simp only: getopt_long.simps if_False simp_thms) simp
qed simp

lemma getopt_end: "list_all operand as \<Longrightarrow> getopt_long shorts longs (as @ ''--'' # bs) = ([], as @ bs)"
proof (induction as)
  case (Cons a as)
  then have a: "operand a" and IH: "getopt_long shorts longs (as @ ''--'' # bs) = ([], as @ bs)" by simp_all
  show ?case using operand_simps [OF a] IH by (simp only: append_Cons getopt_long.simps if_False simp_thms) simp
qed simp

lemma getopt_none_only:
  "getopt_long Map.empty [] as = ([], rest) \<Longrightarrow>
    list_all operand as \<and> rest = as \<or> (\<exists>xs ys. as = xs @ ''--'' # ys \<and> list_all operand xs \<and> rest = xs @ ys)"
proof (induction as arbitrary: rest)
  case (Cons a as)
  show ?case
  proof (cases "a = ''--'' \<or> \<not> operand a")
    case True
    then show ?thesis
    proof (cases "a = ''--''")
      case False
      then have "\<not> operand a" using True by simp
      then obtain c cs where "a = CHR ''-'' # c # cs" by (cases a; cases "tl a") (auto simp: operand_def)
      then have "fst (getopt_long Map.empty [] (a # as)) \<noteq> []"
        using False by (auto simp: long_lookup_def)
      then show ?thesis using Cons.prems by (metis fst_conv)
    qed (use Cons.prems in \<open>auto intro: exI [of _ "[]"]\<close>)
  next
    case False
    then have a: "operand a" by simp
    obtain os r where r: "getopt_long Map.empty [] as = (os, r)" by fastforce
    then have "os = []" "rest = a # r"
      using Cons.prems operand_simps [OF a] by (auto simp only: getopt_long.simps if_False simp_thms split: prod.splits) auto
    with Cons.IH [of r] r a show ?thesis by (metis append_Cons list.pred_inject(2))
  qed
qed simp

end
