(* ===== verification/Systemctl.thy ===== *)
theory Systemctl
  imports Runlevels Noise Getopt
begin

text \<open>
  The \<^verbatim>\<open>systemctl\<close> program: \<^verbatim>\<open>systemctl.c\<close>, \<^verbatim>\<open>options.c\<close>, \<^verbatim>\<open>start-stop.c\<close>, \<^verbatim>\<open>reload.c\<close>,
  \<^verbatim>\<open>status.c\<close>, \<^verbatim>\<open>enable-disable.c\<close>, \<^verbatim>\<open>show.c\<close>, \<^verbatim>\<open>noop.c\<close> and \<^verbatim>\<open>service_invoke\<close> of \<^verbatim>\<open>service.c\<close>. The
  init scripts are not part of the program: running one is a function on a state of which nothing is known here.
  What the program prints on its standard output is recorded; messages on the standard error are not.
\<close>

section \<open>Running an init script\<close>

text \<open>
  The ways in which an invocation can end: one of the calls of the parent fails, the child cannot execute the script
  and reports the error through the pipe, or the script is killed by a signal or exits.
\<close>

datatype script_end =
    Pipe_failed errno | Fork_failed errno | Wait_failed errno | Not_executed errno | Signalled nat | Exited nat

record 's host =
  h_root :: string
  h_stat :: "string \<Rightarrow> errno + file_id"
  h_run :: "string \<Rightarrow> string \<Rightarrow> 's \<Rightarrow> script_end \<times> 's"
  h_calls :: "nat \<Rightarrow> rl_calls"

record 's ctl =
  ct_state :: 's
  ct_rc :: rc_dirs
  ct_out :: "string list"

definition service_invoke :: "'s host \<Rightarrow> rl_service \<Rightarrow> string \<Rightarrow> 's ctl \<Rightarrow> int \<times> 's ctl" where
  "service_invoke H svc command w =
     (let (r, s) = h_run H (rls_path svc) command (ct_state w)
      in (case r of
            Pipe_failed e \<Rightarrow> -1
          | Fork_failed e \<Rightarrow> -1
          | Wait_failed e \<Rightarrow> -1
          | Not_executed e \<Rightarrow> -1
          | Signalled signo \<Rightarrow> - int signo
          | Exited status \<Rightarrow> int status,
          w\<lparr> ct_state := s \<rparr>))"

definition say :: "int \<Rightarrow> string \<Rightarrow> 's ctl \<Rightarrow> 's ctl" where
  "say noisy line w = (if noisy > QUIET then w\<lparr> ct_out := ct_out w @ [line] \<rparr> else w)"

lemmas exit_codes = EXIT_SUCCESS_def EXIT_FAILURE_def EX_USAGE_def

section \<open>The commands on one service\<close>

datatype ctl_command =
    Enable | Disable | Status | Is_enabled | Is_active | Start | Stop | Restart | Try_restart
  | Reload | Reload_or_restart | Reload_or_try_restart | Try_reload_or_restart | Daemon_reload | Show

fun command_name :: "ctl_command \<Rightarrow> string" where
  "command_name Enable = ''enable''"
| "command_name Disable = ''disable''"
| "command_name Status = ''status''"
| "command_name Is_enabled = ''is-enabled''"
| "command_name Is_active = ''is-active''"
| "command_name Start = ''start''"
| "command_name Stop = ''stop''"
| "command_name Restart = ''restart''"
| "command_name Try_restart = ''try-restart''"
| "command_name Reload = ''reload''"
| "command_name Reload_or_restart = ''reload-or-restart''"
| "command_name Reload_or_try_restart = ''reload-or-try-restart''"
| "command_name Try_reload_or_restart = ''try-reload-or-restart''"
| "command_name Daemon_reload = ''daemon-reload''"
| "command_name Show = ''show''"

definition start_stop_invoke :: "'s host \<Rightarrow> ctl_command \<Rightarrow> rl_service \<Rightarrow> 's ctl \<Rightarrow> int \<times> 's ctl" where
  "start_stop_invoke H cmd svc w =
     (let (res, w1) = service_invoke H svc (command_name cmd) w
      in (if res < 0 then EXIT_FAILURE else res, w1))"

definition start_stop :: "'s host \<Rightarrow> ctl_command \<Rightarrow> rl_service \<Rightarrow> 's ctl \<Rightarrow> int \<times> 's ctl" where
  "start_stop H cmd svc w =
     (if cmd = Start \<or> cmd = Stop \<or> cmd = Try_restart then
        let (res, w1) = service_invoke H svc ''status'' w;
            running = (res = 0)
        in if res < 0 then (EXIT_FAILURE, w1)
           else if cmd = Start \<and> running then (EXIT_SUCCESS, w1)
           else if cmd = Stop \<and> \<not> running then (EXIT_SUCCESS, w1)
           else if cmd = Try_restart \<and> \<not> running then (EXIT_SUCCESS, w1)
           else start_stop_invoke H (if cmd = Try_restart then Restart else cmd) svc w1
      else start_stop_invoke H cmd svc w)"

text \<open>The part of \<^verbatim>\<open>reload\<close> after the check of the status.\<close>

definition reload_then_restart :: "'s host \<Rightarrow> bool \<Rightarrow> rl_service \<Rightarrow> 's ctl \<Rightarrow> int \<times> 's ctl" where
  "reload_then_restart H or_restart svc w =
     (let (res, w1) = service_invoke H svc ''reload'' w
      in if res < 0 then (EXIT_FAILURE, w1)
         else if res = 0 then (EXIT_SUCCESS, w1)
         else if or_restart then
           let (res, w2) = service_invoke H svc ''restart'' w1
           in (if res < 0 then EXIT_FAILURE else res, w2)
         else (res, w1))"

definition reload :: "'s host \<Rightarrow> ctl_command \<Rightarrow> rl_service \<Rightarrow> 's ctl \<Rightarrow> int \<times> 's ctl" where
  "reload H cmd svc w =
     (if cmd = Reload_or_try_restart \<or> cmd = Try_reload_or_restart then
        let (res, w1) = service_invoke H svc ''status'' w
        in if res < 0 then (EXIT_FAILURE, w1)
           else if res > 0 then (EXIT_SUCCESS, w1)
           else reload_then_restart H True svc w1
      else reload_then_restart H (cmd = Reload_or_restart) svc w)"

text \<open>
  \<^verbatim>\<open>status\<close>: first whether the service is enabled, which reads the runlevel directories, then whether it runs.
\<close>

definition status_enabled :: "'s host \<Rightarrow> ctl_command \<Rightarrow> rl_service \<Rightarrow> 's ctl \<Rightarrow> ((errno + bool) \<times> 's ctl) outcome" where
  "status_enabled H cmd svc w =
     (if cmd = Status \<or> cmd = Is_enabled then
        obind (service_is_enabled (h_calls H) svc (ct_rc w)) (\<lambda>(res, rc).
        Defined (case res of Inl e \<Rightarrow> Inl e | Inr n \<Rightarrow> Inr (n > 0), w\<lparr> ct_rc := rc \<rparr>))
      else Defined (Inr False, w))"

definition status_running :: "'s host \<Rightarrow> ctl_command \<Rightarrow> rl_service \<Rightarrow> 's ctl \<Rightarrow> bool option \<times> 's ctl" where
  "status_running H cmd svc w =
     (if cmd = Status \<or> cmd = Is_active then
        let (res, w1) = service_invoke H svc ''status'' w
        in (if res < 0 then None else Some (res = 0), w1)
      else (Some False, w))"

definition status_report :: "int \<Rightarrow> ctl_command \<Rightarrow> rl_service \<Rightarrow> bool \<Rightarrow> bool \<Rightarrow> 's ctl \<Rightarrow> int \<times> 's ctl" where
  "status_report noisy cmd svc enabled running w =
     (let e = (if enabled then ''enabled'' else ''disabled'');
          a = (if running then ''active'' else ''inactive'')
      in if cmd = Status then
           (if running then 0 else if enabled then 3 else 4,
            say noisy (rls_name svc @ '' is '' @ e @ '' and '' @ a @ [NL]) w)
         else if cmd = Is_enabled then (if enabled then 0 else 1, say noisy (e @ [NL]) w)
         else if cmd = Is_active then (if running then 0 else 3, say noisy (a @ [NL]) w)
         else (EXIT_FAILURE, w))"

definition status :: "'s host \<Rightarrow> int \<Rightarrow> ctl_command \<Rightarrow> rl_service \<Rightarrow> 's ctl \<Rightarrow> (int \<times> 's ctl) outcome" where
  "status H noisy cmd svc w =
     obind (status_enabled H cmd svc w) (\<lambda>(res, w1).
     case res of
       Inl e \<Rightarrow> Defined (EXIT_FAILURE, w1)
     | Inr enabled \<Rightarrow>
         let (r, w2) = status_running H cmd svc w1
         in case r of
              None \<Rightarrow> Defined (EXIT_FAILURE, w2)
            | Some running \<Rightarrow> Defined (status_report noisy cmd svc enabled running w2))"

definition enable_disable :: "'s host \<Rightarrow> ctl_command \<Rightarrow> rl_service \<Rightarrow> 's ctl \<Rightarrow> (int \<times> 's ctl) outcome" where
  "enable_disable H cmd svc w =
     (let finish = (\<lambda>(res, rc). Defined (case res of Inl e \<Rightarrow> EXIT_FAILURE | Inr (n :: nat) \<Rightarrow> EXIT_SUCCESS, w\<lparr> ct_rc := rc \<rparr>))
      in if cmd = Enable then obind (service_enable (h_calls H) svc (ct_rc w)) finish
         else if cmd = Disable then obind (service_disable (h_calls H) svc (ct_rc w)) finish
         else Defined (EXIT_FAILURE, w))"

section \<open>The commands on their arguments\<close>

text \<open>\<^verbatim>\<open>getopt_none\<close>: the operands, or \<open>None\<close> if there is an option.\<close>

definition getopt_none :: "string list \<Rightarrow> string list option" where
  "getopt_none args =
     (let (os, rest) = getopt_long Map.empty [] args
      in if list_all (\<lambda>opt. case opt of Flag v \<Rightarrow> True | _ \<Rightarrow> False) os then Some rest else None)"

text \<open>The loop of the mains; \<open>combine\<close> makes the new exit code from the result for a service and the exit code.\<close>

fun each_service ::
  "'s host \<Rightarrow> (rl_service \<Rightarrow> 's ctl \<Rightarrow> (int \<times> 's ctl) outcome) \<Rightarrow> (int \<Rightarrow> int \<Rightarrow> int) \<Rightarrow> string list \<Rightarrow> int \<Rightarrow> 's ctl \<Rightarrow>
   (int \<times> 's ctl) outcome" where
  "each_service H f combine [] ret w = Defined (ret, w)"
| "each_service H f combine (arg # args) ret w =
     (case init_service_find (h_root H) (h_stat H) arg of
        Inl e \<Rightarrow> Defined (EXIT_FAILURE, w)
      | Inr svc \<Rightarrow> obind (f svc w) (\<lambda>(res, w1). each_service H f combine args (combine res ret) w1))"

definition fail_any :: "int \<Rightarrow> int \<Rightarrow> int" where
  "fail_any res ret = (if res \<noteq> 0 then res else ret)"

definition pass_any :: "int \<Rightarrow> int \<Rightarrow> int" where
  "pass_any res ret = (if res = 0 then 0 else ret)"

definition command_usage :: "ctl_command \<Rightarrow> string" where
  "command_usage cmd =
     ''systemctl [options] '' @ command_name cmd @ (if cmd = Daemon_reload then [] else '' service [...]'') @ [NL]"

definition on_services :: "ctl_command \<Rightarrow> string list \<Rightarrow> 's ctl \<Rightarrow> (string list \<Rightarrow> (int \<times> 's ctl) outcome) \<Rightarrow> (int \<times> 's ctl) outcome" where
  "on_services cmd args w loop =
     (case getopt_none args of
        Some (svc # svcs) \<Rightarrow> loop (svc # svcs)
      | _ \<Rightarrow> Defined (EXIT_FAILURE, w\<lparr> ct_out := ct_out w @ [command_usage cmd] \<rparr>))"

definition start_stop_main :: "'s host \<Rightarrow> ctl_command \<Rightarrow> string list \<Rightarrow> 's ctl \<Rightarrow> (int \<times> 's ctl) outcome" where
  "start_stop_main H cmd args w =
     on_services cmd args w (\<lambda>svcs. each_service H (\<lambda>svc w. Defined (start_stop H cmd svc w)) fail_any svcs 0 w)"

definition reload_main :: "'s host \<Rightarrow> ctl_command \<Rightarrow> string list \<Rightarrow> 's ctl \<Rightarrow> (int \<times> 's ctl) outcome" where
  "reload_main H cmd args w =
     on_services cmd args w (\<lambda>svcs. each_service H (\<lambda>svc w. Defined (reload H cmd svc w)) fail_any svcs 0 w)"

definition status_main :: "'s host \<Rightarrow> int \<Rightarrow> ctl_command \<Rightarrow> string list \<Rightarrow> 's ctl \<Rightarrow> (int \<times> 's ctl) outcome" where
  "status_main H noisy cmd args w =
     on_services cmd args w (\<lambda>svcs.
       each_service H (status H noisy cmd) (if cmd = Status then fail_any else pass_any) svcs (if cmd = Status then 0 else 3) w)"

definition enable_disable_main :: "'s host \<Rightarrow> ctl_command \<Rightarrow> string list \<Rightarrow> 's ctl \<Rightarrow> (int \<times> 's ctl) outcome" where
  "enable_disable_main H cmd args w =
     on_services cmd args w (\<lambda>svcs. each_service H (enable_disable H cmd) fail_any svcs 0 w)"

definition show_main :: "'s host \<Rightarrow> ctl_command \<Rightarrow> string list \<Rightarrow> 's ctl \<Rightarrow> (int \<times> 's ctl) outcome" where
  "show_main H cmd args w =
     on_services cmd args w (\<lambda>svcs. each_service H (\<lambda>svc w. Defined (service_invoke H svc ''show'' w)) fail_any svcs 0 w)"

definition noop_main :: "ctl_command \<Rightarrow> string list \<Rightarrow> 's ctl \<Rightarrow> (int \<times> 's ctl) outcome" where
  "noop_main cmd args w =
     (case getopt_none args of
        None \<Rightarrow> Defined (EXIT_FAILURE, w\<lparr> ct_out := ct_out w @ [command_usage cmd] \<rparr>)
      | Some rest \<Rightarrow> Defined (EXIT_SUCCESS, w))"

section \<open>The program\<close>

definition command_main :: "'s host \<Rightarrow> int \<Rightarrow> ctl_command \<Rightarrow> string list \<Rightarrow> 's ctl \<Rightarrow> (int \<times> 's ctl) outcome" where
  "command_main H noisy cmd args w =
     (case cmd of
        Enable \<Rightarrow> enable_disable_main H cmd args w
      | Disable \<Rightarrow> enable_disable_main H cmd args w
      | Status \<Rightarrow> status_main H noisy cmd args w
      | Is_enabled \<Rightarrow> status_main H noisy cmd args w
      | Is_active \<Rightarrow> status_main H noisy cmd args w
      | Start \<Rightarrow> start_stop_main H cmd args w
      | Stop \<Rightarrow> start_stop_main H cmd args w
      | Restart \<Rightarrow> start_stop_main H cmd args w
      | Try_restart \<Rightarrow> start_stop_main H cmd args w
      | Reload \<Rightarrow> reload_main H cmd args w
      | Reload_or_restart \<Rightarrow> reload_main H cmd args w
      | Reload_or_try_restart \<Rightarrow> reload_main H cmd args w
      | Try_reload_or_restart \<Rightarrow> reload_main H cmd args w
      | Daemon_reload \<Rightarrow> noop_main cmd args w
      | Show \<Rightarrow> show_main H cmd args w)"

definition commands :: "ctl_command list" where
  "commands = [Enable, Disable, Status, Is_enabled, Is_active, Start, Stop, Restart, Try_restart, Reload,
     Reload_or_restart, Reload_or_try_restart, Try_reload_or_restart, Daemon_reload, Show]"

definition ctl_long_options :: "long_option list" where
  "ctl_long_options =
     [\<lparr> lo_name = ''debug'', lo_arg = False, lo_flag = None, lo_val = CHR ''d'' \<rparr>,
      \<lparr> lo_name = ''help'', lo_arg = False, lo_flag = None, lo_val = CHR ''h'' \<rparr>,
      \<lparr> lo_name = ''root'', lo_arg = True, lo_flag = None, lo_val = CHR ''r'' \<rparr>,
      \<lparr> lo_name = ''quiet'', lo_arg = False, lo_flag = Some QUIET, lo_val = NUL \<rparr>,
      \<lparr> lo_name = ''verbose'', lo_arg = False, lo_flag = Some VERBOSE, lo_val = NUL \<rparr>,
      \<lparr> lo_name = ''version'', lo_arg = False, lo_flag = None, lo_val = CHR ''V'' \<rparr>]"

definition ctl_usage :: string where "ctl_usage = ''systemctl [options] command [...]'' @ [NL]"
definition ctl_version :: string where "ctl_version = ''systemctl 1812 (f-secure)'' @ [NL]"

text \<open>The loop over the options: an exit code with what is printed, or the root directory and the noise level.\<close>

fun ctl_options :: "opt list \<Rightarrow> string \<Rightarrow> int \<Rightarrow> (int \<times> string) + (string \<times> int)" where
  "ctl_options [] root noisy = Inr (root, noisy)"
| "ctl_options (Flag v # opts) root noisy = ctl_options opts root v"
| "ctl_options (Bad # opts) root noisy = Inl (EX_USAGE, ctl_usage)"
| "ctl_options (Opt c optarg # opts) root noisy =
     (if c = CHR ''h'' then Inl (EXIT_SUCCESS, ctl_usage)
      else if c = CHR ''r'' then ctl_options opts (case optarg of Some dir \<Rightarrow> dir | None \<Rightarrow> root) noisy
      else if c = CHR ''V'' then Inl (EXIT_SUCCESS, ctl_version)
      else if c = CHR ''d'' \<or> c = CHR ''q'' \<or> c = CHR ''v'' then
        ctl_options opts root (case noise_set_level c noisy of Some noisy' \<Rightarrow> noisy' | None \<Rightarrow> noisy)
      else Inl (EX_USAGE, ctl_usage))"

text \<open>\<^verbatim>\<open>main\<close>; \<open>env\<close> is the value of \<^verbatim>\<open>SYSVKIT_NOISE\<close>.\<close>

definition ctl_main :: "'s host \<Rightarrow> string option \<Rightarrow> string list \<Rightarrow> 's ctl \<Rightarrow> (int \<times> 's ctl) outcome" where
  "ctl_main H env args w =
     (let (os, rest) = getopt_long (short_options ''dhqv'') ctl_long_options args
      in case ctl_options os '''' NORMAL of
           Inl (res, line) \<Rightarrow> Defined (res, w\<lparr> ct_out := ct_out w @ [line] \<rparr>)
         | Inr (root, noisy) \<Rightarrow>
             (case rest of
                [] \<Rightarrow> Defined (EX_USAGE, w\<lparr> ct_out := ct_out w @ [ctl_usage] \<rparr>)
              | name # args \<Rightarrow>
                  let (res, noisy) = noise_override env None noisy
                  in if res \<noteq> 0 then Defined (EX_USAGE, w)
                     else case filter (\<lambda>cmd. command_name cmd = name) commands of
                       cmd # _ \<Rightarrow> command_main (H\<lparr> h_root := root \<rparr>) noisy cmd args w
                     | [] \<Rightarrow> Defined (EXIT_FAILURE, w)))"

section \<open>Scripts that follow the Linux Standard Base\<close>

text \<open>
  What the program relies on: the exit code of \<^verbatim>\<open>status\<close> is zero if and only if the service runs and nothing changes,
  \<^verbatim>\<open>start\<close>, \<^verbatim>\<open>stop\<close> and \<^verbatim>\<open>restart\<close> do what they are named after for this service and no other, and exit
  with zero.
\<close>

definition lsb :: "'s host \<Rightarrow> ('s \<Rightarrow> string \<Rightarrow> bool) \<Rightarrow> bool" where
  "lsb H running \<longleftrightarrow>
     (\<forall>path s.
        (\<exists>code. h_run H path ''status'' s = (Exited code, s) \<and> (code = 0 \<longleftrightarrow> running s path)) \<and>
        (\<exists>s'. h_run H path ''start'' s = (Exited 0, s') \<and> running s' = (running s)(path := True)) \<and>
        (\<exists>s'. h_run H path ''stop'' s = (Exited 0, s') \<and> running s' = (running s)(path := False)) \<and>
        (\<exists>s'. h_run H path ''restart'' s = (Exited 0, s') \<and> running s' = (running s)(path := True)))"

lemma invoke_status:
  assumes "lsb H running"
  obtains code where "service_invoke H svc ''status'' w = (int code, w)" "code = 0 \<longleftrightarrow> running (ct_state w) (rls_path svc)"
proof -
  from assms obtain code where "h_run H (rls_path svc) ''status'' (ct_state w) = (Exited code, ct_state w)"
      "code = 0 \<longleftrightarrow> running (ct_state w) (rls_path svc)"
    unfolding lsb_def by blast
  then show ?thesis by (intro that [of code]) (simp_all add: service_invoke_def)
qed

text \<open>What a command of the first group should do to the service's state.\<close>

definition becomes :: "ctl_command \<Rightarrow> bool \<Rightarrow> bool" where
  "becomes cmd run = (if cmd = Start \<or> cmd = Restart then True else if cmd = Stop then False else run)"

lemma invoke_command:
  assumes "lsb H running" and "cmd \<in> {Start, Stop, Restart}"
  shows "\<exists>s. start_stop_invoke H cmd svc w = (0, w\<lparr> ct_state := s \<rparr>) \<and>
    running s = (running (ct_state w))(rls_path svc := becomes cmd (running (ct_state w) (rls_path svc)))"
proof -
  have "\<exists>s. h_run H (rls_path svc) (command_name cmd) (ct_state w) = (Exited 0, s) \<and>
      running s = (running (ct_state w))(rls_path svc := becomes cmd (running (ct_state w) (rls_path svc)))"
    using assms unfolding lsb_def becomes_def by auto
  then show ?thesis by (auto simp: start_stop_invoke_def service_invoke_def)
qed

lemma start_stop_lsb:
  assumes lsb: "lsb H running" and cmd: "cmd \<in> {Start, Stop, Restart, Try_restart}"
  shows "\<exists>s. start_stop H cmd svc w = (0, w\<lparr> ct_state := s \<rparr>) \<and>
    running s = (running (ct_state w))(rls_path svc := becomes cmd (running (ct_state w) (rls_path svc))) \<and>
    (cmd \<in> {Start, Stop} \<longrightarrow> becomes cmd (running (ct_state w) (rls_path svc)) = running (ct_state w) (rls_path svc) \<longrightarrow> s = ct_state w)"
proof -
  let ?r = "running (ct_state w) (rls_path svc)"
  obtain code where status: "service_invoke H svc ''status'' w = (int code, w)" "code = 0 \<longleftrightarrow> ?r"
    using invoke_status [OF lsb] by blast
  have same: "w\<lparr> ct_state := ct_state w \<rparr> = w" "(running (ct_state w))(rls_path svc := ?r) = running (ct_state w)" by auto
  consider "cmd = Restart" | "cmd = Start" | "cmd = Stop" | "cmd = Try_restart" using cmd by auto
  then show ?thesis
  proof cases
    case 1
    then show ?thesis using invoke_command [OF lsb, of Restart svc w] by (auto simp: start_stop_def)
  next
    case 2
    then show ?thesis using invoke_command [OF lsb, of Start svc w] status same
      by (cases ?r) (auto simp: start_stop_def becomes_def exit_codes intro: exI [of _ "ct_state w"])
  next
    case 3
    then show ?thesis using invoke_command [OF lsb, of Stop svc w] status same
      by (cases ?r) (auto simp: start_stop_def becomes_def exit_codes intro: exI [of _ "ct_state w"])
  next
    case 4
    then show ?thesis using invoke_command [OF lsb, of Restart svc w] status same
      by (cases ?r) (auto simp: start_stop_def becomes_def exit_codes intro: exI [of _ "ct_state w"])
  qed
qed

definition script :: "string \<Rightarrow> string \<Rightarrow> string" where
  "script root arg = init_path root (snd (deservicify arg))"

definition installed :: "'s host \<Rightarrow> string \<Rightarrow> bool" where
  "installed H arg \<longleftrightarrow> snd (deservicify arg) \<noteq> [] \<and> (\<exists>i. h_stat H (script (h_root H) arg) = Inr i)"

lemma installed_found:
  assumes "installed H arg"
  obtains svc where "init_service_find (h_root H) (h_stat H) arg = Inr svc" "rls_path svc = script (h_root H) arg"
    "rls_name svc = snd (deservicify arg)"
  using assms by (auto simp: installed_def init_service_find_def script_def Let_def)

lemma start_stop_each:
  assumes lsb: "lsb H running" and cmd: "cmd \<in> {Start, Stop, Restart, Try_restart}" and "\<forall>arg \<in> set args. installed H arg"
  shows "\<exists>s. each_service H (\<lambda>svc w. Defined (start_stop H cmd svc w)) fail_any args 0 w = Defined (0, w\<lparr> ct_state := s \<rparr>) \<and>
    running s = (\<lambda>p. if p \<in> script (h_root H) ` set args then becomes cmd (running (ct_state w) p) else running (ct_state w) p) \<and>
    (cmd \<in> {Start, Stop} \<longrightarrow>
      (\<forall>p \<in> script (h_root H) ` set args. becomes cmd (running (ct_state w) p) = running (ct_state w) p) \<longrightarrow> s = ct_state w)"
  using assms(3)
proof (induction args arbitrary: w)
  case Nil
  show ?case by (intro exI [of _ "ct_state w"]) simp
next
  case (Cons arg args)
  obtain svc where svc: "init_service_find (h_root H) (h_stat H) arg = Inr svc" "rls_path svc = script (h_root H) arg"
    using Cons.prems installed_found [of H arg] by auto
  obtain s1 where s1: "start_stop H cmd svc w = (0, w\<lparr> ct_state := s1 \<rparr>)"
      "running s1 = (running (ct_state w))(script (h_root H) arg := becomes cmd (running (ct_state w) (script (h_root H) arg)))"
      "cmd \<in> {Start, Stop} \<longrightarrow>
        becomes cmd (running (ct_state w) (script (h_root H) arg)) = running (ct_state w) (script (h_root H) arg) \<longrightarrow> s1 = ct_state w"
    using start_stop_lsb [OF lsb cmd, of svc w] unfolding svc(2) by blast
  define w1 where "w1 = w\<lparr> ct_state := s1 \<rparr>"
  have w1: "ct_state w1 = s1" "w1\<lparr> ct_state := s \<rparr> = w\<lparr> ct_state := s \<rparr>" for s by (simp_all add: w1_def)
  have "\<forall>arg \<in> set args. installed H arg" using Cons.prems by simp
  from Cons.IH [OF this, of w1, unfolded w1] obtain s2 where
      s2: "each_service H (\<lambda>svc w. Defined (start_stop H cmd svc w)) fail_any args 0 w1 = Defined (0, w\<lparr> ct_state := s2 \<rparr>)"
      "running s2 = (\<lambda>p. if p \<in> script (h_root H) ` set args then becomes cmd (running s1 p) else running s1 p)"
      "cmd \<in> {Start, Stop} \<longrightarrow> (\<forall>p \<in> script (h_root H) ` set args. becomes cmd (running s1 p) = running s1 p) \<longrightarrow> s2 = s1"
    by blast
  have "each_service H (\<lambda>svc w. Defined (start_stop H cmd svc w)) fail_any (arg # args) 0 w = Defined (0, w\<lparr> ct_state := s2 \<rparr>)"
    using svc(1) s1(1) s2(1) by (simp add: fail_any_def w1_def)
  moreover have "running s2 = (\<lambda>p. if p \<in> script (h_root H) ` set (arg # args) then becomes cmd (running (ct_state w) p)
      else running (ct_state w) p)"
    unfolding s2(2) s1(2) by (auto simp: becomes_def)
  moreover have "s2 = ct_state w" if "cmd \<in> {Start, Stop}"
      "\<forall>p \<in> script (h_root H) ` set (arg # args). becomes cmd (running (ct_state w) p) = running (ct_state w) p"
    using that s1(3) s2(3) by auto
  ultimately show ?case by blast
qed

definition active_word :: "bool \<Rightarrow> string" where
  "active_word running = (if running then ''active'' else ''inactive'') @ [NL]"

lemma is_active_each:
  assumes lsb: "lsb H running" and "\<forall>arg \<in> set args. installed H arg"
  shows "each_service H (status H noisy Is_active) pass_any args ret w =
    Defined (if \<exists>arg \<in> set args. running (ct_state w) (script (h_root H) arg) then 0 else ret,
      w\<lparr> ct_out := ct_out w @
        (if noisy > QUIET then map (\<lambda>arg. active_word (running (ct_state w) (script (h_root H) arg))) args else []) \<rparr>)"
  using assms(2)
proof (induction args arbitrary: ret w)
  case (Cons arg args)
  obtain svc where svc: "init_service_find (h_root H) (h_stat H) arg = Inr svc" "rls_path svc = script (h_root H) arg"
    using Cons.prems installed_found [of H arg] by auto
  let ?r = "running (ct_state w) (script (h_root H) arg)"
  obtain code where "service_invoke H svc ''status'' w = (int code, w)" "code = 0 \<longleftrightarrow> ?r"
    using invoke_status [OF lsb, of svc w] svc(2) by auto
  then have "status H noisy Is_active svc w = Defined (if ?r then 0 else 3, say noisy (active_word ?r) w)"
    by (simp add: status_def status_enabled_def status_running_def status_report_def active_word_def Let_def)
  then show ?case
    using svc(1) Cons.IH [of _ "say noisy (active_word ?r) w"] Cons.prems by (auto simp: say_def pass_any_def)
qed simp

lemma command_found:
  "filter (\<lambda>c. command_name c = command_name cmd) commands = [cmd]"
  by (cases cmd) (simp_all add: commands_def)

lemma getopt_none_operands: "list_all operand args \<Longrightarrow> getopt_none args = Some args"
  by (simp add: getopt_none_def getopt_operands)

lemma command_operand: "operand (command_name cmd)"
  by (cases cmd) (simp_all add: operand_def)

lemma ctl_main_command:
  assumes "list_all operand args"
  shows "ctl_main H None (command_name cmd # args) w = command_main (H\<lparr> h_root := '''' \<rparr>) NORMAL cmd args w"
proof -
  have "list_all operand (command_name cmd # args)" using assms command_operand by simp
  note getopt = getopt_operands [OF this, of "short_options ''dhqv''" ctl_long_options]
  show ?thesis
    unfolding ctl_main_def getopt by (simp add: noise_override_def command_found del: short_options.simps)
qed

lemma on_services_operands: "list_all operand args \<Longrightarrow> args \<noteq> [] \<Longrightarrow> on_services cmd args w loop = loop args"
  by (cases args) (simp_all add: on_services_def getopt_none_operands)

lemma lsb_root [simp]: "lsb (H\<lparr> h_root := r \<rparr>) running = lsb H running"
  by (simp add: lsb_def)

lemma ctl_start_stop_run:
  assumes lsb: "lsb H running" and args: "list_all operand args" "args \<noteq> []" "\<forall>arg \<in> set args. installed (H\<lparr> h_root := '''' \<rparr>) arg"
    and cmd: "cmd \<in> {Start, Stop, Restart, Try_restart}"
  shows "\<exists>s. ctl_main H None (command_name cmd # args) w = Defined (0, w\<lparr> ct_state := s \<rparr>) \<and>
    running s = (\<lambda>p. if p \<in> script '''' ` set args then becomes cmd (running (ct_state w) p) else running (ct_state w) p) \<and>
    (cmd \<in> {Start, Stop} \<longrightarrow>
      (\<forall>p \<in> script '''' ` set args. becomes cmd (running (ct_state w) p) = running (ct_state w) p) \<longrightarrow> s = ct_state w)"
proof -
  let ?H = "H\<lparr> h_root := '''' \<rparr>"
  have "lsb ?H running" using lsb by simp
  moreover have "ctl_main H None (command_name cmd # args) w =
      each_service ?H (\<lambda>svc w. Defined (start_stop ?H cmd svc w)) fail_any args 0 w"
    unfolding ctl_main_command [OF args(1)] using cmd on_services_operands [OF args(1,2)]
    by (auto simp: command_main_def start_stop_main_def)
  moreover have "h_root ?H = ''''" by simp
  ultimately show ?thesis using start_stop_each [OF _ cmd args(3), of running w] by presburger
qed

lemma ctl_is_active_run:
  assumes lsb: "lsb H running" and args: "list_all operand args" "args \<noteq> []" "\<forall>arg \<in> set args. installed (H\<lparr> h_root := '''' \<rparr>) arg"
  shows "ctl_main H None (''is-active'' # args) w =
    Defined (if \<exists>arg \<in> set args. running (ct_state w) (script '''' arg) then 0 else 3,
      w\<lparr> ct_out := ct_out w @ map (\<lambda>arg. active_word (running (ct_state w) (script '''' arg))) args \<rparr>)"
proof -
  let ?H = "H\<lparr> h_root := '''' \<rparr>"
  have "lsb ?H running" using lsb by simp
  note loop = is_active_each [OF this args(3), of NORMAL 3 w]
  have "ctl_main H None (command_name Is_active # args) w = each_service ?H (status ?H NORMAL Is_active) pass_any args 3 w"
    unfolding ctl_main_command [OF args(1)] using on_services_operands [OF args(1,2)] by (simp add: command_main_def status_main_def)
  then show ?thesis unfolding loop by (simp add: noise_levels)
qed

text \<open>
  C12. With init scripts that follow the Linux Standard Base, \<^verbatim>\<open>systemctl start\<close> on installed services exits with zero
  and leaves exactly those services running that ran before or are named, also if a service is named twice; a second
  \<^verbatim>\<open>start\<close> changes nothing at all; \<^verbatim>\<open>is-active\<close> then prints \<^verbatim>\<open>active\<close> for each and exits with zero; and
  \<^verbatim>\<open>stop\<close> exits with zero and leaves those running that ran before and are not named, after which \<^verbatim>\<open>is-active\<close>
  prints \<^verbatim>\<open>inactive\<close> for each and exits with 3.
\<close>

theorem systemctl_start_stop:
  assumes "lsb H running" and "list_all operand args" and "args \<noteq> []" and "\<forall>arg \<in> set args. installed (H\<lparr> h_root := '''' \<rparr>) arg"
  shows "\<exists>w1 w2.
    ctl_main H None (''start'' # args) w = Defined (0, w1) \<and>
    running (ct_state w1) = (\<lambda>p. running (ct_state w) p \<or> p \<in> script '''' ` set args) \<and>
    ctl_main H None (''start'' # args) w1 = Defined (0, w1) \<and>
    ctl_main H None (''is-active'' # args) w1 = Defined (0, w1\<lparr> ct_out := ct_out w @ map (\<lambda>arg. active_word True) args \<rparr>) \<and>
    ctl_main H None (''stop'' # args) w1 = Defined (0, w2) \<and>
    running (ct_state w2) = (\<lambda>p. running (ct_state w) p \<and> p \<notin> script '''' ` set args) \<and>
    ctl_main H None (''is-active'' # args) w2 = Defined (3, w2\<lparr> ct_out := ct_out w @ map (\<lambda>arg. active_word False) args \<rparr>)"
proof -
  note run = ctl_start_stop_run [OF assms]
  note active = ctl_is_active_run [OF assms]
  let ?P = "script '''' ` set args"
  obtain s1 where s1: "ctl_main H None (''start'' # args) w = Defined (0, w\<lparr> ct_state := s1 \<rparr>)"
      "running s1 = (\<lambda>p. if p \<in> ?P then becomes Start (running (ct_state w) p) else running (ct_state w) p)"
    using run [of Start w] by auto
  define w1 where "w1 = w\<lparr> ct_state := s1 \<rparr>"
  have r1: "running (ct_state w1) = (\<lambda>p. running (ct_state w) p \<or> p \<in> ?P)" unfolding w1_def using s1(2) by (auto simp: becomes_def)
  obtain s where s: "ctl_main H None (''start'' # args) w1 = Defined (0, w1\<lparr> ct_state := s \<rparr>)"
      "(\<forall>p \<in> ?P. becomes Start (running (ct_state w1) p) = running (ct_state w1) p) \<longrightarrow> s = ct_state w1"
    using run [of Start w1] by auto
  have again: "ctl_main H None (''start'' # args) w1 = Defined (0, w1)" using s r1 by (simp add: becomes_def)
  obtain s2 where s2: "ctl_main H None (''stop'' # args) w1 = Defined (0, w1\<lparr> ct_state := s2 \<rparr>)"
      "running s2 = (\<lambda>p. if p \<in> ?P then becomes Stop (running (ct_state w1) p) else running (ct_state w1) p)"
    using run [of Stop w1] by auto
  define w2 where "w2 = w1\<lparr> ct_state := s2 \<rparr>"
  have r2: "running (ct_state w2) = (\<lambda>p. running (ct_state w) p \<and> p \<notin> ?P)"
    unfolding w2_def using s2(2) r1 by (auto simp: becomes_def)
  have out: "ct_out w1 = ct_out w" "ct_out w2 = ct_out w" by (simp_all add: w1_def w2_def)
  have on: "ctl_main H None (''is-active'' # args) w1 = Defined (0, w1\<lparr> ct_out := ct_out w @ map (\<lambda>arg. active_word True) args \<rparr>)"
    unfolding active r1 out using assms(3) by (cases args) auto
  have off: "ctl_main H None (''is-active'' # args) w2 = Defined (3, w2\<lparr> ct_out := ct_out w @ map (\<lambda>arg. active_word False) args \<rparr>)"
    unfolding active r2 out by simp
  show ?thesis using s1(1) r1 again on s2(1) r2 off unfolding w1_def [symmetric] w2_def [symmetric] by blast
qed

text \<open>Scripts that keep the set of the running services.\<close>

definition example_run :: "string \<Rightarrow> string \<Rightarrow> (string \<Rightarrow> bool) \<Rightarrow> script_end \<times> (string \<Rightarrow> bool)" where
  "example_run path command s =
     (if command = ''status'' then (Exited (if s path then 0 else 3), s)
      else if command = ''start'' \<or> command = ''restart'' then (Exited 0, s(path := True))
      else if command = ''stop'' then (Exited 0, s(path := False))
      else (Exited 2, s))"

definition example_host :: "(string \<Rightarrow> bool) host" where
  "example_host = \<lparr> h_root = '''', h_stat = \<lambda>path. Inr (1, length path), h_run = example_run, h_calls = \<lambda>rl. example_calls \<rparr>"

lemma systemctl_start_stop_witness:
  "lsb example_host (\<lambda>s. s) \<and> list_all operand [''sshd'', ''cron.service''] \<and>
   list_all (installed (example_host\<lparr> h_root := '''' \<rparr>)) [''sshd'', ''cron.service''] \<and>
   (\<exists>w1. ctl_main example_host None [''start'', ''sshd'', ''cron.service'']
        \<lparr> ct_state = (\<lambda>p. p = ''/etc/init.d/sshd''), ct_rc = \<lambda>rl. [], ct_out = [] \<rparr> = Defined (0, w1) \<and>
      ct_state w1 = (\<lambda>p. p = ''/etc/init.d/sshd'' \<or> p = ''/etc/init.d/cron''))"
proof -
  let ?w = "\<lparr> ct_state = (\<lambda>p. p = ''/etc/init.d/sshd''), ct_rc = \<lambda>rl. [], ct_out = [] \<rparr>"
  have lsb: "lsb example_host (\<lambda>s. s)" by (simp add: lsb_def example_host_def example_run_def)
  have args: "list_all operand [''sshd'', ''cron.service'']" by (simp add: operand_def)
  have found: "\<forall>arg \<in> set [''sshd'', ''cron.service'']. installed (example_host\<lparr> h_root := '''' \<rparr>) arg"
    by (simp add: installed_def example_host_def deservicify_def ends_with_def DOT_SERVICE_def)
  have "script '''' ''sshd'' = ''/etc/init.d/sshd''" "script '''' ''cron.service'' = ''/etc/init.d/cron''" by code_simp+
  then show ?thesis using lsb args found systemctl_start_stop [OF lsb args _ found, of ?w] by auto
qed

end
