(* ===== verification/Fork.thy ===== *)
theory Fork
  imports Service
begin

text \<open>
  \<^verbatim>\<open>src/common/fork.c\<close>: running a function in a child process or in a daemon, with descriptors 0 to 3 set up for it,
  and the reports through which the parent learns what has become of it. The descriptors of a process are a table
  from numbers to open files with their close-on-exec flags.
\<close>

section \<open>Descriptors\<close>

type_synonym 'o fds = "nat \<rightharpoonup> 'o \<times> bool"

definition dup2 :: "nat \<Rightarrow> nat \<Rightarrow> 'o fds \<Rightarrow> 'o fds" where
  "dup2 old new t = (if old = new then t else case t old of None \<Rightarrow> t | Some (f, cloexec) \<Rightarrow> t(new \<mapsto> (f, False)))"

text \<open>\<^verbatim>\<open>dup3\<close> with \<^verbatim>\<open>O_CLOEXEC\<close>, which fails if the descriptors are equal.\<close>

definition dup3_cloexec :: "nat \<Rightarrow> nat \<Rightarrow> 'o fds \<Rightarrow> 'o fds" where
  "dup3_cloexec old new t = (if old = new then t else case t old of None \<Rightarrow> t | Some (f, cloexec) \<Rightarrow> t(new \<mapsto> (f, True)))"

definition close_fd :: "nat \<Rightarrow> 'o fds \<Rightarrow> 'o fds" where
  "close_fd fd t = t(fd := None)"

definition REPORT_FILENO :: nat where "REPORT_FILENO = 3"

record fork_io =
  io_in :: nat
  io_out :: nat
  io_err :: nat

definition move_fd :: "nat \<Rightarrow> nat \<Rightarrow> 'o fds \<Rightarrow> 'o fds" where
  "move_fd child fileno t = (if child \<noteq> fileno then close_fd child (dup2 child fileno t) else t)"

text \<open>\<^verbatim>\<open>df_fd_setup\<close>: the new number of the reporting descriptor and the table.\<close>

definition df_fd_setup :: "nat option \<Rightarrow> fork_io option \<Rightarrow> 'o fds \<Rightarrow> nat option \<times> 'o fds" where
  "df_fd_setup report io t =
     (let t1 = (case io of None \<Rightarrow> t | Some i \<Rightarrow> move_fd (io_err i) 2 (move_fd (io_out i) 1 (move_fd (io_in i) 0 t)))
      in case report of
           None \<Rightarrow> (None, t1)
         | Some r \<Rightarrow>
             if r \<noteq> REPORT_FILENO then (Some REPORT_FILENO, close_fd r (dup3_cloexec r REPORT_FILENO t1))
             else (Some r, t1))"

text \<open>\<^verbatim>\<open>report_ready\<close>.\<close>

definition report_ready :: "'o fds \<Rightarrow> 'o fds" where
  "report_ready t = dup3_cloexec 2 REPORT_FILENO t"

section \<open>The child\<close>

text \<open>
  What the caller's function does: whether it calls \<^verbatim>\<open>report_ready\<close>, and the value that it returns, \<open>None\<close> if it does
  not return because another program is executed or it runs on.
\<close>

record behaviour =
  b_ready :: bool
  b_return :: "int option"

text \<open>The reports of \<^verbatim>\<open>df_child\<close> and its exit status; \<open>written\<close> says whether the first report can be written.\<close>

definition df_child :: "bool \<Rightarrow> int \<Rightarrow> behaviour \<Rightarrow> int list \<times> int option" where
  "df_child written pid b =
     (if \<not> written then ([], Some EXIT_FAILURE)
      else case b_return b of
        None \<Rightarrow> ([pid], None)
      | Some res \<Rightarrow>
          (pid # (if res \<noteq> 0 \<and> \<not> b_ready b then [res] else []),
           Some (if 0 \<le> res \<and> res \<le> 255 then res else EXIT_FAILURE)))"

definition EXIT_CHDIR :: int where "EXIT_CHDIR = 200"
definition EXIT_STDIN :: int where "EXIT_STDIN = 208"
definition EXIT_STDOUT :: int where "EXIT_STDOUT = 209"
definition EXIT_SETSID :: int where "EXIT_SETSID = 220"
definition EXIT_STDERR :: int where "EXIT_STDERR = 222"

text \<open>The calls of the intermediate process, the first three only made if there are no pipes.\<close>

record inter_calls =
  ic_stdin :: bool
  ic_stdout :: bool
  ic_stderr :: bool
  ic_chdir :: bool
  ic_setsid :: bool
  ic_fork :: bool

text \<open>\<^verbatim>\<open>df_inter\<close>: its exit status, and whether there is a child.\<close>

definition df_inter :: "inter_calls \<Rightarrow> bool \<Rightarrow> int \<times> bool" where
  "df_inter k pipes =
     (if \<not> pipes \<and> \<not> ic_stdin k then (EXIT_STDIN, False)
      else if \<not> pipes \<and> \<not> ic_stdout k then (EXIT_STDOUT, False)
      else if \<not> pipes \<and> \<not> ic_stderr k then (EXIT_STDERR, False)
      else if \<not> ic_chdir k then (EXIT_CHDIR, False)
      else if \<not> ic_setsid k then (EXIT_SETSID, False)
      else if \<not> ic_fork k then (EXIT_FAILURE, False)
      else (EXIT_SUCCESS, True))"

section \<open>The parent\<close>

text \<open>
  The calls of the parent: whether there is a pipe and a child, and what the two reads return besides the reports,
  \<open>Some e\<close> for a failure; and what the attempts to collect the child return.
\<close>

record parent_calls =
  pc_pipe :: bool
  pc_fork :: bool
  pc_read1 :: "errno option"
  pc_read2 :: "errno option"
  pc_wait :: "nat \<Rightarrow> bool"

text \<open>The loop that tries to collect the child: the milliseconds that it sleeps.\<close>

fun collect_delay :: "(nat \<Rightarrow> bool) \<Rightarrow> nat list \<Rightarrow> nat" where
  "collect_delay wait [] = 0"
| "collect_delay wait (i # js) = 2 ^ i + (if wait i then 0 else collect_delay wait js)"

text \<open>What \<^verbatim>\<open>df_parent\<close> makes of the reports: its result and how long it has slept.\<close>

definition parent_result :: "parent_calls \<Rightarrow> int list \<Rightarrow> int \<times> nat" where
  "parent_result k reports =
     (if pc_read1 k \<noteq> None then (- EXIT_FAILURE, 0)
      else case reports of
        [] \<Rightarrow> (- EXIT_FAILURE, 0)
      | pid # rest \<Rightarrow>
          if pc_read2 k \<noteq> None then (- EXIT_FAILURE, 0)
          else case rest of
            [] \<Rightarrow> (pid, 0)
          | ex # _ \<Rightarrow>
              if ex = 0 then (pid, 0)
              else (if ex > 0 then - ex else ex, collect_delay (pc_wait k) [0..<10]))"

definition df_parent :: "parent_calls \<Rightarrow> inter_calls \<Rightarrow> bool \<Rightarrow> bool \<Rightarrow> int \<Rightarrow> behaviour \<Rightarrow> bool \<Rightarrow> int \<times> nat" where
  "df_parent k ik pipes written pid b daemonize =
     (if \<not> pc_pipe k \<or> \<not> pc_fork k then (- EXIT_FAILURE, 0)
      else parent_result k
        (if daemonize \<and> \<not> snd (df_inter ik pipes) then [] else fst (df_child written pid b)))"

definition daemonize_function :: "parent_calls \<Rightarrow> inter_calls \<Rightarrow> bool \<Rightarrow> bool \<Rightarrow> int \<Rightarrow> behaviour \<Rightarrow> int \<times> nat" where
  "daemonize_function k ik pipes written pid b = df_parent k ik pipes written pid b True"

definition fork_function :: "parent_calls \<Rightarrow> inter_calls \<Rightarrow> bool \<Rightarrow> bool \<Rightarrow> int \<Rightarrow> behaviour \<Rightarrow> int \<times> nat" where
  "fork_function k ik pipes written pid b = df_parent k ik pipes written pid b False"

section \<open>Properties\<close>

lemma move_fd_open:
  assumes "t child = Some (f, c)"
  obtains c' where "move_fd child fileno t = t(child := None, fileno \<mapsto> (f, c'))"
proof (cases "child = fileno")
  case True
  then show ?thesis using assms by (intro that [of c]) (simp add: move_fd_def fun_upd_idem)
next
  case False
  then show ?thesis using assms by (intro that [of False]) (simp add: move_fd_def dup2_def close_fd_def fun_upd_twist)
qed

text \<open>
  C18. If the descriptors that the parent has prepared are open and different, the output's is not 0, that of the errors
  is not 0 or 1 and the reporting one is not 0, 1 or 2, then the child's standard input, output and error and
  descriptor 3 are afterwards exactly the prepared files, however the numbers overlap; the prepared numbers are
  closed apart from those four; no other descriptor changes; and descriptor 3 is closed by a successful \<^verbatim>\<open>execve\<close>
  if it had another number or was marked so from the start.
\<close>

theorem df_fd_setup_files:
  assumes "io = \<lparr> io_in = i, io_out = j, io_err = k \<rparr>"
    and "t i = Some (fi, ci)" and "t j = Some (fj, cj)" and "t k = Some (fk, ck)" and "t r = Some (fr, cr)"
    and "distinct [i, j, k, r]" and "j \<noteq> 0" and "k \<notin> {0, 1}" and "r \<notin> {0, 1, 2}"
  shows "\<exists>u. df_fd_setup (Some r) (Some io) t = (Some REPORT_FILENO, u) \<and>
    map_option fst (u 0) = Some fi \<and> map_option fst (u 1) = Some fj \<and> map_option fst (u 2) = Some fk \<and>
    u REPORT_FILENO = Some (fr, r \<noteq> REPORT_FILENO \<or> cr) \<and>
    (\<forall>fd > 3. u fd = (if fd \<in> {i, j, k, r} then None else t fd))"
proof -
  obtain c0 where t1: "move_fd i 0 t = t(i := None, 0 \<mapsto> (fi, c0))" using move_fd_open [of t i fi ci 0] assms(2) by blast
  define t1' where "t1' = t(i := None, 0 \<mapsto> (fi, c0))"
  have "t1' j = Some (fj, cj)" using assms(3,6,7) by (auto simp: t1'_def)
  then obtain c1 where t2: "move_fd j 1 t1' = t1'(j := None, 1 \<mapsto> (fj, c1))" using move_fd_open [of t1' j fj cj 1] by blast
  define t2' where "t2' = t1'(j := None, 1 \<mapsto> (fj, c1))"
  have "t2' k = Some (fk, ck)" using assms(4,6,8) by (auto simp: t2'_def t1'_def)
  then obtain c2 where t3: "move_fd k 2 t2' = t2'(k := None, 2 \<mapsto> (fk, c2))" using move_fd_open [of t2' k fk ck 2] by blast
  define u where "u = t(i := None, 0 \<mapsto> (fi, c0), j := None, 1 \<mapsto> (fj, c1), k := None, 2 \<mapsto> (fk, c2))"
  have u: "move_fd k 2 (move_fd j 1 (move_fd i 0 t)) = u" unfolding t1 t1'_def [symmetric] t2 t2'_def [symmetric] t3 by (simp only: u_def t2'_def t1'_def)
  have r: "u r = Some (fr, cr)" using assms(5,6,9) by (auto simp: u_def)
  define v where "v = u(r := None, REPORT_FILENO \<mapsto> (fr, r \<noteq> REPORT_FILENO \<or> cr))"
  have "df_fd_setup (Some r) (Some io) t = (Some REPORT_FILENO, v)"
  proof (cases "r = REPORT_FILENO")
    case True
    then have "v = u" using r by (simp add: v_def fun_upd_idem)
    then show ?thesis using True u assms(1) by (simp add: df_fd_setup_def)
  next
    case False
    then show ?thesis using r u assms(1) by (simp add: df_fd_setup_def dup3_cloexec_def close_fd_def v_def fun_upd_twist)
  qed
  moreover have "map_option fst (v 0) = Some fi" "map_option fst (v 1) = Some fj" "map_option fst (v 2) = Some fk"
  proof -
    have ne: "0 \<noteq> j" "0 \<noteq> k" "1 \<noteq> k" "0 \<noteq> r" "1 \<noteq> r" "2 \<noteq> r" "(0 :: nat) \<noteq> 1" "(0 :: nat) \<noteq> 2" "(1 :: nat) \<noteq> 2"
        "(0 :: nat) \<noteq> 3" "(1 :: nat) \<noteq> 3" "(2 :: nat) \<noteq> 3"
      using assms(7-9) by auto
    note upd = v_def u_def REPORT_FILENO_def fun_upd_apply ne if_True if_False refl option.map prod.sel
    show "map_option fst (v 0) = Some fi" "map_option fst (v 1) = Some fj" "map_option fst (v 2) = Some fk"
      by (simp_all only: upd)
  qed
  moreover have "v REPORT_FILENO = Some (fr, r \<noteq> REPORT_FILENO \<or> cr)" by (simp add: v_def)
  moreover have "v fd = (if fd \<in> {i, j, k, r} then None else t fd)" if "fd > 3" for fd
    using that unfolding v_def u_def REPORT_FILENO_def by simp
  ultimately show ?thesis by blast
qed

lemma df_fd_setup_files_witness:
  "\<exists>u. df_fd_setup (Some 3) (Some \<lparr> io_in = 5, io_out = 1, io_err = 4 \<rparr>)
       [0 \<mapsto> (''tty'', False), 1 \<mapsto> (''out'', True), 3 \<mapsto> (''report'', True), 4 \<mapsto> (''err'', True), 5 \<mapsto> (''in'', True)] =
     (Some REPORT_FILENO, u) \<and> map_option fst (u 0) = Some ''in'' \<and> u REPORT_FILENO = Some (''report'', True)"
  using df_fd_setup_files [of "\<lparr> io_in = 5, io_out = 1, io_err = 4 \<rparr>" 5 1 4
      "[0 \<mapsto> (''tty'', False), 1 \<mapsto> (''out'', True), 3 \<mapsto> (''report'', True), 4 \<mapsto> (''err'', True), 5 \<mapsto> (''in'', True)]"
      "''in''" True "''out''" True "''err''" True 3 "''report''" True]
  by (simp add: REPORT_FILENO_def) blast

lemma collect_delay_bound: "collect_delay wait js \<le> sum_list (map (\<lambda>i. 2 ^ i) js)"
  by (induction js) auto

definition started :: "parent_calls \<Rightarrow> inter_calls \<Rightarrow> bool \<Rightarrow> bool \<Rightarrow> bool \<Rightarrow> bool" where
  "started k ik pipes written daemonize \<longleftrightarrow>
     pc_pipe k \<and> pc_fork k \<and> pc_read1 k = None \<and> pc_read2 k = None \<and> written \<and> (daemonize \<longrightarrow> snd (df_inter ik pipes))"

lemma df_parent_eq:
  "df_parent k ik pipes written pid b daemonize =
     (if started k ik pipes written daemonize then
        (case b_return b of
           None \<Rightarrow> (pid, 0)
         | Some res \<Rightarrow> if res = 0 \<or> b_ready b then (pid, 0) else (- \<bar>res\<bar>, collect_delay (pc_wait k) [0..<10]))
      else (- EXIT_FAILURE, 0))"
  by (auto simp: df_parent_def parent_result_def df_child_def started_def split: option.split)


definition example_parent :: parent_calls where
  "example_parent = \<lparr> pc_pipe = True, pc_fork = True, pc_read1 = None, pc_read2 = None, pc_wait = \<lambda>i. i = 3 \<rparr>"

definition example_inter :: inter_calls where
  "example_inter =
     \<lparr> ic_stdin = True, ic_stdout = True, ic_stderr = True, ic_chdir = True, ic_setsid = True, ic_fork = True \<rparr>"


end
