(* ===== verification/Command.thy ===== *)
theory Command
  imports Environment Service Fork
begin

unbundle bit_operations_syntax

text \<open>
  \<^verbatim>\<open>src/sysvrun/command.c\<close>: the commands that a unit file names. A command is made from the values of the unit, with
  its environment and the paths that a child process resolves for it; it is executed with its root directory,
  working directory, credentials and permission mask; and the process that its PID file names can be signalled. The
  results of the system calls and the user and group databases are arguments.
\<close>

section \<open>Commands\<close>

type_synonym flags = "32 word"

definition EF_AT :: flags where "EF_AT = 0x0001"
definition EF_DASH :: flags where "EF_DASH = 0x0002"
definition EF_COLON :: flags where "EF_COLON = 0x0004"
definition EF_PLUS :: flags where "EF_PLUS = 0x0008"
definition EF_BANG :: flags where "EF_BANG = 0x0010"

lemmas execflags = EF_AT_def EF_DASH_def EF_COLON_def EF_PLUS_def EF_BANG_def

definition prefix2flag :: "char \<Rightarrow> flags" where
  "prefix2flag c =
     (if c = CHR ''@'' then EF_AT
      else if c = CHR ''-'' then EF_DASH
      else if c = CHR '':'' then EF_COLON
      else if c = CHR ''+'' then EF_PLUS
      else if c = CHR ''!'' then EF_BANG
      else 0)"

definition DEFAULT_UMASK :: int where "DEFAULT_UMASK = 18"

record 'h command =
  cmd_path :: string
  cmd_rootdir :: "string option"
  cmd_workdir :: "string option"
  cmd_pidfile :: "string option"
  cmd_args :: "string list"
  cmd_env :: 'h
  cmd_flags :: flags
  cmd_uid :: nat
  cmd_gid :: nat
  cmd_umask :: int

section \<open>Resolving paths\<close>

definition PATH_MAX :: nat where "PATH_MAX = 4096"
definition PATH_STDPATH :: string where "PATH_STDPATH = ''/usr/bin:/bin:/usr/sbin:/sbin''"

definition slash :: char where "slash = CHR ''/''"

text \<open>\<^verbatim>\<open>getenv\<close> in the environment that a list of strings makes.\<close>

fun getenv_in :: "string list \<Rightarrow> string \<Rightarrow> string option" where
  "getenv_in [] name = None"
| "getenv_in (s # ss) name =
     (if prefix (name @ ''='') s then Some (drop (length name + 1) s) else getenv_in ss name)"

text \<open>The calls of the child; \<open>rs_name\<close> is the result of resolving the name and what is then in the buffer.\<close>

record resolve_calls =
  rs_rootdir :: "string \<Rightarrow> errno + string"
  rs_chroot :: "string \<Rightarrow> errno option"
  rs_workdir :: "string \<Rightarrow> errno + string"
  rs_chdir :: "string \<Rightarrow> errno option"
  rs_name :: "string \<Rightarrow> errno option \<times> string"
  rs_access :: "string \<Rightarrow> bool"
  rs_write :: "errno option"

text \<open>The loop over \<^verbatim>\<open>PATH\<close>, from \<open>p\<close> on.\<close>

definition path_candidate :: "string \<Rightarrow> string \<Rightarrow> string option" where
  "path_candidate dir name =
     (if dir = [] \<or> hd dir \<noteq> slash \<or> length (dir @ [slash] @ name) \<ge> PATH_MAX then None else Some (dir @ [slash] @ name))"

function path_search :: "(string \<Rightarrow> bool) \<Rightarrow> string \<Rightarrow> string \<Rightarrow> string option" where
  "path_search access name p =
     (let dir = takeWhile (\<lambda>c. c \<noteq> CHR '':'') p;
          q = dropWhile (\<lambda>c. c \<noteq> CHR '':'') p;
          more_dirs = (if q = [] then None else path_search access name (tl q))
      in case path_candidate dir name of
           None \<Rightarrow> more_dirs
         | Some path \<Rightarrow> if access path then Some path else more_dirs)"
  by pat_completeness auto

termination
proof (relation "measure (\<lambda>(access, name, p). length p)")
  fix p :: string and d q and access :: "string \<Rightarrow> bool" and name :: string
  assume "q = dropWhile (\<lambda>c. c \<noteq> CHR '':'') p" "q \<noteq> []"
  then have "0 < length q" "length q \<le> length p" using length_dropWhile_le [of "\<lambda>c. c \<noteq> CHR '':''" p] by auto
  then show "((access, name, tl q), (access, name, p)) \<in> measure (\<lambda>(access, name, p). length p)" by (cases q) auto
qed simp

declare path_search.simps [simp del]

text \<open>The root directory, if it could be entered, and then the working directory.\<close>

definition enter_dirs :: "resolve_calls \<Rightarrow> string option \<Rightarrow> string option \<Rightarrow> errno + string" where
  "enter_dirs k rootdir workdir =
     (case (case rootdir of
              None \<Rightarrow> Inr ''''
            | Some dir \<Rightarrow>
                (case rs_rootdir k dir of
                   Inl e \<Rightarrow> Inl e
                 | Inr root \<Rightarrow> (case rs_chroot k root of Some e \<Rightarrow> Inl e | None \<Rightarrow> Inr root))) of
        Inl e \<Rightarrow> Inl e
      | Inr root \<Rightarrow>
          (case (case workdir of None \<Rightarrow> Inr ''/'' | Some dir \<Rightarrow> rs_workdir k dir) of
             Inl e \<Rightarrow> Inl e
           | Inr dir \<Rightarrow> (case rs_chdir k dir of Some e \<Rightarrow> Inl e | None \<Rightarrow> Inr root)))"

definition command_resolve_path_child ::
  "(string, pair, 'h) hash_ops \<Rightarrow> resolve_calls \<Rightarrow> string option \<Rightarrow> string option \<Rightarrow> 'h \<Rightarrow> string \<Rightarrow> bool \<Rightarrow> errno + string" where
  "command_resolve_path_child H k rootdir workdir env name search =
     (case enter_dirs k rootdir workdir of
        Inl e \<Rightarrow> Inl e
      | Inr root \<Rightarrow>
          (case
             (if \<not> search \<or> slash \<in> set name then
                (case rs_name k name of
                   (None, path) \<Rightarrow> Inr path
                 | (Some e, path) \<Rightarrow> if e \<noteq> ENOENT then Inl e else Inr path)
              else
                (case path_search (rs_access k) name
                        (case getenv_in (environment_list H env) ''PATH'' of None \<Rightarrow> PATH_STDPATH | Some p \<Rightarrow> p) of
                   None \<Rightarrow> Inl ENOENT
                 | Some path \<Rightarrow> Inr path)) of
             Inl e \<Rightarrow> Inl e
           | Inr path \<Rightarrow> (case rs_write k of Some e \<Rightarrow> Inl e | None \<Rightarrow> Inr (root @ path))))"

text \<open>The parent: what goes wrong there, if anything, including a child that is killed by a signal.\<close>

definition command_resolve_path ::
  "(string, pair, 'h) hash_ops \<Rightarrow> errno option \<Rightarrow> resolve_calls \<Rightarrow> string option \<Rightarrow> string option \<Rightarrow> 'h \<Rightarrow> string \<Rightarrow> bool \<Rightarrow>
   errno + string" where
  "command_resolve_path H parent k rootdir workdir env name search =
     (case parent of Some e \<Rightarrow> Inl e | None \<Rightarrow> command_resolve_path_child H k rootdir workdir env name search)"

section \<open>Making a command\<close>

record passwd =
  pw_name :: string
  pw_uid :: nat
  pw_dir :: string
  pw_shell :: string

text \<open>
  The global variables of \<^verbatim>\<open>sysvrun.c\<close> and the surroundings: \<open>sv_resolve\<close> has the calls of the resolving parent and
  child for the two paths that are resolved.
\<close>

record 'h surroundings =
  sv_Denv :: 'h
  sv_Ulist :: "string list"
  sv_self_dir :: string
  sv_root :: string
  sv_getenv :: "string \<Rightarrow> string option"
  sv_getpwnam :: "string \<Rightarrow> passwd option"
  sv_getgrnam :: "string \<Rightarrow> nat option"
  sv_pidfile_calls :: "errno option \<times> resolve_calls"
  sv_binary_calls :: "errno option \<times> resolve_calls"

text \<open>The loop over \<^verbatim>\<open>PassEnvironment\<close>.\<close>

fun pass_loop :: "(string, pair, 'h) hash_ops \<Rightarrow> (string \<Rightarrow> string option) \<Rightarrow> string list \<Rightarrow> 'h \<Rightarrow> 'h outcome" where
  "pass_loop H getenv [] env = Defined env"
| "pass_loop H getenv (key # keys) env =
     (case getenv key of
        None \<Rightarrow> pass_loop H getenv keys env
      | Some val \<Rightarrow> obind (environment_set H env key val True) (\<lambda>(r, env'). pass_loop H getenv keys env'))"

definition words_of :: "string option \<Rightarrow> string list" where
  "words_of v = (case v of None \<Rightarrow> [] | Some s \<Rightarrow> systemd_split_quoted s)"

definition prepend_self ::
  "(string, pair, 'h) hash_ops \<Rightarrow> (string, string, 'd) hash_ops \<Rightarrow> string \<Rightarrow> 'h \<Rightarrow> 'h outcome" where
  "prepend_self H Hd self_dir env =
     (case environment_get H env ''PATH'' of
        None \<Rightarrow> Defined env
      | Some path \<Rightarrow>
          obind (environment_set H env ''PATH''
            (strlist_to_delim Hd (self_dir # strlist_from_delim Hd path (CHR '':'') False False) (CHR '':'') True) True)
          (\<lambda>(r, env'). Defined env'))"

definition command_environment ::
  "(string, pair, 'h) hash_ops \<Rightarrow> (string, string, 'd) hash_ops \<Rightarrow> 'h surroundings \<Rightarrow> (string \<Rightarrow> string option) \<Rightarrow> 'h outcome" where
  "command_environment H Hd S val =
     obind (environment_clone H (sv_Denv S)) (\<lambda>env.
     obind (put_all H env (words_of (val ''Environment''))) (\<lambda>env.
     obind (pass_loop H (sv_getenv S) (words_of (val ''PassEnvironment'')) env) (\<lambda>env.
     prepend_self H Hd (sv_self_dir S)
       (environment_remove_keys H (environment_remove_keys H env (words_of (val ''UnsetEnvironment''))) (sv_Ulist S)))))"

text \<open>The prefix characters of the first argument: the flags and the rest.\<close>

fun strip_flags :: "flags \<Rightarrow> string \<Rightarrow> flags \<times> string" where
  "strip_flags fl [] = (fl, [])"
| "strip_flags fl (c # s) = (if prefix2flag c \<noteq> 0 then strip_flags (fl OR prefix2flag c) s else (fl, c # s))"

text \<open>The part for \<^verbatim>\<open>User\<close>: the user, the working directory and the environment.\<close>

definition set_user ::
  "(string, pair, 'h) hash_ops \<Rightarrow> 'h surroundings \<Rightarrow> string option \<Rightarrow> 'h command \<Rightarrow> (errno + 'h command) outcome" where
  "set_user H S user cmd =
     (case user of
        None \<Rightarrow> Defined (Inr cmd)
      | Some name \<Rightarrow>
          (case sv_getpwnam S name of
             None \<Rightarrow> Defined (Inl EINVAL)
           | Some pw \<Rightarrow>
               obind (environment_set H (cmd_env cmd) ''USER'' (pw_name pw) False) (\<lambda>(r, env).
               obind (environment_set H env ''LOGNAME'' (pw_name pw) False) (\<lambda>(r, env).
               obind (environment_set H env ''HOME'' (pw_dir pw) False) (\<lambda>(r, env).
               obind (environment_set H env ''SHELL'' (pw_shell pw) False) (\<lambda>(r, env).
               Defined (Inr (cmd\<lparr> cmd_uid := pw_uid pw,
                 cmd_workdir := (if cmd_workdir cmd = Some ''~'' then Some (pw_dir pw) else cmd_workdir cmd),
                 cmd_env := env \<rparr>))))))))"

definition set_group :: "'h surroundings \<Rightarrow> string option \<Rightarrow> 'h command \<Rightarrow> errno + 'h command" where
  "set_group S grp cmd =
     (case grp of
        None \<Rightarrow> Inr cmd
      | Some name \<Rightarrow> (case sv_getgrnam S name of None \<Rightarrow> Inl EINVAL | Some gid \<Rightarrow> Inr (cmd\<lparr> cmd_gid := gid \<rparr>)))"

definition parse_umask :: "string option \<Rightarrow> int option" where
  "parse_umask v =
     (case v of
        None \<Rightarrow> Some DEFAULT_UMASK
      | Some s \<Rightarrow>
          let (num, rest, e) = strtos64 8 s EOK
          in if rest = s \<or> rest \<noteq> [] \<or> e \<noteq> EOK \<or> num < 0 \<or> num > 511 then None else Some num)"

definition set_umask :: "'h surroundings \<Rightarrow> string option \<Rightarrow> 'h command \<Rightarrow> errno + 'h command" where
  "set_umask S v cmd =
     (case parse_umask v of
        None \<Rightarrow> Inl EINVAL
      | Some num \<Rightarrow>
          Inr (cmd\<lparr> cmd_umask := num,
            cmd_workdir := (if cmd_workdir cmd = None then Some (sv_root S @ ''/'') else cmd_workdir cmd) \<rparr>))"

text \<open>The PID file, which also becomes a variable.\<close>

definition set_pidfile ::
  "(string, pair, 'h) hash_ops \<Rightarrow> 'h surroundings \<Rightarrow> string option \<Rightarrow> 'h command \<Rightarrow> (errno + 'h command) outcome" where
  "set_pidfile H S v cmd =
     (case v of
        None \<Rightarrow> Defined (Inr cmd)
      | Some name \<Rightarrow>
          (case command_resolve_path H (fst (sv_pidfile_calls S)) (snd (sv_pidfile_calls S)) (cmd_rootdir cmd) (cmd_workdir cmd)
                  (cmd_env cmd) name False of
             Inl e \<Rightarrow> Defined (Inl EINVAL)
           | Inr path \<Rightarrow>
               obind (environment_set H (cmd_env cmd) ''PIDFILE'' path True) (\<lambda>(r, env).
               Defined (Inr (cmd\<lparr> cmd_pidfile := Some path, cmd_env := env \<rparr>)))))"

definition find_binary :: "(string, pair, 'h) hash_ops \<Rightarrow> 'h surroundings \<Rightarrow> 'h command \<Rightarrow> errno + 'h command" where
  "find_binary H S cmd =
     (let (fl, name) = strip_flags (cmd_flags cmd) (hd (cmd_args cmd))
      in case command_resolve_path H (fst (sv_binary_calls S)) (snd (sv_binary_calls S)) (cmd_rootdir cmd) (cmd_workdir cmd)
                (cmd_env cmd) name True of
           Inl e \<Rightarrow> Inl EINVAL
         | Inr path \<Rightarrow>
             let args = (if fl AND EF_AT \<noteq> 0 then tl (cmd_args cmd) else cmd_args cmd)
             in if args = [] then Inl EINVAL
                else Inr (cmd\<lparr> cmd_path := path, cmd_flags := fl, cmd_args := args \<rparr>))"

definition rbind :: "(errno + 'a) outcome \<Rightarrow> ('a \<Rightarrow> (errno + 'b) outcome) \<Rightarrow> (errno + 'b) outcome" where
  "rbind m f = obind m (\<lambda>r. case r of Inl e \<Rightarrow> Defined (Inl e) | Inr x \<Rightarrow> f x)"

text \<open>\<^verbatim>\<open>command_from_service\<close>; \<open>val\<close> has the values of the section \<^verbatim>\<open>Service\<close>.\<close>

definition command_from_values ::
  "(string, pair, 'h) hash_ops \<Rightarrow> (string, string, 'd) hash_ops \<Rightarrow> 'h surroundings \<Rightarrow> (string \<Rightarrow> string option) \<Rightarrow> string \<Rightarrow>
   (errno + 'h command) outcome" where
  "command_from_values H Hd S val cmdkey =
     (case val cmdkey of
        None \<Rightarrow> Defined (Inl ENOENT)
      | Some line \<Rightarrow>
          if systemd_split_quoted line = [] then Defined (Inl EINVAL)
          else
            obind (command_environment H Hd S val) (\<lambda>env.
            rbind (set_pidfile H S (val ''PIDFile'')
              \<lparr> cmd_path = '''', cmd_rootdir = map_option (\<lambda>dir. sv_root S @ dir) (val ''RootDirectory''),
                cmd_workdir = map_option (\<lambda>dir. sv_root S @ dir) (val ''WorkingDirectory''), cmd_pidfile = None,
                cmd_args = systemd_split_quoted line, cmd_env = env, cmd_flags = 0, cmd_uid = 0, cmd_gid = 0, cmd_umask = 0 \<rparr>)
            (\<lambda>cmd. rbind (Defined (find_binary H S cmd))
            (\<lambda>cmd. rbind (set_user H S (val ''User'') cmd)
            (\<lambda>cmd. rbind (Defined (set_group S (val ''Group'') cmd))
            (\<lambda>cmd. Defined (set_umask S (val ''UMask'') cmd)))))))"

definition command_from_service ::
  "('p, 's) section_ops \<Rightarrow> 'p pair_ops \<Rightarrow> (string, pair, 'h) hash_ops \<Rightarrow> (string, string, 'd) hash_ops \<Rightarrow> 'h surroundings \<Rightarrow>
   's service \<Rightarrow> string \<Rightarrow> (errno + 'h command) outcome" where
  "command_from_service Hs Hp H Hd S svc cmdkey =
     command_from_values H Hd S (unit_get_value Hs Hp (svc_unit svc) ''Service'') cmdkey"

section \<open>Executing a command\<close>

definition EXIT_EXEC :: int where "EXIT_EXEC = 203"
definition EXIT_CHROOT :: int where "EXIT_CHROOT = 210"
definition EXIT_GROUP :: int where "EXIT_GROUP = 216"
definition EXIT_USER :: int where "EXIT_USER = 217"

lemmas systemd_codes = EXIT_EXEC_def EXIT_CHROOT_def EXIT_GROUP_def EXIT_USER_def EXIT_CHDIR_def

datatype xcall =
    Chroot string | Chdir string | Setregid nat | Setgroups "nat list" | Setreuid nat | Umask int
  | Execve string "string list" "string list"

text \<open>The calls up to the first that fails, and the exit code of that one; \<^verbatim>\<open>umask\<close> cannot fail.\<close>

fun call_seq :: "(xcall \<Rightarrow> bool) \<Rightarrow> (xcall \<times> int) list \<Rightarrow> xcall list \<times> int option" where
  "call_seq ok [] = ([], None)"
| "call_seq ok ((c, code) # cs) =
     (if ok c \<or> (\<exists>m. c = Umask m) then let (done_calls, r) = call_seq ok cs in (c # done_calls, r) else ([c], Some code))"

text \<open>
  \<^verbatim>\<open>command_exec_func\<close>: the calls that it makes and its result, \<open>None\<close> if the program is executed, so that it does not
  return.
\<close>

definition command_exec_func ::
  "(string, pair, 'h) hash_ops \<Rightarrow> (xcall \<Rightarrow> bool) \<Rightarrow> 'h command \<Rightarrow> xcall list \<times> int option" where
  "command_exec_func H ok cmd =
     call_seq ok
       ((case cmd_rootdir cmd of None \<Rightarrow> [] | Some dir \<Rightarrow> [(Chroot dir, EXIT_CHROOT), (Chdir ''/'', EXIT_CHROOT)]) @
        (case cmd_workdir cmd of None \<Rightarrow> [] | Some dir \<Rightarrow> [(Chdir dir, EXIT_CHDIR)]) @
        (if cmd_gid cmd \<noteq> 0 \<and> cmd_flags cmd AND EF_PLUS = 0
         then [(Setregid (cmd_gid cmd), EXIT_GROUP), (Setgroups [cmd_gid cmd], EXIT_GROUP)] else []) @
        (if cmd_uid cmd \<noteq> 0 \<and> cmd_flags cmd AND EF_PLUS = 0 then [(Setreuid (cmd_uid cmd), EXIT_USER)] else []) @
        [(Umask (cmd_umask cmd), 0),
         (Execve (cmd_path cmd) (cmd_args cmd) (environment_list H (cmd_env cmd)), EXIT_EXEC)])"

section \<open>PID files\<close>

text \<open>
  \<^verbatim>\<open>command_getpid\<close>: the number and \<^verbatim>\<open>errno\<close>. The argument is the text that the file has, if it can be read, and
  otherwise the \<^verbatim>\<open>errno\<close> that the attempt leaves. The number is read from the start of the first word to the end
  of the buffer, which has a NUL behind the text.
\<close>

definition word_pid :: "string \<Rightarrow> text_range \<Rightarrow> int \<times> errno" where
  "word_pid buf txt =
     (let word = text_first_word buf txt;
          str = takeWhile (\<lambda>c. c \<noteq> NUL) (drop (txt_beg word) buf);
          (num, rest, e) = strtos64 10 str EINVAL
      in if num < 0 \<or> rest = str \<or> length str - length rest \<noteq> txt_end word - txt_beg word then (-1, EINVAL)
         else if e = ERANGE then (-1, e)
         else (num, e))"

definition command_getpid :: "errno + string \<times> text_range \<Rightarrow> 'h command \<Rightarrow> int \<times> errno" where
  "command_getpid file cmd =
     (if cmd_pidfile cmd = None then (-1, EINVAL)
      else case file of Inl e \<Rightarrow> (-1, e) | Inr (buf, txt) \<Rightarrow> word_pid buf txt)"

text \<open>The conversion of the \<^verbatim>\<open>long\<close> to the type of the result.\<close>

definition pid_of_long :: "int \<Rightarrow> int" where
  "pid_of_long n = c_int n"

definition command_rmpid :: "errno option \<Rightarrow> 'h command \<Rightarrow> errno option" where
  "command_rmpid unlink_result cmd =
     (if cmd_pidfile cmd = None then Some EINVAL
      else case unlink_result of None \<Rightarrow> None | Some e \<Rightarrow> if e \<noteq> ENOENT then Some e else None)"

text \<open>
  \<^verbatim>\<open>command_kill_impl\<close>: the error, if any, and the signals that are sent, to a process or to a group, whose number is
  then negative. \<open>kill\<close> is the result of sending the signal, \<open>getpgid\<close> the group of a process.
\<close>

record kill_calls =
  kc_file :: "errno + string \<times> text_range"
  kc_getpgid :: "int \<Rightarrow> errno + int"
  kc_kill :: "int \<Rightarrow> int \<Rightarrow> errno option"

definition send_signal :: "kill_calls \<Rightarrow> int \<Rightarrow> int \<Rightarrow> errno option \<times> (int \<times> int) list" where
  "send_signal k target signo =
     (case kc_kill k target signo of
        Some e \<Rightarrow> (Some e, [])
      | None \<Rightarrow> (None, (target, signo) # (if signo \<noteq> 0 \<and> signo \<noteq> SIGCONT then [(target, SIGCONT)] else [])))"

definition command_kill_impl :: "kill_calls \<Rightarrow> 'h command \<Rightarrow> int \<Rightarrow> bool \<Rightarrow> errno option \<times> (int \<times> int) list" where
  "command_kill_impl k cmd signo pg =
     (if cmd_pidfile cmd = None then (Some ENOENT, [])
      else
        let (num, e) = command_getpid (kc_file k) cmd;
            pid = pid_of_long num
        in if pid \<le> 0 then
             (if pid = 0 \<or> e = ENOENT then (Some ENOENT, [])
              else if e = EINVAL \<or> e = ERANGE then (Some EINVAL, [])
              else (Some e, []))
           else if pg then
             (case kc_getpgid k pid of
                Inl err \<Rightarrow> (Some err, [])
              | Inr pgid \<Rightarrow> if pgid \<le> 0 then (Some e, []) else send_signal k (- pgid) signo)
           else send_signal k pid signo)"

definition command_kill :: "kill_calls \<Rightarrow> 'h command \<Rightarrow> int \<Rightarrow> errno option \<times> (int \<times> int) list" where
  "command_kill k cmd signo = command_kill_impl k cmd signo False"

definition command_killpg :: "kill_calls \<Rightarrow> 'h command \<Rightarrow> int \<Rightarrow> errno option \<times> (int \<times> int) list" where
  "command_killpg k cmd signo = command_kill_impl k cmd signo True"

section \<open>Running a command\<close>

text \<open>
  The function that is run in the child is \<^verbatim>\<open>command_exec_func\<close>; \<open>wait\<close> is the status that \<^verbatim>\<open>waitpid\<close> returns.
\<close>

definition exec_behaviour :: "(string, pair, 'h) hash_ops \<Rightarrow> (xcall \<Rightarrow> bool) \<Rightarrow> 'h command \<Rightarrow> behaviour" where
  "exec_behaviour H ok cmd = \<lparr> b_ready = False, b_return = snd (command_exec_func H ok cmd) \<rparr>"

record run_calls =
  rn_parent :: parent_calls
  rn_inter :: inter_calls
  rn_written :: bool
  rn_pid :: int
  rn_ok :: "xcall \<Rightarrow> bool"
  rn_wait :: "int option"

definition command_daemonize :: "(string, pair, 'h) hash_ops \<Rightarrow> run_calls \<Rightarrow> 'h command \<Rightarrow> int" where
  "command_daemonize H k cmd =
     fst (daemonize_function (rn_parent k) (rn_inter k) False (rn_written k) (rn_pid k) (exec_behaviour H (rn_ok k) cmd))"

definition command_fork :: "(string, pair, 'h) hash_ops \<Rightarrow> run_calls \<Rightarrow> 'h command \<Rightarrow> int" where
  "command_fork H k cmd =
     fst (fork_function (rn_parent k) (rn_inter k) False (rn_written k) (rn_pid k) (exec_behaviour H (rn_ok k) cmd))"

definition command_run :: "(string, pair, 'h) hash_ops \<Rightarrow> run_calls \<Rightarrow> 'h command \<Rightarrow> int" where
  "command_run H k cmd =
     (let pid = command_fork H k cmd
      in if pid < 0 then pid
         else case rn_wait k of None \<Rightarrow> - EXIT_FAILURE | Some wstatus \<Rightarrow> wstatus)"

section \<open>Printing a command\<close>

text \<open>
  The result of printing the environment is ignored: if an append fails there, what has been appended stays.
\<close>

fun append_while_room :: "byte_array \<Rightarrow> string list \<Rightarrow> byte_array" where
  "append_while_room ba [] = ba"
| "append_while_room ba (s # ss) =
     (case byte_array_append ba s of None \<Rightarrow> ba | Some ba' \<Rightarrow> append_while_room ba' ss)"

definition command_to_byte_array ::
  "(string, pair, 'h) hash_ops \<Rightarrow> 'h command \<Rightarrow> byte_array option \<Rightarrow> byte_array option" where
  "command_to_byte_array H cmd ba =
     byte_array_appends
       (append_while_room (case ba of None \<Rightarrow> make_byte_array SIZE_MAX | Some b \<Rightarrow> b)
          (map (\<lambda>(k, p). pair_key p @ ''='' @ pair_value p @ [NL]) (ht_elems H (cmd_env cmd))))
       ((''exec '' @ cmd_path cmd) # map (\<lambda>arg. '' '' @ arg) (tl (cmd_args cmd)))"

definition command_to_string :: "(string, pair, 'h) hash_ops \<Rightarrow> 'h command \<Rightarrow> string option" where
  "command_to_string H cmd = map_option ba_data (command_to_byte_array H cmd (Some (make_byte_array SIZE_MAX)))"

section \<open>The environment of a command\<close>

text \<open>The variables that a command should have, as a map.\<close>

definition assignment :: "string \<Rightarrow> string \<times> string" where
  "assignment s =
     (takeWhile (\<lambda>c. c \<noteq> CHR ''='') s, case dropWhile (\<lambda>c. c \<noteq> CHR ''='') s of [] \<Rightarrow> [] | _ # val \<Rightarrow> val)"

fun assign_words :: "string list \<Rightarrow> (string \<rightharpoonup> string) \<Rightarrow> (string \<rightharpoonup> string)" where
  "assign_words [] m = m"
| "assign_words (s # ss) m = assign_words ss (m(fst (assignment s) \<mapsto> snd (assignment s)))"

fun pass_words :: "(string \<Rightarrow> string option) \<Rightarrow> string list \<Rightarrow> (string \<rightharpoonup> string) \<Rightarrow> (string \<rightharpoonup> string)" where
  "pass_words getenv [] m = m"
| "pass_words getenv (key # keys) m = pass_words getenv keys (case getenv key of None \<Rightarrow> m | Some val \<Rightarrow> m(key \<mapsto> val))"

definition self_path :: "string \<Rightarrow> string \<Rightarrow> string" where
  "self_path self_dir path = join_delim (CHR '':'') (firsts {} (self_dir # filter (\<lambda>d. d \<noteq> []) (splits (CHR '':'') [] path)))"

definition command_variables :: "(string \<rightharpoonup> string) \<Rightarrow> 'h surroundings \<Rightarrow> (string \<Rightarrow> string option) \<Rightarrow> (string \<rightharpoonup> string)" where
  "command_variables base S val =
     (let m = pass_words (sv_getenv S) (words_of (val ''PassEnvironment'')) (assign_words (words_of (val ''Environment'')) base);
          m1 = m |` (- (set (words_of (val ''UnsetEnvironment'')) \<union> set (sv_Ulist S)))
      in case m1 ''PATH'' of None \<Rightarrow> m1 | Some p \<Rightarrow> m1(''PATH'' \<mapsto> self_path (sv_self_dir S) p))"

locale command_tables = env_table H + dedup: word_table Hd
  for H :: "(string, pair, 'h) hash_ops" and Hd :: "(string, string, 'd) hash_ops"
begin

lemma put_overwrite:
  assumes "env_wf H env"
  shows "\<exists>r env'. environment_put H env s True = Defined (r, env') \<and> env_wf H env' \<and>
    environment_get H env' = (environment_get H env)(fst (assignment s) \<mapsto> snd (assignment s))"
proof -
  let ?n = "takeWhile (\<lambda>c. c \<noteq> CHR ''='') s"
  have val: "(if length ?n < length s then drop (length ?n + 1) s else []) = snd (assignment s)"
    unfolding assignment_def dropWhile_eq_drop by (cases "drop (length ?n) s") (auto simp: drop_Suc drop_tl)
  have key: "take (length ?n) s = ?n" by (metis takeWhile_eq_take)
  have "\<exists>r. environment_put H env s True = Defined (r, snd (ht_put H env ?n (pair_create ?n (snd (assignment s)))))"
    using val key by (simp add: environment_put_def Let_def pair_create_len_def split_beta)
  then show ?thesis using put_get [of env ?n "snd (assignment s)"] assms by (auto simp: assignment_def simp del: fun_upd_apply)
qed

lemma put_all_words:
  assumes "env_wf H env"
  shows "\<exists>env'. put_all H env ss = Defined env' \<and> env_wf H env' \<and> environment_get H env' = assign_words ss (environment_get H env)"
  using assms
proof (induction ss arbitrary: env)
  case (Cons s ss)
  obtain r env1 where "environment_put H env s True = Defined (r, env1)" "env_wf H env1"
      "environment_get H env1 = (environment_get H env)(fst (assignment s) \<mapsto> snd (assignment s))"
    using put_overwrite [OF Cons.prems] by blast
  with Cons.IH [of env1] show ?case by (simp del: fun_upd_apply)
qed simp

lemma pass_loop_words:
  assumes "env_wf H env"
  shows "\<exists>env'. pass_loop H getenv keys env = Defined env' \<and> env_wf H env' \<and>
    environment_get H env' = pass_words getenv keys (environment_get H env)"
  using assms
proof (induction keys arbitrary: env)
  case (Cons key keys)
  show ?case
  proof (cases "getenv key")
    case None
    then show ?thesis using Cons by simp
  next
    case (Some val)
    obtain r env1 where "environment_set H env key val True = Defined (r, env1)" "env_wf H env1"
        "environment_get H env1 = (environment_get H env)(key \<mapsto> val)"
      using set_defined [OF Cons.prems, of True key val] by blast
    with Cons.IH [of env1] Some show ?thesis by (simp del: fun_upd_apply)
  qed
qed simp

lemma prepend_self_path:
  assumes "env_wf H env"
  shows "\<exists>env'. prepend_self H Hd self_dir env = Defined env' \<and> env_wf H env' \<and>
    environment_get H env' = (case environment_get H env ''PATH'' of None \<Rightarrow> environment_get H env
      | Some p \<Rightarrow> (environment_get H env)(''PATH'' \<mapsto> self_path self_dir p))"
proof (cases "environment_get H env ''PATH''")
  case None
  then show ?thesis using assms by (simp add: prepend_self_def)
next
  case (Some p)
  have "strlist_to_delim Hd (self_dir # strlist_from_delim Hd p (CHR '':'') False False) (CHR '':'') True = self_path self_dir p"
    by (simp add: dedup.to_delim_dedup from_delim_plain self_path_def)
  moreover obtain r env1 where "environment_set H env ''PATH'' (self_path self_dir p) True = Defined (r, env1)" "env_wf H env1"
      "environment_get H env1 = (environment_get H env)(''PATH'' \<mapsto> self_path self_dir p)"
    using set_defined [OF assms, of True "''PATH''" "self_path self_dir p"] by blast
  ultimately show ?thesis using Some by (simp add: prepend_self_def)
qed

lemma command_environment_map:
  assumes "env_wf H (sv_Denv S)"
  shows "\<exists>env. command_environment H Hd S val = Defined env \<and> env_wf H env \<and>
    environment_get H env = command_variables (environment_get H (sv_Denv S)) S val"
proof -
  obtain env0 where 0: "environment_clone H (sv_Denv S) = Defined env0" "env_wf H env0"
      "environment_get H env0 = environment_get H (sv_Denv S)"
    using merge_overwrite [OF wf_create assms] by (auto simp: environment_clone_def)
  obtain env1 where 1: "put_all H env0 (words_of (val ''Environment'')) = Defined env1" "env_wf H env1"
      "environment_get H env1 = assign_words (words_of (val ''Environment'')) (environment_get H env0)"
    using put_all_words [OF 0(2)] by blast
  obtain env2 where 2: "pass_loop H (sv_getenv S) (words_of (val ''PassEnvironment'')) env1 = Defined env2" "env_wf H env2"
      "environment_get H env2 = pass_words (sv_getenv S) (words_of (val ''PassEnvironment'')) (environment_get H env1)"
    using pass_loop_words [OF 1(2)] by blast
  let ?env3 = "environment_remove_keys H (environment_remove_keys H env2 (words_of (val ''UnsetEnvironment''))) (sv_Ulist S)"
  have 3: "env_wf H ?env3" "environment_get H ?env3 =
      environment_get H env2 |` (- (set (words_of (val ''UnsetEnvironment'')) \<union> set (sv_Ulist S)))"
    using remove_keys_get [OF conjunct1 [OF remove_keys_get [OF 2(2)]]] remove_keys_get [OF 2(2)] by (simp_all add: Int_commute)
  obtain env4 where 4: "prepend_self H Hd (sv_self_dir S) ?env3 = Defined env4" "env_wf H env4"
      "environment_get H env4 = (case environment_get H ?env3 ''PATH'' of None \<Rightarrow> environment_get H ?env3
      | Some p \<Rightarrow> (environment_get H ?env3)(''PATH'' \<mapsto> self_path (sv_self_dir S) p))"
    using prepend_self_path [OF 3(1)] by blast
  have "command_environment H Hd S val = Defined env4"
    unfolding command_environment_def using 0(1) 1(1) 2(1) 4(1) by simp
  moreover have "environment_get H env4 = command_variables (environment_get H (sv_Denv S)) S val"
    unfolding 4(3) 3(2) 2(3) 1(3) 0(3) command_variables_def Let_def ..
  ultimately show ?thesis using 4(2) by blast
qed

end

interpretation alist_command: command_tables alist_ops alist_ops ..

section \<open>Paths and prefixes\<close>

text \<open>The search tries the directories of the path in turn.\<close>

lemma path_search_last:
  assumes "dropWhile (\<lambda>c. c \<noteq> CHR '':'') p = []"
  shows "path_search access name p =
    (case path_candidate (takeWhile (\<lambda>c. c \<noteq> CHR '':'') p) name of
       None \<Rightarrow> None
     | Some path \<Rightarrow> if access path then Some path else None)"
  by (subst path_search.simps) (simp only: Let_def assms if_True refl)

lemma path_search_next:
  assumes "dropWhile (\<lambda>c. c \<noteq> CHR '':'') p = c # q"
  shows "path_search access name p =
    (case path_candidate (takeWhile (\<lambda>c. c \<noteq> CHR '':'') p) name of
       None \<Rightarrow> path_search access name q
     | Some path \<Rightarrow> if access path then Some path else path_search access name q)"
  by (subst path_search.simps) (simp only: Let_def assms list.distinct if_False list.sel)

definition first_candidate :: "(string \<Rightarrow> bool) \<Rightarrow> string \<Rightarrow> string list \<Rightarrow> string option" where
  "first_candidate access name dirs = find access (List.map_filter (\<lambda>dir. path_candidate dir name) dirs)"

lemma first_candidate_simps:
  "first_candidate access name [] = None"
  "first_candidate access name (dir # dirs) =
    (case path_candidate dir name of
       None \<Rightarrow> first_candidate access name dirs
     | Some path \<Rightarrow> if access path then Some path else first_candidate access name dirs)"
  unfolding first_candidate_def by (simp_all add: List.map_filter_def split: option.split)

lemma path_search_eq: "path_search access name p = first_candidate access name (splits (CHR '':'') [] p)"
proof (induction "length p" arbitrary: p rule: less_induct)
  case less
  let ?dir = "takeWhile (\<lambda>c. c \<noteq> CHR '':'') p"
  let ?q = "dropWhile (\<lambda>c. c \<noteq> CHR '':'') p"
  have "splits (CHR '':'') [] (?dir @ ?q) = splits (CHR '':'') ?dir ?q"
    using splits_word [of "CHR '':''" ?dir "[]" ?q] by (auto dest: set_takeWhileD)
  then have p: "splits (CHR '':'') [] p = splits (CHR '':'') ?dir ?q" by (simp only: takeWhile_dropWhile_id)
  show ?case
  proof (cases ?q)
    case Nil
    show ?thesis unfolding path_search_last [OF Nil] p unfolding Nil by (simp add: first_candidate_simps split: option.split)
  next
    case (Cons c q)
    then have c: "c = CHR '':''" using hd_dropWhile [of "\<lambda>c. c \<noteq> CHR '':''" p] by (simp del: dropWhile_eq_Nil_conv)
    have "length q < length p" using Cons length_dropWhile_le [of "\<lambda>c. c \<noteq> CHR '':''" p] by simp
    note IH = less [OF this]
    show ?thesis unfolding path_search_next [OF Cons] p unfolding Cons IH by (simp add: first_candidate_simps c split: option.split)
  qed
qed

lemma flag_or: "(a OR b) AND m = 0 \<longleftrightarrow> a AND m = 0 \<and> b AND m = (0 :: flags)"
  by (simp add: bit.conj_disj_distrib2 or_eq_0_iff)

lemma prefix_plus: "prefix2flag c AND EF_PLUS \<noteq> 0 \<longleftrightarrow> c = CHR ''+''"
  by (simp add: prefix2flag_def execflags)

lemma strip_flags_plus:
  "fst (strip_flags fl s) AND EF_PLUS = 0 \<longleftrightarrow> fl AND EF_PLUS = 0 \<and> CHR ''+'' \<notin> set (takeWhile (\<lambda>c. prefix2flag c \<noteq> 0) s)"
proof (induction s arbitrary: fl)
  case (Cons c s)
  then show ?case using prefix_plus [of c] by (auto simp: flag_or)
qed simp

section \<open>What a command is made of\<close>

lemma rbindE:
  assumes "rbind m f = Defined (Inr y)"
  obtains x where "m = Defined (Inr x)" "f x = Defined (Inr y)"
  using assms unfolding rbind_def by (cases m; cases "case m of Defined r \<Rightarrow> r") auto

definition initial_command :: "'h surroundings \<Rightarrow> (string \<Rightarrow> string option) \<Rightarrow> string \<Rightarrow> 'h \<Rightarrow> 'h command" where
  "initial_command S val line env =
     \<lparr> cmd_path = '''', cmd_rootdir = map_option (\<lambda>dir. sv_root S @ dir) (val ''RootDirectory''),
       cmd_workdir = map_option (\<lambda>dir. sv_root S @ dir) (val ''WorkingDirectory''), cmd_pidfile = None,
       cmd_args = systemd_split_quoted line, cmd_env = env, cmd_flags = 0, cmd_uid = 0, cmd_gid = 0, cmd_umask = 0 \<rparr>"

lemma command_madeE:
  assumes "command_from_values H Hd S val key = Defined (Inr cmd)"
  obtains line env c1 c2 c3 c4 where
    "val key = Some line" "systemd_split_quoted line \<noteq> []" "command_environment H Hd S val = Defined env"
    "set_pidfile H S (val ''PIDFile'') (initial_command S val line env) = Defined (Inr c1)" "find_binary H S c1 = Inr c2"
    "set_user H S (val ''User'') c2 = Defined (Inr c3)" "set_group S (val ''Group'') c3 = Inr c4"
    "set_umask S (val ''UMask'') c4 = Inr cmd"
proof -
  obtain line where line: "val key = Some line" "systemd_split_quoted line \<noteq> []"
    using assms by (auto simp: command_from_values_def split: option.splits if_splits)
  note made = assms [unfolded command_from_values_def line(1) option.case if_not_P [OF line(2)]]
  from made obtain env where env: "command_environment H Hd S val = Defined env"
    by (cases "command_environment H Hd S val") (auto simp: obind_def)
  from made [unfolded env obind_def outcome.case initial_command_def [symmetric]] show ?thesis
    by (elim rbindE) (auto intro: that [OF line env])
qed

lemma pidfile_keeps:
  "set_pidfile H S v c = Defined (Inr c1) \<Longrightarrow> cmd_args c1 = cmd_args c \<and> cmd_flags c1 = cmd_flags c \<and> cmd_uid c1 = cmd_uid c \<and> cmd_gid c1 = cmd_gid c"
  by (auto simp: set_pidfile_def obind_def split: option.splits sum.splits outcome.splits prod.splits)

lemma binary_keeps:
  "find_binary H S c = Inr c1 \<Longrightarrow> cmd_env c1 = cmd_env c \<and> cmd_pidfile c1 = cmd_pidfile c \<and> cmd_uid c1 = cmd_uid c \<and>
    cmd_gid c1 = cmd_gid c \<and> cmd_flags c1 = fst (strip_flags (cmd_flags c) (hd (cmd_args c)))"
  by (auto simp: find_binary_def Let_def split: prod.splits sum.splits if_splits)

definition unit_uid :: "'h surroundings \<Rightarrow> (string \<Rightarrow> string option) \<Rightarrow> nat" where
  "unit_uid S val = (case val ''User'' of None \<Rightarrow> 0 | Some u \<Rightarrow> (case sv_getpwnam S u of None \<Rightarrow> 0 | Some pw \<Rightarrow> pw_uid pw))"

definition unit_gid :: "'h surroundings \<Rightarrow> (string \<Rightarrow> string option) \<Rightarrow> nat" where
  "unit_gid S val = (case val ''Group'' of None \<Rightarrow> 0 | Some g \<Rightarrow> (case sv_getgrnam S g of None \<Rightarrow> 0 | Some gid \<Rightarrow> gid))"

lemma user_keeps:
  "set_user H S (val ''User'') c = Defined (Inr c1) \<Longrightarrow> cmd_uid c = 0 \<Longrightarrow> cmd_uid c1 = unit_uid S val \<and> cmd_gid c1 = cmd_gid c \<and>
    cmd_flags c1 = cmd_flags c \<and> cmd_pidfile c1 = cmd_pidfile c"
  by (auto simp: set_user_def unit_uid_def obind_def split: option.splits outcome.splits prod.splits)

lemma group_keeps:
  "set_group S (val ''Group'') c = Inr c1 \<Longrightarrow> cmd_gid c = 0 \<Longrightarrow> cmd_gid c1 = unit_gid S val \<and> cmd_uid c1 = cmd_uid c \<and>
    cmd_flags c1 = cmd_flags c \<and> cmd_env c1 = cmd_env c \<and> cmd_pidfile c1 = cmd_pidfile c"
  by (auto simp: set_group_def unit_gid_def split: option.splits)

lemma umask_keeps:
  "set_umask S v c = Inr c1 \<Longrightarrow> parse_umask v = Some (cmd_umask c1) \<and> cmd_workdir c1 \<noteq> None \<and> cmd_gid c1 = cmd_gid c \<and>
    cmd_uid c1 = cmd_uid c \<and> cmd_flags c1 = cmd_flags c \<and> cmd_env c1 = cmd_env c \<and> cmd_pidfile c1 = cmd_pidfile c"
  by (auto simp: set_umask_def split: option.splits if_splits)

lemma parse_umask_range: "parse_umask v = Some m \<Longrightarrow> 0 \<le> m \<and> m \<le> 511"
  by (auto simp: parse_umask_def DEFAULT_UMASK_def Let_def split: option.splits prod.splits if_splits)

definition plus_prefix :: "string \<Rightarrow> bool" where
  "plus_prefix line \<longleftrightarrow> CHR ''+'' \<in> set (takeWhile (\<lambda>c. prefix2flag c \<noteq> 0) (hd (systemd_split_quoted line)))"

lemma command_made:
  assumes "command_from_values H Hd S val key = Defined (Inr cmd)"
  obtains line where "val key = Some line" "cmd_uid cmd = unit_uid S val" "cmd_gid cmd = unit_gid S val"
    "cmd_flags cmd AND EF_PLUS = 0 \<longleftrightarrow> \<not> plus_prefix line" "parse_umask (val ''UMask'') = Some (cmd_umask cmd)" "cmd_workdir cmd \<noteq> None"
proof -
  from assms obtain line env c1 c2 c3 c4 where made:
    "val key = Some line" "set_pidfile H S (val ''PIDFile'') (initial_command S val line env) = Defined (Inr c1)"
    "find_binary H S c1 = Inr c2" "set_user H S (val ''User'') c2 = Defined (Inr c3)" "set_group S (val ''Group'') c3 = Inr c4"
    "set_umask S (val ''UMask'') c4 = Inr cmd"
    by (rule command_madeE)
  note keeps = pidfile_keeps [OF made(2)] binary_keeps [OF made(3)] user_keeps [where val = val, OF made(4)] group_keeps [where val = val, OF made(5)] umask_keeps [OF made(6)]
  have "cmd_flags cmd = fst (strip_flags 0 (hd (systemd_split_quoted line)))" "cmd_uid cmd = unit_uid S val" "cmd_gid cmd = unit_gid S val"
    using keeps by (simp_all add: initial_command_def)
  then show ?thesis using that [OF made(1)] keeps strip_flags_plus [of 0 "hd (systemd_split_quoted line)"] by (simp add: plus_prefix_def)
qed

section \<open>The process that runs a command\<close>

text \<open>What the calls do to the process.\<close>

record process_state =
  ps_root :: string
  ps_cwd :: string
  ps_uid :: nat
  ps_gid :: nat
  ps_groups :: "nat list"
  ps_umask :: int

fun apply_call :: "xcall \<Rightarrow> process_state \<Rightarrow> process_state" where
  "apply_call (Chroot dir) st = st\<lparr> ps_root := dir \<rparr>"
| "apply_call (Chdir dir) st = st\<lparr> ps_cwd := dir \<rparr>"
| "apply_call (Setregid gid) st = st\<lparr> ps_gid := gid \<rparr>"
| "apply_call (Setgroups gids) st = st\<lparr> ps_groups := gids \<rparr>"
| "apply_call (Setreuid uid) st = st\<lparr> ps_uid := uid \<rparr>"
| "apply_call (Umask m) st = st\<lparr> ps_umask := m \<rparr>"
| "apply_call (Execve path argv envv) st = st"

lemma call_seq_complete: "call_seq ok cs = (calls, None) \<Longrightarrow> calls = map fst cs"
  by (induction cs arbitrary: calls) (auto split: if_splits prod.splits)

text \<open>
  C9. The program of a command that has been made from a unit is executed only after all other calls have succeeded,
  and then with the permission mask of the unit, which is at most 0777. If the command line has no plus sign among
  its prefix characters, then the process has the user and the group that the unit names, unless they are 0, and
  this group as its only supplementary group; what the unit does not name stays as it is, so that a unit with a
  user and no group keeps the groups of the caller. With a plus sign, user and groups stay as they are.
\<close>

theorem command_credentials:
  assumes "command_from_values H Hd S val key = Defined (Inr cmd)" and "command_exec_func H ok cmd = (calls, None)"
  shows "\<exists>line. val key = Some line \<and> last calls = Execve (cmd_path cmd) (cmd_args cmd) (environment_list H (cmd_env cmd)) \<and>
    (let st' = fold apply_call calls st
     in parse_umask (val ''UMask'') = Some (ps_umask st') \<and> 0 \<le> ps_umask st' \<and> ps_umask st' \<le> 511 \<and>
        ps_uid st' = (if plus_prefix line \<or> unit_uid S val = 0 then ps_uid st else unit_uid S val) \<and>
        (if plus_prefix line \<or> unit_gid S val = 0 then ps_gid st' = ps_gid st \<and> ps_groups st' = ps_groups st
         else ps_gid st' = unit_gid S val \<and> ps_groups st' = [unit_gid S val]))"
proof -
  from assms(1) obtain line where line: "val key = Some line" "cmd_uid cmd = unit_uid S val" "cmd_gid cmd = unit_gid S val"
    "cmd_flags cmd AND EF_PLUS = 0 \<longleftrightarrow> \<not> plus_prefix line" "parse_umask (val ''UMask'') = Some (cmd_umask cmd)" "cmd_workdir cmd \<noteq> None"
    by (rule command_made)
  note range = parse_umask_range [OF line(5)]
  note calls = call_seq_complete [OF assms(2) [unfolded command_exec_func_def]]
  show ?thesis
    unfolding calls Let_def using line range
    by (intro exI [of _ line] conjI) (auto split: option.split)
qed

text \<open>A unit with a user and a group, and a PID file.\<close>

definition example_resolve :: resolve_calls where
  "example_resolve =
     \<lparr> rs_rootdir = Inr, rs_chroot = \<lambda>dir. None, rs_workdir = Inr, rs_chdir = \<lambda>dir. None, rs_name = \<lambda>name. (None, name),
       rs_access = \<lambda>path. path = ''/usr/sbin/d'', rs_write = None \<rparr>"

definition example_surroundings :: "(string \<times> pair) list surroundings" where
  "example_surroundings =
     \<lparr> sv_Denv = [(''PATH'', pair_create ''PATH'' ''/usr/bin:/usr/sbin'')], sv_Ulist = [''LANG''], sv_self_dir = ''/opt'',
       sv_root = '''', sv_getenv = \<lambda>name. if name = ''TZ'' then Some ''UTC'' else None,
       sv_getpwnam = \<lambda>name. if name = ''me'' then Some \<lparr> pw_name = ''me'', pw_uid = 7, pw_dir = ''/h'', pw_shell = ''/sh'' \<rparr> else None,
       sv_getgrnam = \<lambda>name. if name = ''us'' then Some 8 else None,
       sv_pidfile_calls = (None, example_resolve), sv_binary_calls = (None, example_resolve) \<rparr>"

definition example_unit :: "string \<Rightarrow> string option" where
  "example_unit =
     map_of [(''ExecStart'', ''-d -x''), (''User'', ''me''), (''Group'', ''us''), (''PIDFile'', ''/run/d''),
       (''Environment'', ''LANG=C A=1''), (''PassEnvironment'', ''TZ''), (''UnsetEnvironment'', ''A'')]"

definition example_command :: "(string \<times> pair) list command" where
  "example_command =
     \<lparr> cmd_path = ''/usr/sbin/d'', cmd_rootdir = None, cmd_workdir = Some ''/'', cmd_pidfile = Some ''/run/d'',
       cmd_args = [''-d'', ''-x''],
       cmd_env = [(''PATH'', pair_create ''PATH'' ''/opt:/usr/bin:/usr/sbin''), (''TZ'', pair_create ''TZ'' ''UTC''),
         (''PIDFILE'', pair_create ''PIDFILE'' ''/run/d''), (''USER'', pair_create ''USER'' ''me''),
         (''LOGNAME'', pair_create ''LOGNAME'' ''me''), (''HOME'', pair_create ''HOME'' ''/h''), (''SHELL'', pair_create ''SHELL'' ''/sh'')],
       cmd_flags = EF_DASH, cmd_uid = 7, cmd_gid = 8, cmd_umask = DEFAULT_UMASK \<rparr>"

lemma example_made: "command_from_values alist_ops alist_ops example_surroundings example_unit ''ExecStart'' = Defined (Inr example_command)"
  by code_simp

lemma command_credentials_witness:
  "command_from_values alist_ops alist_ops example_surroundings example_unit ''ExecStart'' = Defined (Inr example_command) \<and>
   (\<exists>calls. command_exec_func alist_ops (\<lambda>c. True) example_command = (calls, None) \<and>
      (let st = fold apply_call calls \<lparr> ps_root = ''/'', ps_cwd = ''/'', ps_uid = 0, ps_gid = 0, ps_groups = [0, 1], ps_umask = 0 \<rparr>
       in ps_uid st = 7 \<and> ps_gid st = 8 \<and> ps_groups st = [8]))"
proof -
  obtain calls r where run: "command_exec_func alist_ops (\<lambda>c. True) example_command = (calls, r)" by fastforce
  have "snd (command_exec_func alist_ops (\<lambda>c. True) example_command) = None"
    by (simp add: command_exec_func_def example_command_def EF_DASH_def EF_PLUS_def split_beta)
  then have "r = None" using run by simp
  moreover have "example_unit ''ExecStart'' = Some ''-d -x''" "\<not> plus_prefix ''-d -x''" "unit_uid example_surroundings example_unit = 7"
      "unit_gid example_surroundings example_unit = 8"
    by code_simp+
  ultimately show ?thesis
    using command_credentials [OF example_made, of "\<lambda>c. True" calls
      "\<lparr> ps_root = ''/'', ps_cwd = ''/'', ps_uid = 0, ps_gid = 0, ps_groups = [0, 1], ps_umask = 0 \<rparr>"] example_made run
    by (auto simp: Let_def)
qed

section \<open>The environment of a command that has been made\<close>

definition user_variables :: "'h surroundings \<Rightarrow> string option \<Rightarrow> (string \<rightharpoonup> string) \<Rightarrow> (string \<rightharpoonup> string)" where
  "user_variables S user m =
     (case user of
        None \<Rightarrow> m
      | Some name \<Rightarrow>
          (case sv_getpwnam S name of
             None \<Rightarrow> m
           | Some pw \<Rightarrow> m(''USER'' \<mapsto> pw_name pw, ''LOGNAME'' \<mapsto> pw_name pw, ''HOME'' \<mapsto> pw_dir pw, ''SHELL'' \<mapsto> pw_shell pw)))"

definition pidfile_variable :: "string option \<Rightarrow> (string \<rightharpoonup> string) \<Rightarrow> (string \<rightharpoonup> string)" where
  "pidfile_variable pidfile m = (case pidfile of None \<Rightarrow> m | Some path \<Rightarrow> m(''PIDFILE'' \<mapsto> path))"

context command_tables
begin

lemma set_new:
  assumes "env_wf H env"
  shows "environment_set H env name val False \<noteq> UB \<longleftrightarrow> environment_get H env name = None"
    and "environment_set H env name val False = Defined (r, env') \<Longrightarrow> env_wf H env' \<and> environment_get H env' = (environment_get H env)(name \<mapsto> val)"
proof -
  show iff: "environment_set H env name val False \<noteq> UB \<longleftrightarrow> environment_get H env name = None"
    by (simp add: environment_set_def environment_get_eq Let_def)
  assume set: "environment_set H env name val False = Defined (r, env')"
  then have "environment_get H env name = None" using iff by simp
  then show "env_wf H env' \<and> environment_get H env' = (environment_get H env)(name \<mapsto> val)"
    using set_defined [OF assms, of False name val] set by auto
qed

lemma set_new_defined:
  assumes "env_wf H env" and "environment_get H env name = None"
  obtains r env' where "environment_set H env name val False = Defined (r, env')" "env_wf H env'"
    "environment_get H env' = (environment_get H env)(name \<mapsto> val)"
  using set_defined [OF assms(1), of False name val] assms(2) by auto

lemma set_pidfile_env:
  assumes "env_wf H (cmd_env c)" and "cmd_pidfile c = None"
  shows "\<exists>r. set_pidfile H S v c = Defined r \<and>
    (\<forall>c1. r = Inr c1 \<longrightarrow> env_wf H (cmd_env c1) \<and> environment_get H (cmd_env c1) = pidfile_variable (cmd_pidfile c1) (environment_get H (cmd_env c)))"
proof -
  have "\<exists>r env'. environment_set H (cmd_env c) ''PIDFILE'' path True = Defined (r, env') \<and> env_wf H env' \<and>
      environment_get H env' = (environment_get H (cmd_env c))(''PIDFILE'' \<mapsto> path)" for path
    using set_defined [OF assms(1), of True "''PIDFILE''" path] by blast
  then obtain r env' where "\<And>path. environment_set H (cmd_env c) ''PIDFILE'' path True = Defined (r path, env' path) \<and> env_wf H (env' path) \<and>
      environment_get H (env' path) = (environment_get H (cmd_env c))(''PIDFILE'' \<mapsto> path)"
    by metis
  then show ?thesis using assms
    by (cases v) (auto simp: set_pidfile_def pidfile_variable_def obind_def split: sum.split)
qed

lemma set_user_env:
  assumes wf: "env_wf H (cmd_env c)" and "set_user H S user c = Defined (Inr c1)"
  shows "environment_get H (cmd_env c1) = user_variables S user (environment_get H (cmd_env c))"
proof (cases user)
  case None
  then show ?thesis using assms(2) by (simp add: set_user_def user_variables_def)
next
  case (Some name)
  then obtain pw where pw: "sv_getpwnam S name = Some pw" using assms(2) by (auto simp: set_user_def split: option.splits)
  note made = assms(2) [unfolded set_user_def Some option.case pw]
  from made obtain r1 e1 where 1: "environment_set H (cmd_env c) ''USER'' (pw_name pw) False = Defined (r1, e1)"
    by (elim obindE_prod)
  from made [unfolded 1] obtain r2 e2 where 2: "environment_set H e1 ''LOGNAME'' (pw_name pw) False = Defined (r2, e2)"
    by (auto elim!: obindE_prod)
  from made [unfolded 1] 2 obtain r3 e3 where 3: "environment_set H e2 ''HOME'' (pw_dir pw) False = Defined (r3, e3)"
    by (auto elim!: obindE_prod)
  from made [unfolded 1] 2 3 obtain r4 e4 where 4: "environment_set H e3 ''SHELL'' (pw_shell pw) False = Defined (r4, e4)"
    by (auto elim!: obindE_prod)
  have e4: "cmd_env c1 = e4" using made 1 2 3 4 by auto
  note s1 = set_new(2) [OF wf 1] and s2 = set_new(2) [OF _ 2] and s3 = set_new(2) [OF _ 3] and s4 = set_new(2) [OF _ 4]
  show ?thesis using s1 s2 s3 s4 e4 Some pw by (simp add: user_variables_def del: fun_upd_apply)
qed

lemma set_user_defined:
  assumes wf: "env_wf H (cmd_env c)"
    and free: "user = None \<or> (\<forall>name \<in> {''USER'', ''LOGNAME'', ''HOME'', ''SHELL''}. environment_get H (cmd_env c) name = None)"
  shows "set_user H S user c \<noteq> UB"
proof (cases "user = None \<or> sv_getpwnam S (the user) = None")
  case True
  then show ?thesis by (auto simp: set_user_def split: option.split)
next
  case False
  then obtain name pw where user: "user = Some name" "sv_getpwnam S name = Some pw" by auto
  have none: "environment_get H (cmd_env c) ''USER'' = None" "environment_get H (cmd_env c) ''LOGNAME'' = None"
      "environment_get H (cmd_env c) ''HOME'' = None" "environment_get H (cmd_env c) ''SHELL'' = None"
    using free user by auto
  obtain r1 e1 where 1: "environment_set H (cmd_env c) ''USER'' (pw_name pw) False = Defined (r1, e1)" "env_wf H e1"
      "environment_get H e1 = (environment_get H (cmd_env c))(''USER'' \<mapsto> pw_name pw)"
    using set_new_defined [OF wf none(1)] .
  then have "environment_get H e1 ''LOGNAME'' = None" using none by simp
  from set_new_defined [OF 1(2) this] obtain r2 e2 where 2: "environment_set H e1 ''LOGNAME'' (pw_name pw) False = Defined (r2, e2)"
      "env_wf H e2" "environment_get H e2 = (environment_get H e1)(''LOGNAME'' \<mapsto> pw_name pw)" .
  then have "environment_get H e2 ''HOME'' = None" using none 1(3) by simp
  from set_new_defined [OF 2(2) this] obtain r3 e3 where 3: "environment_set H e2 ''HOME'' (pw_dir pw) False = Defined (r3, e3)"
      "env_wf H e3" "environment_get H e3 = (environment_get H e2)(''HOME'' \<mapsto> pw_dir pw)" .
  then have "environment_get H e3 ''SHELL'' = None" using none 1(3) 2(3) by simp
  from set_new_defined [OF 3(2) this] obtain r4 e4 where 4: "environment_set H e3 ''SHELL'' (pw_shell pw) False = Defined (r4, e4)" .
  show ?thesis using user 1(1) 2(1) 3(1) 4 by (simp add: set_user_def)
qed

end

lemma group_umask_env:
  "set_group S g c = Inr c1 \<Longrightarrow> cmd_env c1 = cmd_env c \<and> cmd_pidfile c1 = cmd_pidfile c"
  "set_umask S v c = Inr c1 \<Longrightarrow> cmd_env c1 = cmd_env c \<and> cmd_pidfile c1 = cmd_pidfile c"
  by (auto simp: set_group_def set_umask_def split: option.splits)

lemma user_pidfile: "set_user H S user c = Defined (Inr c1) \<Longrightarrow> cmd_pidfile c1 = cmd_pidfile c"
  by (auto simp: set_user_def obind_def split: option.splits outcome.splits prod.splits)

lemma rbind_defined: "m \<noteq> UB \<Longrightarrow> (\<And>x. m = Defined (Inr x) \<Longrightarrow> f x \<noteq> UB) \<Longrightarrow> rbind m f \<noteq> UB"
  by (cases m) (auto simp: rbind_def split: sum.split)

context command_tables
begin

lemma made_environment:
  assumes wf: "env_wf H (sv_Denv S)" and made: "command_from_values H Hd S val key = Defined (Inr cmd)"
  shows "environment_get H (cmd_env cmd) =
    user_variables S (val ''User'') (pidfile_variable (cmd_pidfile cmd) (command_variables (environment_get H (sv_Denv S)) S val))"
proof -
  from made obtain line env c1 c2 c3 c4 where steps: "command_environment H Hd S val = Defined env"
    "set_pidfile H S (val ''PIDFile'') (initial_command S val line env) = Defined (Inr c1)" "find_binary H S c1 = Inr c2"
    "set_user H S (val ''User'') c2 = Defined (Inr c3)" "set_group S (val ''Group'') c3 = Inr c4"
    "set_umask S (val ''UMask'') c4 = Inr cmd"
    by (rule command_madeE)
  let ?vars = "command_variables (environment_get H (sv_Denv S)) S val"
  have env: "env_wf H env" "environment_get H env = ?vars" using command_environment_map [OF wf, of val] steps(1) by auto
  have "env_wf H (cmd_env c1) \<and> environment_get H (cmd_env c1) = pidfile_variable (cmd_pidfile c1) ?vars"
    using set_pidfile_env [of "initial_command S val line env" S "val ''PIDFile''"] env steps(2) by (auto simp: initial_command_def)
  then have c2: "env_wf H (cmd_env c2)" "environment_get H (cmd_env c2) = pidfile_variable (cmd_pidfile c2) ?vars"
    using binary_keeps [OF steps(3)] by simp_all
  have "environment_get H (cmd_env c3) = user_variables S (val ''User'') (pidfile_variable (cmd_pidfile c3) ?vars)"
    using set_user_env [OF c2(1) steps(4)] c2(2) user_pidfile [OF steps(4)] by simp
  then show ?thesis using group_umask_env(1) [OF steps(5)] group_umask_env(2) [OF steps(6)] by simp
qed

lemma made_defined:
  assumes wf: "env_wf H (sv_Denv S)"
    and free: "val ''User'' = None \<or>
      (\<forall>name \<in> {''USER'', ''LOGNAME'', ''HOME'', ''SHELL''}. command_variables (environment_get H (sv_Denv S)) S val name = None)"
  shows "command_from_values H Hd S val key \<noteq> UB"
proof -
  let ?vars = "command_variables (environment_get H (sv_Denv S)) S val"
  obtain env where env: "command_environment H Hd S val = Defined env" "env_wf H env" "environment_get H env = ?vars"
    using command_environment_map [OF wf, of val] by auto
  have user: "set_user H S (val ''User'') c2 \<noteq> UB"
    if "set_pidfile H S (val ''PIDFile'') (initial_command S val line env) = Defined (Inr c1)" "find_binary H S c1 = Inr c2" for line c1 c2
  proof (rule set_user_defined)
    have c1: "env_wf H (cmd_env c1)" "environment_get H (cmd_env c1) = pidfile_variable (cmd_pidfile c1) ?vars"
      using set_pidfile_env [of "initial_command S val line env" S "val ''PIDFile''"] env that(1) by (auto simp: initial_command_def)
    then show "env_wf H (cmd_env c2)" using binary_keeps [OF that(2)] by simp
    show "val ''User'' = None \<or> (\<forall>name \<in> {''USER'', ''LOGNAME'', ''HOME'', ''SHELL''}. environment_get H (cmd_env c2) name = None)"
      using free c1(2) binary_keeps [OF that(2)] by (auto simp: pidfile_variable_def split: option.split)
  qed
  have pidfile: "set_pidfile H S (val ''PIDFile'') (initial_command S val line env) \<noteq> UB" for line
    using set_pidfile_env [of "initial_command S val line env" S "val ''PIDFile''"] env by (auto simp: initial_command_def)
  have "rbind (set_pidfile H S (val ''PIDFile'') (initial_command S val line env))
      (\<lambda>cmd. rbind (Defined (find_binary H S cmd))
      (\<lambda>cmd. rbind (set_user H S (val ''User'') cmd)
      (\<lambda>cmd. rbind (Defined (set_group S (val ''Group'') cmd))
      (\<lambda>cmd. Defined (set_umask S (val ''UMask'') cmd))))) \<noteq> UB" for line
    by (rule rbind_defined [OF pidfile], rule rbind_defined, simp, rule rbind_defined, rule user) (auto simp: rbind_def split: sum.split)
  then show ?thesis
    unfolding command_from_values_def env(1) obind_simps initial_command_def [symmetric] by (simp split: option.split)
qed

end



section \<open>PID files that name a process\<close>

definition pid_file :: "nat \<Rightarrow> string \<times> text_range" where
  "pid_file n = (decimal n @ [NL, NUL], range_text 0 (length (decimal n) + 1))"

lemma pid_file_word: "text_first_word (fst (pid_file n)) (snd (pid_file n)) = range_text 0 (length (decimal n))"
proof -
  obtain c cs where dec: "decimal n = c # cs" by (cases "decimal n") auto
  have digits: "x \<noteq> NUL \<and> \<not> isspace x" if "x \<in> set (decimal n)" for x
    using isdigit_not_space [OF decimal_digits [OF that]] decimal_digits [OF that] by (auto simp: isdigit_def)
  have b: "scan isspace (decimal n @ [NL, NUL]) (Suc (length (decimal n))) 0 = 0"
    using digits [of c] by (subst scan.simps) (simp add: dec)
  have "segment (decimal n @ [NL, NUL]) 0 (Suc (length (decimal n))) = decimal n @ [NL]" by (simp add: segment_def)
  then have e: "scan (\<lambda>c. \<not> isspace c) (decimal n @ [NL, NUL]) (Suc (length (decimal n))) 0 = 0 + length (decimal n)"
    by (intro scan_segment [where b = "[NL]"]) (use digits in \<open>auto simp: isspace_def\<close>)
  show ?thesis using b e by (simp add: text_first_word_def pid_file_def Let_def)
qed

lemma word_pid_file:
  assumes "n < 2 ^ 63"
  shows "word_pid (fst (pid_file n)) (snd (pid_file n)) = (int n, EINVAL)"
proof -
  have noNUL: "takeWhile (\<lambda>c. c \<noteq> NUL) (decimal n @ [NL, NUL]) = decimal n @ [NL]"
  proof -
    have "c \<noteq> NUL" if "c \<in> set (decimal n @ [NL])" for c using that decimal_digits [of c n] by (auto simp: isdigit_def)
    then show ?thesis using takeWhile_append_stop [of "decimal n @ [NL]" "\<lambda>c. c \<noteq> NUL" "[NUL]"] by simp
  qed
  have "scan_int 10 (decimal n @ [NL]) = Some (False, n, [NL])"
    using scan_int_digits [of "decimal n" "[NL]"] decimal_digits [of _ n] by (simp add: isdigit_def)
  then have "strtos64 10 (decimal n @ [NL]) EINVAL = (int n, [NL], EINVAL)" using assms by (simp add: strtos64_def)
  then show ?thesis unfolding word_pid_def pid_file_word Let_def using noNUL by (simp add: pid_file_def)
qed

lemma getpid_file:
  assumes "cmd_pidfile cmd \<noteq> None" and "n < 2 ^ 63"
  shows "command_getpid (Inr (pid_file n)) cmd = (int n, EINVAL)"
  using assms word_pid_file [OF assms(2)] by (simp add: command_getpid_def split_beta)

lemma pid_of_small: "n < 2 ^ 31 \<Longrightarrow> pid_of_long (int n) = int n"
  unfolding pid_of_long_def by (rule c_int_small) simp_all

text \<open>
  C24. If the PID file holds the number of a process, printed in decimal on a line of its own, and the number is
  positive and fits into 31 bits, then exactly that process is signalled, or the group that it is in, with the signal
  followed by \<^verbatim>\<open>SIGCONT\<close> unless the signal is that or 0. If the file holds 0, nothing is signalled and the PID file
  counts as not in use.
\<close>

theorem command_kill_pidfile:
  assumes "cmd_pidfile cmd \<noteq> None" and "kc_file k = Inr (pid_file n)" and "n < 2 ^ 31"
  shows "(0 < n \<longrightarrow> command_kill k cmd signo = send_signal k (int n) signo) \<and>
    (0 < n \<longrightarrow> (\<forall>pgid. kc_getpgid k (int n) = Inr pgid \<and> 0 < pgid \<longrightarrow> command_killpg k cmd signo = send_signal k (- pgid) signo)) \<and>
    (n = 0 \<longrightarrow> command_kill k cmd signo = (Some ENOENT, []) \<and> command_killpg k cmd signo = (Some ENOENT, []))"
proof -
  have "n < 2 ^ 63" using assms(3) by simp
  note getpid = getpid_file [OF assms(1) this] and small = pid_of_small [OF assms(3)]
  show ?thesis
    unfolding command_kill_def command_killpg_def command_kill_impl_def assms(2) getpid Let_def prod.case small using assms(1) by auto
qed

definition example_kill :: kill_calls where
  "example_kill = \<lparr> kc_file = Inr (pid_file 321), kc_getpgid = \<lambda>pid. Inr 300, kc_kill = \<lambda>target signo. None \<rparr>"

lemma command_kill_pidfile_witness:
  "cmd_pidfile example_command \<noteq> None \<and> kc_file example_kill = Inr (pid_file 321) \<and>
   command_kill example_kill example_command SIGTERM = (None, [(321, SIGTERM), (321, SIGCONT)]) \<and>
   command_killpg example_kill example_command SIGTERM = (None, [(-300, SIGTERM), (-300, SIGCONT)])"
proof -
  have "cmd_pidfile example_command \<noteq> None" "kc_file example_kill = Inr (pid_file 321)"
    by (simp_all add: example_command_def example_kill_def)
  then show ?thesis
    using command_kill_pidfile [of example_command example_kill 321 SIGTERM]
    by (simp add: send_signal_def example_kill_def SIGTERM_def SIGCONT_def)
qed

text \<open>A larger number is cut to 32 bits, so that another process is signalled, here the first one.\<close>

lemma command_kill_truncated:
  assumes "cmd_pidfile cmd \<noteq> None" and "kc_file k = Inr (pid_file (2 ^ 32 + 1))"
  shows "command_kill k cmd signo = send_signal k 1 signo"
proof -
  have "pid_of_long (int (2 ^ 32 + 1)) = 1" by (simp add: pid_of_long_def c_int_def)
  moreover have "(2 ^ 32 + 1 :: nat) < 2 ^ 63" by simp
  ultimately show ?thesis
    unfolding command_kill_def command_kill_impl_def assms(2) using getpid_file [OF assms(1), of "2 ^ 32 + 1"] assms(1) by auto
qed

section \<open>Root directories\<close>

text \<open>
  The path of the program is resolved inside the root directory and then given that directory in front, but it is
  executed after the root directory has been changed, so that the directory counts twice.
\<close>

lemma resolved_root:
  assumes "command_resolve_path H parent k (Some dir) workdir env name search = Inr path" and "rs_rootdir k dir = Inr r"
  shows "\<exists>inner. path = r @ inner"
  using assms by (auto simp: command_resolve_path_def command_resolve_path_child_def enter_dirs_def split: option.splits sum.splits)

lemma command_root_twice:
  assumes made: "command_from_values H Hd S val key = Defined (Inr cmd)" and root: "val ''RootDirectory'' = Some dir"
    and r: "rs_rootdir (snd (sv_binary_calls S)) (sv_root S @ dir) = Inr r" and run: "command_exec_func H ok cmd = (calls, None)"
  shows "\<exists>inner argv envv. hd calls = Chroot (sv_root S @ dir) \<and> last calls = Execve (r @ inner) argv envv"
proof -
  from made obtain line env c1 c2 c3 c4 where steps:
    "set_pidfile H S (val ''PIDFile'') (initial_command S val line env) = Defined (Inr c1)" "find_binary H S c1 = Inr c2"
    "set_user H S (val ''User'') c2 = Defined (Inr c3)" "set_group S (val ''Group'') c3 = Inr c4" "set_umask S (val ''UMask'') c4 = Inr cmd"
    by (rule command_madeE)
  have "cmd_rootdir c1 = Some (sv_root S @ dir)"
    using steps(1) root by (auto simp: set_pidfile_def initial_command_def obind_def split: option.splits sum.splits outcome.splits prod.splits)
  then have c2: "cmd_rootdir c2 = Some (sv_root S @ dir)" "\<exists>inner. cmd_path c2 = r @ inner"
    using steps(2) r resolved_root by (auto simp: find_binary_def Let_def split: prod.splits sum.splits if_splits)
  have "cmd_rootdir c3 = cmd_rootdir c2 \<and> cmd_path c3 = cmd_path c2"
    using steps(3) by (auto simp: set_user_def obind_def split: option.splits outcome.splits prod.splits)
  moreover have "cmd_rootdir cmd = cmd_rootdir c3 \<and> cmd_path cmd = cmd_path c3"
    using steps(4,5) by (auto simp: set_group_def set_umask_def split: option.splits)
  ultimately have "cmd_rootdir cmd = Some (sv_root S @ dir)" "\<exists>inner. cmd_path cmd = r @ inner" using c2 by auto
  then show ?thesis using call_seq_complete [OF run [unfolded command_exec_func_def]] by auto
qed

end
