(* ===== verification/Service_Control.thy ===== *)
theory Service_Control
  imports Command Control Connector Sysvinit
begin

text \<open>
  Starting, stopping, reloading and querying a service: the second half of \<^verbatim>\<open>src/sysvrun/service.c\<close> and
  \<^verbatim>\<open>command_monitor\<close> of \<^verbatim>\<open>monitor.c\<close>. The functions talk to the monitor of the service, run the commands of
  its unit and signal the process that its PID file names. The world in which they do so is a state of which only
  the operations of the interface are known here.
\<close>

section \<open>Actions\<close>

text \<open>
  An action changes the world and returns a value, unless it is undefined, ends the program or does not come back.
\<close>

type_synonym ('a, 'w) action = "'w \<Rightarrow> ('a \<times> 'w) run outcome"

definition ret :: "'a \<Rightarrow> ('a, 'w) action" where
  "ret x = (\<lambda>w. Defined (Return (x, w)))"

definition act :: "('a, 'w) action \<Rightarrow> ('a \<Rightarrow> ('b, 'w) action) \<Rightarrow> ('b, 'w) action" where
  "act m f =
     (\<lambda>w. obind (m w) (\<lambda>r. case r of Return (x, w') \<Rightarrow> f x w' | Fatal \<Rightarrow> Defined Fatal | Blocked \<Rightarrow> Defined Blocked))"

definition ask :: "('w \<Rightarrow> 'a outcome) \<Rightarrow> ('a, 'w) action" where
  "ask f = (\<lambda>w. obind (f w) (\<lambda>x. Defined (Return (x, w))))"

definition effect :: "('w \<Rightarrow> 'a \<times> 'w) \<Rightarrow> ('a, 'w) action" where
  "effect f = (\<lambda>w. Defined (Return (f w)))"

lemma act_simps [simp]:
  "ret x w = Defined (Return (x, w))"
  "act (ret x) f = f x"
  "ask g w = obind (g w) (\<lambda>y. Defined (Return (y, w)))"
  "effect h w = Defined (Return (h w))"
  by (simp_all add: ret_def act_def ask_def effect_def fun_eq_iff)

lemma act_Return: "m w = Defined (Return (x, w')) \<Longrightarrow> act m f w = f x w'"
  by (simp add: act_def)

section \<open>The world\<close>

text \<open>
  The calls of one wait for a state: the bound on its turns, the answer before it, the time, and the answers and
  times of the turns.
\<close>

record wait_calls =
  wc_fuel :: nat
  wc_first :: "monitor_state \<times> errno"
  wc_start :: u64
  wc_poll :: "nat \<Rightarrow> monitor_state \<times> errno"
  wc_clock :: "nat \<Rightarrow> u64"

text \<open>
  Finding services and making commands, which read files; connections to a monitor and waits for its states;
  running commands; and signals.
\<close>

record ('s, 'h, 'w) world =
  wd_find :: "string \<Rightarrow> 'w \<Rightarrow> ('s service option \<times> errno) outcome"
  wd_value :: "'s service \<Rightarrow> string \<Rightarrow> string option"
  wd_command :: "'s service \<Rightarrow> string \<Rightarrow> 'w \<Rightarrow> (errno + 'h command) outcome"
  wd_client :: "string \<Rightarrow> 'w \<Rightarrow> client_calls \<times> 'w"
  wd_wait :: "string \<Rightarrow> 'w \<Rightarrow> wait_calls \<times> 'w"
  wd_run :: "'h command \<Rightarrow> 'w \<Rightarrow> int \<times> 'w"
  wd_monitor :: "'s service \<Rightarrow> 'h command \<Rightarrow> 'w \<Rightarrow> int \<times> 'w"
  wd_kill :: "'h command \<Rightarrow> 'w \<Rightarrow> kill_calls"
  wd_getpgid :: "int \<Rightarrow> 'w \<Rightarrow> int"
  wd_signal :: "int \<Rightarrow> int \<Rightarrow> 'w \<Rightarrow> 'w"
  wd_unlink :: "'h command \<Rightarrow> 'w \<Rightarrow> errno option \<times> 'w"

definition get_state :: "('s, 'h, 'w) world \<Rightarrow> 's service \<Rightarrow> (monitor_state \<times> errno, 'w) action" where
  "get_state W svc =
     (\<lambda>w. let (k, w1) = wd_client W (svc_name svc) w in ask (\<lambda>_. monitor_control_get_state k) w1)"

definition send_request :: "('s, 'h, 'w) world \<Rightarrow> 's service \<Rightarrow> string \<Rightarrow> (errno + string, 'w) action" where
  "send_request W svc req =
     (\<lambda>w. let (k, w1) = wd_client W (svc_name svc) w in ask (\<lambda>_. monitor_control k req) w1)"

definition identify :: "('s, 'h, 'w) world \<Rightarrow> 's service \<Rightarrow> (int \<times> (pid \<times> 32 word) option, 'w) action" where
  "identify W svc =
     (\<lambda>w. let (k, w1) = wd_client W (svc_name svc) w in ask (\<lambda>_. monitor_control_identify k) w1)"

definition wait_state :: "('s, 'h, 'w) world \<Rightarrow> 's service \<Rightarrow> int \<Rightarrow> monitor_state list \<Rightarrow> (monitor_state \<times> errno, 'w) action" where
  "wait_state W svc timeout states =
     (\<lambda>w. let (c, w1) = wd_wait W (svc_name svc) w
          in case monitor_control_wait (wc_fuel c) timeout states (wc_first c) (wc_start c) (wc_poll c) (wc_clock c) of
               None \<Rightarrow> Defined Blocked
             | Some r \<Rightarrow> ret r w1)"

text \<open>\<^verbatim>\<open>monitor_control_stop\<close> with its calls.\<close>

definition stop_order :: "('s, 'h, 'w) world \<Rightarrow> 's service \<Rightarrow> int \<Rightarrow> (monitor_state \<times> errno, 'w) action" where
  "stop_order W svc timeout =
     act (get_state W svc) (\<lambda>found.
     act (if fst found \<in> {MS_ERROR, MS_STOPPED, MS_STOPPING} then ret (Inl EOK) else send_request W svc ''stop'') (\<lambda>response.
     case monitor_control_stop found response of
       Inl r \<Rightarrow> ret r
     | Inr states \<Rightarrow> wait_state W svc timeout states))"

text \<open>Sending the signals of a list.\<close>

fun signals :: "('s, 'h, 'w) world \<Rightarrow> (int \<times> int) list \<Rightarrow> 'w \<Rightarrow> 'w" where
  "signals W [] w = w"
| "signals W ((target, signo) # rest) w = signals W rest (wd_signal W target signo w)"

definition kill_command :: "('s, 'h, 'w) world \<Rightarrow> 'h command \<Rightarrow> int \<Rightarrow> bool \<Rightarrow> (errno option, 'w) action" where
  "kill_command W cmd signo pg =
     effect (\<lambda>w. let (e, sent) = command_kill_impl (wd_kill W cmd w) cmd signo pg in (e, signals W sent w))"

section \<open>Monitoring a command\<close>

text \<open>
  \<^verbatim>\<open>command_monitor\<close>: the function \<^verbatim>\<open>monitor_func\<close> behaves as \<open>b\<close>; \<open>wait\<close> is the status that \<^verbatim>\<open>waitpid\<close> stores for
  its argument, if it succeeds, and the status is 0 in a new command.
\<close>

definition command_monitor :: "bool \<Rightarrow> run_calls \<Rightarrow> (int \<Rightarrow> int option) \<Rightarrow> behaviour \<Rightarrow> int" where
  "command_monitor foreground k wait b =
     (if foreground then
        let pid = fst (fork_function (rn_parent k) (rn_inter k) False (rn_written k) (rn_pid k) b);
            wstatus = (case wait pid of None \<Rightarrow> 0 | Some s \<Rightarrow> s)
        in - ((wstatus div 256) mod 256)
      else fst (daemonize_function (rn_parent k) (rn_inter k) False (rn_written k) (rn_pid k) b))"

section \<open>Starting\<close>

text \<open>The loop of \<^verbatim>\<open>service_start_prerequisites\<close>, with the function that starts a service.\<close>

fun start_prerequisites ::
  "('s, 'h, 'w) world \<Rightarrow> ('s service \<Rightarrow> (int, 'w) action) \<Rightarrow> string list \<Rightarrow> int \<Rightarrow> (int, 'w) action" where
  "start_prerequisites W start [] r = ret r"
| "start_prerequisites W start (name # names) r =
     act (ask (wd_find W name)) (\<lambda>(found, e).
     case found of
       None \<Rightarrow> ret (-1)
     | Some svc \<Rightarrow> act (start svc) (\<lambda>res. start_prerequisites W start names (if res \<noteq> EXIT_SUCCESS then -1 else r)))"

definition start_command :: "('s, 'h, 'w) world \<Rightarrow> ('s service \<Rightarrow> (int, 'w) action) \<Rightarrow> 's service \<Rightarrow> (int, 'w) action" where
  "start_command W start svc =
     act (ask (wd_command W svc ''ExecStart'')) (\<lambda>r.
     case r of
       Inl e \<Rightarrow> ret EXIT_FAILURE
     | Inr cmd \<Rightarrow>
         act (if svc_required (svc_settings svc) \<noteq> [] then start_prerequisites W start (svc_required (svc_settings svc)) 0 else ret 0) (\<lambda>pre.
         if pre \<noteq> 0 then ret EXIT_FAILURE
         else act (effect (wd_monitor W svc cmd)) (\<lambda>pid. ret (if pid < 0 then - pid else EXIT_SUCCESS))))"

definition start_body :: "('s, 'h, 'w) world \<Rightarrow> ('s service \<Rightarrow> (int, 'w) action) \<Rightarrow> 's service \<Rightarrow> (int, 'w) action" where
  "start_body W start svc =
     act (get_state W svc) (\<lambda>(st, e).
     let starting = (st = MS_STARTING \<or> st = MS_RESTARTING)
     in act (if starting then wait_state W svc 60000 [MS_RUNNING, MS_REMAINING, MS_STOPPED] else ret (st, e)) (\<lambda>(st1, e1).
        if starting \<and> st1 = MS_ERROR then ret EXIT_FAILURE
        else if st1 = MS_RUNNING \<or> st1 = MS_REMAINING then ret EXIT_SUCCESS
        else
          let stopping = (st1 \<noteq> MS_ERROR \<and> st1 \<noteq> MS_STOPPED)
          in act (if stopping then wait_state W svc 10000 [MS_STOPPED] else ret (st1, e1)) (\<lambda>(st2, e2).
             if stopping \<and> st2 = MS_ERROR then ret EXIT_FAILURE else start_command W start svc)))"

text \<open>
  \<^verbatim>\<open>service_start\<close>, which calls itself for the services that are required. The first argument bounds the depth of
  the calls; beyond it, the function has not come back.
\<close>

fun service_start :: "nat \<Rightarrow> ('s, 'h, 'w) world \<Rightarrow> 's service \<Rightarrow> (int, 'w) action" where
  "service_start 0 W svc = (\<lambda>w. Defined Blocked)"
| "service_start (Suc n) W svc = start_body W (service_start n W) svc"

definition service_start_prerequisites :: "nat \<Rightarrow> ('s, 'h, 'w) world \<Rightarrow> string list \<Rightarrow> (int, 'w) action" where
  "service_start_prerequisites n W req = start_prerequisites W (service_start n W) req 0"

section \<open>Stopping\<close>

text \<open>
  Plan A: the stop command. The result is that of \<^verbatim>\<open>service_stop\<close> with \<^verbatim>\<open>errno\<close>, or \<open>None\<close> to go on.
\<close>

definition stop_plan_a :: "('s, 'h, 'w) world \<Rightarrow> 's service \<Rightarrow> ((int \<times> errno) option, 'w) action" where
  "stop_plan_a W svc =
     act (ask (wd_command W svc ''ExecStop'')) (\<lambda>r.
     case r of
       Inl e \<Rightarrow> ret (if e \<noteq> ENOENT then Some (1, e) else None)
     | Inr cmd \<Rightarrow>
         act (effect (wd_run W cmd)) (\<lambda>res.
         act (wait_state W svc 10000 [MS_STOPPED]) (\<lambda>(st, e).
         ret (if st = MS_STOPPED then Some (0, e) else if e \<noteq> ETIMEDOUT then Some (1, e) else None))))"

text \<open>Plan B: the monitor, or for an old one the process group or the process of the monitor.\<close>

definition stop_old_monitor :: "('s, 'h, 'w) world \<Rightarrow> 's service \<Rightarrow> int \<Rightarrow> (monitor_state \<times> errno, 'w) action" where
  "stop_old_monitor W svc pid =
     act (effect (\<lambda>w.
       if kill_mode (svc_settings svc) \<in> {KM_CGROUP, KM_MIXED} then
         let pgid = wd_getpgid W pid w
         in ((), if pgid > 0 then signals W [(- pgid, SIGTERM), (- pgid, SIGCONT)] w else w)
       else ((), signals W [(pid, SIGTERM), (pid, SIGCONT)] w))) (\<lambda>_.
     ret (MS_STOPPED, EOK))"

definition stop_plan_b :: "('s, 'h, 'w) world \<Rightarrow> 's service \<Rightarrow> (monitor_state \<times> errno, 'w) action" where
  "stop_plan_b W svc =
     act (identify W svc) (\<lambda>(res, mc).
     case mc of
       Some (pid, version) \<Rightarrow>
         if sint version < 20220303 then stop_old_monitor W svc pid
         else stop_order W svc (10 * 1000000)
     | None \<Rightarrow> stop_order W svc (10 * 1000000))"

text \<open>Plan C: the process of the PID file.\<close>

definition stop_pidfile :: "('s, 'h, 'w) world \<Rightarrow> 's service \<Rightarrow> 'h command \<Rightarrow> monitor_state \<times> errno \<Rightarrow> (monitor_state \<times> errno, 'w) action" where
  "stop_pidfile W svc cmd state =
     act (case kill_mode (svc_settings svc) of
            KM_CGROUP \<Rightarrow> kill_command W cmd SIGTERM True
          | KM_MIXED \<Rightarrow> kill_command W cmd SIGTERM True
          | KM_PROCESS \<Rightarrow> kill_command W cmd SIGTERM False
          | KM_NONE \<Rightarrow> ret None) (\<lambda>e.
     act (if cmd_pidfile cmd = None then ret None else effect (wd_unlink W cmd)) (\<lambda>u.
     ret (if e = None \<or> e = Some ENOENT \<or> e = Some ESRCH then MS_STOPPED else fst state,
          case command_rmpid u cmd of
            Some err \<Rightarrow> err
          | None \<Rightarrow> (case u of Some err \<Rightarrow> err | None \<Rightarrow> (case e of Some err \<Rightarrow> err | None \<Rightarrow> snd state)))))"

definition stop_plan_c :: "('s, 'h, 'w) world \<Rightarrow> 's service \<Rightarrow> monitor_state \<times> errno \<Rightarrow> (int \<times> errno, 'w) action" where
  "stop_plan_c W svc state =
     (let finish = (\<lambda>(st, e). ret (if st = MS_STOPPED then 0 else 1, e))
      in if wd_value W svc ''PIDFile'' = None then finish state
         else
           act (ask (wd_command W svc ''ExecStop'')) (\<lambda>r.
           act (case r of
                  Inr cmd \<Rightarrow> act (effect (wd_run W cmd)) (\<lambda>res. ret (Inr cmd))
                | Inl e \<Rightarrow> ask (wd_command W svc ''ExecStart'')) (\<lambda>r'.
           case r' of
             Inl e \<Rightarrow> ret (1, e)
           | Inr cmd \<Rightarrow> act (stop_pidfile W svc cmd state) finish)))"

definition service_stop :: "('s, 'h, 'w) world \<Rightarrow> 's service \<Rightarrow> (int \<times> errno, 'w) action" where
  "service_stop W svc =
     act (get_state W svc) (\<lambda>(st, e).
     if st = MS_STOPPED then ret (0, e)
     else
       act (stop_plan_a W svc) (\<lambda>r.
       case r of
         Some result \<Rightarrow> ret result
       | None \<Rightarrow> act (stop_plan_b W svc) (\<lambda>state. stop_plan_c W svc state)))"

section \<open>Reloading, restarting, status\<close>

definition service_reload :: "('s, 'h, 'w) world \<Rightarrow> 's service \<Rightarrow> (int, 'w) action" where
  "service_reload W svc =
     act (ask (wd_command W svc ''ExecReload'')) (\<lambda>r.
     case r of
       Inl e \<Rightarrow> ret 3
     | Inr cmd \<Rightarrow>
         act (get_state W svc) (\<lambda>(st, e).
         if st = MS_ERROR then ret 1
         else if st = MS_STARTING \<or> st = MS_RESTARTING then ret 0
         else if st = MS_RUNNING \<or> st = MS_REMAINING then
           act (effect (wd_run W cmd)) (\<lambda>res. ret (if res = 0 then 0 else 1))
         else ret 7))"

definition service_restart :: "nat \<Rightarrow> ('s, 'h, 'w) world \<Rightarrow> 's service \<Rightarrow> (int, 'w) action" where
  "service_restart n W svc =
     act (service_stop W svc) (\<lambda>(res, e).
     if res \<noteq> 0 \<and> e \<noteq> ENOENT \<and> e \<noteq> ESRCH then ret res else service_start n W svc)"

definition service_status :: "('s, 'h, 'w) world \<Rightarrow> 's service \<Rightarrow> (int, 'w) action" where
  "service_status W svc =
     act (get_state W svc) (\<lambda>(st, e).
     if st = MS_ERROR then ret 4
     else if st \<in> {MS_RESTARTING, MS_STARTING, MS_RUNNING, MS_REMAINING, MS_STOPPING} then ret 0
     else
       act (ask (wd_command W svc ''ExecStart'')) (\<lambda>r.
       case r of
         Inl e \<Rightarrow> ret 4
       | Inr cmd \<Rightarrow>
           act (kill_command W cmd 0 False) (\<lambda>err.
           ret (case err of None \<Rightarrow> 0 | Some e \<Rightarrow> if e = ESRCH then 1 else if e = ENOENT then 3 else 4))))"

text \<open>
  \<^verbatim>\<open>service_control\<close>: the requests are the lines of the standard input, and the answers are printed. The first argument
  bounds the number of lines.
\<close>

fun service_control :: "nat \<Rightarrow> bool \<Rightarrow> ('s, 'h, 'w) world \<Rightarrow> 's service \<Rightarrow> string \<Rightarrow> string list \<Rightarrow> (int \<times> string list, 'w) action" where
  "service_control 0 ferror W svc input printed = (\<lambda>w. Defined Blocked)"
| "service_control (Suc n) ferror W svc input printed =
     act (ask (\<lambda>_. text_line_from_stream input)) (\<lambda>(line, rest).
     case line of
       None \<Rightarrow> ret (if ferror then EXIT_FAILURE else EXIT_SUCCESS, printed)
     | Some (buf, txt) \<Rightarrow>
         act (send_request W svc (takeWhile (\<lambda>c. c \<noteq> NUL) (drop (txt_beg txt) buf))) (\<lambda>response.
         case response of
           Inl e \<Rightarrow> ret (EXIT_FAILURE, printed)
         | Inr s \<Rightarrow> service_control n ferror W svc rest (printed @ [s @ [NL]])))"

section \<open>Services that require others\<close>

text \<open>
  A world that responds, for a table of services with their names: they are found; their monitors tell whether they
  run; their start commands can be made; and monitoring such a command starts its service and no other.
\<close>

definition responds :: "('s, 'h, 'w) world \<Rightarrow> (string \<rightharpoonup> 's service) \<Rightarrow> ('w \<Rightarrow> string \<Rightarrow> bool) \<Rightarrow> bool" where
  "responds W services running \<longleftrightarrow>
     (\<forall>name svc. services name = Some svc \<longrightarrow>
        svc_name svc = name \<and>
        (\<forall>w. \<exists>e. wd_find W name w = Defined (Some svc, e)) \<and>
        (\<forall>w. \<exists>k e. wd_client W name w = (k, w) \<and>
           monitor_control_get_state k = Defined (if running w name then MS_RUNNING else MS_STOPPED, e)) \<and>
        (\<forall>w. \<exists>cmd. wd_command W svc ''ExecStart'' w = Defined (Inr cmd)) \<and>
        (\<forall>w0 cmd w. wd_command W svc ''ExecStart'' w0 = Defined (Inr cmd) \<longrightarrow>
           (\<exists>pid w'. wd_monitor W svc cmd w = (pid, w') \<and> pid > 0 \<and> running w' = (running w)(name := True))))"

lemma respondsD:
  assumes "responds W services running" and "services name = Some svc"
  shows "svc_name svc = name" "\<exists>e. wd_find W name w = Defined (Some svc, e)"
    "\<exists>k e. wd_client W name w = (k, w) \<and> monitor_control_get_state k = Defined (if running w name then MS_RUNNING else MS_STOPPED, e)"
    "\<exists>cmd. wd_command W svc ''ExecStart'' w = Defined (Inr cmd)"
    "wd_command W svc ''ExecStart'' w0 = Defined (Inr cmd) \<Longrightarrow>
      \<exists>pid w'. wd_monitor W svc cmd w = (pid, w') \<and> pid > 0 \<and> running w' = (running w)(name := True)"
  using assms unfolding responds_def by blast+

definition requirements :: "(string \<rightharpoonup> 's service) \<Rightarrow> string \<Rightarrow> string list" where
  "requirements services name = (case services name of None \<Rightarrow> [] | Some svc \<Rightarrow> svc_required (svc_settings svc))"

definition requires :: "(string \<rightharpoonup> 's service) \<Rightarrow> (string \<times> string) set" where
  "requires services = {(a, b). b \<in> set (requirements services a)}"

text \<open>
  What starting services may change: nothing stops, what has started is reachable from the given services, and what
  has started has its requirements running.
\<close>

definition started_from :: "(string \<rightharpoonup> 's service) \<Rightarrow> string set \<Rightarrow> (string \<Rightarrow> bool) \<Rightarrow> (string \<Rightarrow> bool) \<Rightarrow> bool" where
  "started_from services names before after \<longleftrightarrow>
     (\<forall>x. before x \<longrightarrow> after x) \<and>
     (\<forall>x. after x \<and> \<not> before x \<longrightarrow> x \<in> (requires services)\<^sup>* `` names \<and> (\<forall>r \<in> set (requirements services x). after r))"

lemma started_refl: "started_from services names r r"
  by (simp add: started_from_def)

lemma started_trans:
  assumes "started_from services names r s" and "started_from services names s t"
  shows "started_from services names r t"
  using assms unfolding started_from_def by blast

lemma started_mono: "started_from services names r s \<Longrightarrow> names \<subseteq> (requires services)\<^sup>* `` names' \<Longrightarrow> started_from services names' r s"
proof -
  assume s: "started_from services names r s" and names: "names \<subseteq> (requires services)\<^sup>* `` names'"
  have "(requires services)\<^sup>* `` names \<subseteq> (requires services)\<^sup>* `` names'" using names by (auto intro: rtrancl_trans)
  then show ?thesis using s unfolding started_from_def by blast
qed

lemma get_state_responds:
  assumes "responds W services running" and "services name = Some svc"
  obtains e where "get_state W svc w = Defined (Return ((if running w name then MS_RUNNING else MS_STOPPED, e), w))"
proof -
  obtain k e where "wd_client W name w = (k, w)"
      "monitor_control_get_state k = Defined (if running w name then MS_RUNNING else MS_STOPPED, e)"
    using respondsD(3) [OF assms] by blast
  then show ?thesis using that respondsD(1) [OF assms] by (simp add: get_state_def)
qed

text \<open>A service that runs, and one that does not.\<close>

lemma start_running:
  assumes "responds W services running" and "services name = Some svc" and "running w name"
  shows "start_body W start svc w = Defined (Return (EXIT_SUCCESS, w))"
proof -
  obtain e where "get_state W svc w = Defined (Return ((MS_RUNNING, e), w))"
    using get_state_responds [OF assms(1,2), of w] assms(3) by auto
  then show ?thesis by (simp add: start_body_def act_Return)
qed

lemma start_stopped:
  assumes "responds W services running" and "services name = Some svc" and "\<not> running w name"
  shows "start_body W start svc w = start_command W start svc w"
proof -
  obtain e where "get_state W svc w = Defined (Return ((MS_STOPPED, e), w))"
    using get_state_responds [OF assms(1,2), of w] assms(3) by auto
  then show ?thesis by (simp add: start_body_def act_Return)
qed

definition starts :: "(string \<rightharpoonup> 's service) \<Rightarrow> ('w \<Rightarrow> string \<Rightarrow> bool) \<Rightarrow> ('s service \<Rightarrow> (int, 'w) action) \<Rightarrow> string \<Rightarrow> bool" where
  "starts services running start name \<longleftrightarrow>
     (\<exists>svc. services name = Some svc \<and>
        (\<forall>w. \<exists>w'. start svc w = Defined (Return (EXIT_SUCCESS, w')) \<and> running w' name \<and>
           started_from services {name} (running w) (running w')))"

lemma prerequisites_started:
  assumes W: "responds W services running" and "\<forall>name \<in> set names. starts services running start name"
  shows "\<exists>w'. start_prerequisites W start names 0 w = Defined (Return (0, w')) \<and> (\<forall>name \<in> set names. running w' name) \<and>
    started_from services (set names) (running w) (running w')"
  using assms(2)
proof (induction names arbitrary: w)
  case Nil
  then show ?case by (simp add: started_refl)
next
  case (Cons name names)
  have "starts services running start name" using Cons.prems by simp
  then obtain svc w1 where svc: "services name = Some svc" and w1: "start svc w = Defined (Return (EXIT_SUCCESS, w1))" "running w1 name"
      "started_from services {name} (running w) (running w1)"
    unfolding starts_def by blast
  obtain e where find: "wd_find W name w = Defined (Some svc, e)" using respondsD(2) [OF W svc] by blast
  obtain w2 where w2: "start_prerequisites W start names 0 w1 = Defined (Return (0, w2))" "\<forall>name \<in> set names. running w2 name"
      "started_from services (set names) (running w1) (running w2)"
    using Cons.IH [of w1] Cons.prems by auto
  have "start_prerequisites W start (name # names) 0 w = Defined (Return (0, w2))"
    using find w1(1) w2(1) by (simp add: act_Return act_def)
  moreover have "running w2 name" using w1(2) w2(3) by (simp add: started_from_def)
  moreover have "started_from services (set (name # names)) (running w) (running w2)"
    by (rule started_trans [OF started_mono [OF w1(3)] started_mono [OF w2(3)]]) auto
  ultimately show ?case using w2(2) by auto
qed

lemma service_started:
  assumes W: "responds W services running" and svc: "services name = Some svc"
    and pre: "\<forall>r \<in> set (requirements services name). starts services running start r"
  shows "\<exists>w'. start_body W start svc w = Defined (Return (EXIT_SUCCESS, w')) \<and> running w' name \<and>
    started_from services {name} (running w) (running w')"
proof (cases "running w name")
  case True
  then show ?thesis using start_running [OF W svc] by (auto simp: started_refl)
next
  case False
  obtain cmd where cmd: "wd_command W svc ''ExecStart'' w = Defined (Inr cmd)" using respondsD(4) [OF W svc] by blast
  let ?req = "svc_required (svc_settings svc)"
  have req: "requirements services name = ?req" using svc by (simp add: requirements_def)
  obtain w1 where w1: "(if ?req \<noteq> [] then start_prerequisites W start ?req 0 else ret 0) w = Defined (Return (0, w1))"
      "\<forall>r \<in> set ?req. running w1 r" "started_from services (set ?req) (running w) (running w1)"
    using prerequisites_started [OF W, of ?req start w] pre req by (cases "?req = []") (auto simp: started_refl)
  obtain pid w2 where w2: "wd_monitor W svc cmd w1 = (pid, w2)" "pid > 0" "running w2 = (running w1)(name := True)"
    using respondsD(5) [OF W svc cmd] by blast
  have "start_body W start svc w = Defined (Return (EXIT_SUCCESS, w2))"
    using start_stopped [OF W svc False] cmd w1(1) w2(1,2) by (simp add: start_command_def act_Return act_def)
  moreover have "started_from services {name} (running w) (running w1)"
    by (rule started_mono [OF w1(3)]) (auto simp: requires_def req)
  moreover have "started_from services {name} (running w1) (running w2)"
    using w1(2) by (auto simp: started_from_def w2(3) req)
  ultimately show ?thesis using w2(3) started_trans by (intro exI [of _ w2]) auto
qed

lemma start_with_requirements:
  assumes "responds W services running" and "services name = Some svc" and "rank name < n"
    and "\<forall>a b. b \<in> set (requirements services a) \<longrightarrow> services b \<noteq> None \<and> rank b < rank a"
  shows "\<exists>w'. service_start n W svc w = Defined (Return (EXIT_SUCCESS, w')) \<and> running w' name \<and>
    started_from services {name} (running w) (running w')"
  using assms(2,3)
proof (induction n arbitrary: name svc w)
  case (Suc n)
  have "starts services running (service_start n W) r" if r: "r \<in> set (requirements services name)" for r
  proof -
    obtain s where "services r = Some s" "rank r < rank name" using r assms(4) by blast
    then show ?thesis unfolding starts_def using Suc.IH [of r s] Suc.prems(2) by auto
  qed
  then show ?case using service_started [OF assms(1) Suc.prems(1), of "service_start n W"] by simp
qed simp


text \<open>Two services, of which the first requires the second.\<close>

definition small_service :: "string \<Rightarrow> string list \<Rightarrow> unit service" where
  "small_service name req =
     \<lparr> svc_name = name, svc_unit = \<lparr> unit_file_name = name, unit_sections = () \<rparr>,
       svc_settings = \<lparr> svc_type = ST_SIMPLE, kill_mode = KM_CGROUP, stop_timeout = 10, restart_policy = RP_NO,
         remain_after_exit = False, restart_delay = 0, start_limit_interval = 1, start_limit_burst = 1, svc_required = req, svc_should = [] \<rparr> \<rparr>"

definition small_services :: "string \<rightharpoonup> unit service" where
  "small_services = [''web'' \<mapsto> small_service ''web'' [''db''], ''db'' \<mapsto> small_service ''db'' []]"

definition small_world :: "(unit, (string \<times> pair) list, string list) world" where
  "small_world =
     \<lparr> wd_find = \<lambda>name w. Defined (small_services name, EOK), wd_value = \<lambda>svc key. None,
       wd_command = \<lambda>svc key w. Defined (Inr example_command),
       wd_client = \<lambda>name w. (if name \<in> set w then example_client else example_client\<lparr> c_connect := Some ECONNREFUSED \<rparr>, w),
       wd_wait = \<lambda>name w. (\<lparr> wc_fuel = 1, wc_first = (MS_STOPPED, EOK), wc_start = 0, wc_poll = \<lambda>i. (MS_STOPPED, EOK), wc_clock = \<lambda>i. 0 \<rparr>, w),
       wd_run = \<lambda>cmd w. (0, w), wd_monitor = \<lambda>svc cmd w. (100, svc_name svc # w), wd_kill = \<lambda>cmd w. example_kill,
       wd_getpgid = \<lambda>pid w. 1, wd_signal = \<lambda>target signo w. w, wd_unlink = \<lambda>cmd w. (None, w) \<rparr>"

lemma example_states:
  "monitor_control_get_state example_client = Defined (MS_RUNNING, EOK)"
  "monitor_control_get_state (example_client\<lparr> c_connect := Some ECONNREFUSED \<rparr>) = Defined (MS_STOPPED, ECONNREFUSED)"
proof -
  have "plain ''status''" "plain ''running''" unfolding plain_def by code_simp+
  then have "monitor_control example_client ''status'' = Defined (Inr ''running'')"
    by (intro client_exchange) (simp_all add: example_client_def BUFSIZE_def)
  then show "monitor_control_get_state example_client = Defined (MS_RUNNING, EOK)"
    by (simp add: monitor_control_get_state_def state_of_response_def monitor_state_from_name_def monitor_state_names_def)
  show "monitor_control_get_state (example_client\<lparr> c_connect := Some ECONNREFUSED \<rparr>) = Defined (MS_STOPPED, ECONNREFUSED)"
    by (simp add: monitor_control_get_state_def monitor_control_def monitor_client_connect_def example_client_def refused_def
      state_of_response_def)
qed

lemma small_responds: "responds small_world small_services (\<lambda>w name. name \<in> set w)"
  by (auto simp: responds_def small_world_def small_services_def small_service_def example_states fun_eq_iff)



definition circle_services :: "string \<rightharpoonup> unit service" where
  "circle_services = [''web'' \<mapsto> small_service ''web'' [''db''], ''db'' \<mapsto> small_service ''db'' [''web'']]"


section \<open>The status of a service\<close>

text \<open>
  C26. The exit code of the status command follows the Linux Standard Base. While the monitor runs the service, it is 0.
  If the monitor is gone and the PID file names a process, it is 0 if the process exists, 1 if it does not and 4 if it
  may not be asked; if there is no PID file, or it holds 0, it is 3; and if the monitor cannot be asked or there is no
  valid start command, it is 4. Nothing is signalled but the probe.
\<close>

theorem service_status_codes:
  assumes "get_state W svc w = Defined (Return ((st, e), w1))"
  shows "(st = MS_ERROR \<longrightarrow> service_status W svc w = Defined (Return (4, w1))) \<and>
    (st \<in> {MS_RESTARTING, MS_STARTING, MS_RUNNING, MS_REMAINING, MS_STOPPING} \<longrightarrow> service_status W svc w = Defined (Return (0, w1))) \<and>
    (st \<in> {MS_IDLE, MS_STOPPED, MS_FAILED, MS_DEAD} \<longrightarrow>
      (\<forall>err. wd_command W svc ''ExecStart'' w1 = Defined (Inl err) \<longrightarrow> service_status W svc w = Defined (Return (4, w1))) \<and>
      (\<forall>cmd. wd_command W svc ''ExecStart'' w1 = Defined (Inr cmd) \<longrightarrow>
        (cmd_pidfile cmd = None \<or> kc_file (wd_kill W cmd w1) = Inl ENOENT \<or> kc_file (wd_kill W cmd w1) = Inr (pid_file 0) \<longrightarrow>
          service_status W svc w = Defined (Return (3, w1))) \<and>
        (\<forall>n. cmd_pidfile cmd \<noteq> None \<and> kc_file (wd_kill W cmd w1) = Inr (pid_file n) \<and> 0 < n \<and> n < 2 ^ 31 \<longrightarrow>
          service_status W svc w =
            Defined (Return (case kc_kill (wd_kill W cmd w1) (int n) 0 of
              None \<Rightarrow> (0, wd_signal W (int n) 0 w1)
            | Some err \<Rightarrow> (if err = ESRCH then 1 else if err = ENOENT then 3 else 4, w1))))))"
proof (intro conjI impI allI)
  note step = act_Return [of "get_state W svc" w "(st, e)" w1, OF assms]
  { assume "st = MS_ERROR" then show "service_status W svc w = Defined (Return (4, w1))" by (simp add: service_status_def step) }
  { assume "st \<in> {MS_RESTARTING, MS_STARTING, MS_RUNNING, MS_REMAINING, MS_STOPPING}"
    then show "service_status W svc w = Defined (Return (0, w1))" by (auto simp: service_status_def step) }
  { fix err assume "st \<in> {MS_IDLE, MS_STOPPED, MS_FAILED, MS_DEAD}" "wd_command W svc ''ExecStart'' w1 = Defined (Inl err)"
    then show "service_status W svc w = Defined (Return (4, w1))" by (auto simp: service_status_def step act_Return) }
  fix cmd assume st: "st \<in> {MS_IDLE, MS_STOPPED, MS_FAILED, MS_DEAD}" and cmd: "wd_command W svc ''ExecStart'' w1 = Defined (Inr cmd)"
  have status: "service_status W svc w =
      act (kill_command W cmd 0 False) (\<lambda>err. ret (case err of None \<Rightarrow> 0 | Some e \<Rightarrow> if e = ESRCH then 1 else if e = ENOENT then 3 else 4)) w1"
    using st cmd by (auto simp: service_status_def step act_Return)
  { assume "cmd_pidfile cmd = None \<or> kc_file (wd_kill W cmd w1) = Inl ENOENT \<or> kc_file (wd_kill W cmd w1) = Inr (pid_file 0)"
    then have "command_kill_impl (wd_kill W cmd w1) cmd 0 False = (Some ENOENT, [])"
      using getpid_file [of cmd 0] pid_of_small [of 0] c_int_small [of "-1"]
      by (cases "cmd_pidfile cmd") (auto simp: command_kill_impl_def command_getpid_def pid_of_long_def c_int_def)
    then show "service_status W svc w = Defined (Return (3, w1))" unfolding status by (simp add: kill_command_def act_Return) }
  fix n assume n: "cmd_pidfile cmd \<noteq> None \<and> kc_file (wd_kill W cmd w1) = Inr (pid_file n) \<and> 0 < n \<and> n < 2 ^ 31"
  then have "command_kill_impl (wd_kill W cmd w1) cmd 0 False = send_signal (wd_kill W cmd w1) (int n) 0"
    using getpid_file [of cmd n] pid_of_small [of n] by (auto simp: command_kill_impl_def)
  then show "service_status W svc w =
      Defined (Return (case kc_kill (wd_kill W cmd w1) (int n) 0 of
        None \<Rightarrow> (0, wd_signal W (int n) 0 w1)
      | Some err \<Rightarrow> (if err = ESRCH then 1 else if err = ENOENT then 3 else 4, w1)))"
    unfolding status by (auto simp: kill_command_def act_Return send_signal_def split: option.split)
qed

theorem service_status_codes_witness:
  "get_state small_world (small_service ''db'' []) [] = Defined (Return ((MS_STOPPED, ECONNREFUSED), [])) \<and>
   service_status small_world (small_service ''db'' []) [] = Defined (Return (0, []))"
proof -
  have st: "get_state small_world (small_service ''db'' []) [] = Defined (Return ((MS_STOPPED, ECONNREFUSED), []))"
    by (simp add: get_state_def small_world_def small_service_def example_states)
  have cmd: "wd_command small_world (small_service ''db'' []) ''ExecStart'' [] = Defined (Inr example_command)"
      "cmd_pidfile example_command \<noteq> None" "kc_file (wd_kill small_world example_command []) = Inr (pid_file 321)"
      "kc_kill (wd_kill small_world example_command []) (int 321) 0 = None" "wd_signal small_world (int 321) 0 [] = []"
    by (simp_all add: small_world_def example_command_def example_kill_def)
  then have "0 < (321 :: nat) \<and> (321 :: nat) < 2 ^ 31" by simp
  then show ?thesis
    using service_status_codes [OF st] st cmd by (metis (no_types, lifting) insertCI option.case(1))
qed

section \<open>Two oddities\<close>

text \<open>
  \<^verbatim>\<open>monitor_control_stop\<close> takes milliseconds, but \<^verbatim>\<open>service_stop\<close> passes 10 seconds in microseconds: it waits for 10000
  seconds.
\<close>

lemma stop_order_wait: "ms2us (word_of_int (10 * 1000000)) = 10000 * TS_SEC"
  by (simp add: ms2us_def TS_SEC_def TS_MSEC_def TS_USEC_def)

text \<open>
  In the foreground, a monitor that could not be started counts as a success if there is no child to wait for: what is
  passed to \<^verbatim>\<open>waitpid\<close> is then the negated exit code, which means a process group.
\<close>

lemma foreground_failure:
  assumes "fst (fork_function (rn_parent k) (rn_inter k) False (rn_written k) (rn_pid k) b) < 0" and "\<forall>pid < 0. wait pid = None"
  shows "command_monitor True k wait b = 0"
  using assms by (simp add: command_monitor_def)

end
