(* ===== verification/Sysvrun.thy ===== *)
theory Sysvrun
  imports Service_Control Getopt
begin

text \<open>
  The \<^verbatim>\<open>sysvrun\<close> program, \<^verbatim>\<open>src/sysvrun/sysvrun.c\<close>: its options, its own name and location, the template of the
  environment for commands, and the dispatch of the command to the functions on services, which here work in a world
  that is made from the outside, that is, from files, system calls and monitors.
\<close>

section \<open>The environment template\<close>

definition preserve_env :: "string list" where
  "preserve_env = [''SYSVKIT_LOG_TO_FILE'', ''SYSVKIT_NOISE'']"

fun preserve_loop :: "(string, pair, 'h) hash_ops \<Rightarrow> (string \<Rightarrow> string option) \<Rightarrow> string list \<Rightarrow> 'h \<Rightarrow> 'h outcome" where
  "preserve_loop H getenv [] env = Defined env"
| "preserve_loop H getenv (key # keys) env =
     (case getenv key of
        None \<Rightarrow> preserve_loop H getenv keys env
      | Some val \<Rightarrow> obind (environment_set H env key val False) (\<lambda>(r, env'). preserve_loop H getenv keys env'))"

definition setup_environment :: "(string, pair, 'h) hash_ops \<Rightarrow> (string \<Rightarrow> string option) \<Rightarrow> 'h outcome" where
  "setup_environment H getenv =
     obind (environment_set H (environment_create H) ''PATH'' PATH_STDPATH False) (\<lambda>(r, env).
     preserve_loop H getenv preserve_env env)"

section \<open>Own name and location\<close>

text \<open>
  \<^verbatim>\<open>setup_self\<close>: \<open>exe\<close> is what resolving \<^verbatim>\<open>/proc/self/exe\<close> gives, if that succeeds. The result is the name, the last
  part of it and the directory.
\<close>

fun strip_slashes :: "string \<Rightarrow> string" where
  "strip_slashes s = (if s \<noteq> [] \<and> last s = slash then strip_slashes (butlast s) else s)"

declare strip_slashes.simps [simp del]

definition without_root :: "string \<Rightarrow> string \<Rightarrow> string" where
  "without_root rootdir self =
     (let r = strip_slashes rootdir
      in if r \<noteq> [] \<and> prefix (r @ [slash]) self then drop (length r) self else self)"

definition setup_self :: "(string, string, 'd) hash_ops \<Rightarrow> string option \<Rightarrow> string \<Rightarrow> string \<Rightarrow> string \<times> string \<times> string" where
  "setup_self Hd exe arg0 rootdir =
     (let self = without_root rootdir (case exe of Some path \<Rightarrow> path | None \<Rightarrow> arg0);
          l = strlist_from_delim Hd self slash True False
      in (self, last l, strlist_to_delim Hd (butlast l) slash False))"

section \<open>The world outside\<close>

record ('h, 'w) outside =
  os_stat :: "string \<Rightarrow> errno"
  os_file :: "string \<Rightarrow> errno + string \<times> text_range"
  os_surroundings :: "'w \<Rightarrow> 'h surroundings"
  os_client :: "string \<Rightarrow> 'w \<Rightarrow> client_calls \<times> 'w"
  os_wait :: "string \<Rightarrow> 'w \<Rightarrow> wait_calls \<times> 'w"
  os_run :: "'h command \<Rightarrow> 'w \<Rightarrow> run_calls \<times> 'w"
  os_monitor :: "string \<Rightarrow> 'h command \<Rightarrow> 'w \<Rightarrow> run_calls \<times> (int \<Rightarrow> int option) \<times> behaviour \<times> 'w"
  os_kill :: "'h command \<Rightarrow> 'w \<Rightarrow> kill_calls"
  os_getpgid :: "int \<Rightarrow> 'w \<Rightarrow> int"
  os_signal :: "int \<Rightarrow> int \<Rightarrow> 'w \<Rightarrow> 'w"
  os_unlink :: "'h command \<Rightarrow> 'w \<Rightarrow> errno option \<times> 'w"
  os_files :: "'w \<Rightarrow> file_calls \<times> files \<times> int"
  os_written :: "files \<Rightarrow> 'w \<Rightarrow> 'w"
  os_stdin :: "'w \<Rightarrow> string \<times> bool"

text \<open>
  The options, with the initial values of the global variables.
\<close>

record 'h options =
  op_root :: string
  op_dryrun :: bool
  op_foreground :: bool
  op_output :: "string option"
  op_unit_file :: "string option"
  op_Denv :: 'h
  op_Ulist :: "string list"
  op_noisy :: int

text \<open>The functions on services with the operations that the program gives them.\<close>

definition sysvrun_world ::
  "('p, 's) section_ops \<Rightarrow> 'p pair_ops \<Rightarrow> (string, pair, 'h) hash_ops \<Rightarrow> (string, string, 'd) hash_ops \<Rightarrow> 'h options \<Rightarrow> string \<Rightarrow>
   ('h, 'w) outside \<Rightarrow> ('s, 'h, 'w) world" where
  "sysvrun_world Hs Hp H Hd opts self_dir X =
     \<lparr> wd_find = \<lambda>name w. service_find Hs Hp Hd (os_stat X) (os_file X) (op_root opts) name EOK,
       wd_value = \<lambda>svc key. unit_get_value Hs Hp (svc_unit svc) ''Service'' key,
       wd_command = \<lambda>svc key w.
         command_from_service Hs Hp H Hd
           ((os_surroundings X w)\<lparr> sv_Denv := op_Denv opts, sv_Ulist := op_Ulist opts, sv_root := op_root opts, sv_self_dir := self_dir \<rparr>)
           svc key,
       wd_client = os_client X, wd_wait = os_wait X,
       wd_run = \<lambda>cmd w. let (k, w1) = os_run X cmd w in (command_run H k cmd, w1),
       wd_monitor = \<lambda>svc cmd w. let (k, wait, b, w1) = os_monitor X (svc_name svc) cmd w in (command_monitor (op_foreground opts) k wait b, w1),
       wd_kill = os_kill X, wd_getpgid = os_getpgid X, wd_signal = os_signal X, wd_unlink = os_unlink X \<rparr>"

section \<open>The commands\<close>

definition write_action :: "('h, 'w) outside \<Rightarrow> (file_calls \<Rightarrow> files \<Rightarrow> int \<Rightarrow> int \<times> files \<times> string) \<Rightarrow> (int \<times> string list, 'w) action" where
  "write_action X f =
     effect (\<lambda>w. let (fc, fs, out) = os_files X w; (res, fs', printed) = f fc fs out
       in ((res, if printed = [] then [] else [printed]), os_written X fs' w))"

definition silently :: "(int, 'w) action \<Rightarrow> (int \<times> string list, 'w) action" where
  "silently m = act m (\<lambda>res. ret (res, []))"

text \<open>\<^verbatim>\<open>sysvrun\<close>: \<open>n\<close> bounds the depth of required services and the number of requests.\<close>

definition sysvrun ::
  "nat \<Rightarrow> ('p, 's) section_ops \<Rightarrow> 'p pair_ops \<Rightarrow> ('h, 'w) outside \<Rightarrow> ('s, 'h, 'w) world \<Rightarrow> string \<Rightarrow> string option \<Rightarrow> 's service \<Rightarrow> string \<Rightarrow>
   (int \<times> string list, 'w) action" where
  "sysvrun n Hs Hp X W self out_path svc verb =
     (if verb = ''convert'' then write_action X (\<lambda>fc fs out. service_convert Hs Hp self fc fs out svc out_path)
      else if verb = ''show'' then write_action X (\<lambda>fc fs out. service_show Hs Hp fc fs out svc out_path)
      else if verb = ''start'' then silently (service_start n W svc)
      else if verb = ''stop'' then silently (act (service_stop W svc) (\<lambda>(res, e). ret res))
      else if verb = ''reload'' then silently (service_reload W svc)
      else if verb = ''restart'' then silently (service_restart n W svc)
      else if verb = ''status'' then silently (service_status W svc)
      else if verb = ''control'' then
        (\<lambda>w. let (input, ferror) = os_stdin X w in service_control n ferror W svc input [] w)
      else ret (EX_USAGE, []))"

section \<open>The program\<close>

definition run_long_options :: "long_option list" where
  "run_long_options =
     [\<lparr> lo_name = ''debug'', lo_arg = False, lo_flag = None, lo_val = CHR ''d'' \<rparr>,
      \<lparr> lo_name = ''define'', lo_arg = True, lo_flag = None, lo_val = CHR ''D'' \<rparr>,
      \<lparr> lo_name = ''dry-run'', lo_arg = False, lo_flag = None, lo_val = CHR ''n'' \<rparr>,
      \<lparr> lo_name = ''dryrun'', lo_arg = False, lo_flag = None, lo_val = CHR ''n'' \<rparr>,
      \<lparr> lo_name = ''foreground'', lo_arg = False, lo_flag = None, lo_val = CHR ''f'' \<rparr>,
      \<lparr> lo_name = ''help'', lo_arg = False, lo_flag = None, lo_val = CHR ''h'' \<rparr>,
      \<lparr> lo_name = ''output'', lo_arg = True, lo_flag = None, lo_val = CHR ''o'' \<rparr>,
      \<lparr> lo_name = ''root'', lo_arg = True, lo_flag = None, lo_val = CHR ''r'' \<rparr>,
      \<lparr> lo_name = ''quiet'', lo_arg = False, lo_flag = None, lo_val = CHR ''q'' \<rparr>,
      \<lparr> lo_name = ''undefine'', lo_arg = True, lo_flag = None, lo_val = CHR ''U'' \<rparr>,
      \<lparr> lo_name = ''unit-file'', lo_arg = True, lo_flag = None, lo_val = CHR ''u'' \<rparr>,
      \<lparr> lo_name = ''verbose'', lo_arg = False, lo_flag = None, lo_val = CHR ''v'' \<rparr>]"

definition run_short_options :: string where "run_short_options = ''dD:fhno:qr:U:u:v''"

text \<open>One option: the new options, or an exit code.\<close>

definition run_option :: "(string, pair, 'h) hash_ops \<Rightarrow> char \<Rightarrow> string \<Rightarrow> 'h options \<Rightarrow> (int + 'h options) outcome" where
  "run_option H c optarg opts =
     (if c = CHR ''D'' then obind (environment_put H (op_Denv opts) optarg True) (\<lambda>(r, env). Defined (Inr (opts\<lparr> op_Denv := env \<rparr>)))
      else if c = CHR ''f'' then Defined (Inr (opts\<lparr> op_foreground := True \<rparr>))
      else if c = CHR ''h'' then Defined (Inl EXIT_SUCCESS)
      else if c = CHR ''n'' then Defined (Inr (opts\<lparr> op_dryrun := True \<rparr>))
      else if c = CHR ''o'' then Defined (Inr (opts\<lparr> op_output := Some optarg \<rparr>))
      else if c = CHR ''r'' then Defined (Inr (opts\<lparr> op_root := optarg \<rparr>))
      else if c = CHR ''U'' then Defined (Inr (opts\<lparr> op_Ulist := op_Ulist opts @ [optarg] \<rparr>))
      else if c = CHR ''u'' then Defined (Inr (opts\<lparr> op_unit_file := Some optarg \<rparr>))
      else if c = CHR ''d'' \<or> c = CHR ''q'' \<or> c = CHR ''v'' then
        Defined (Inr (opts\<lparr> op_noisy := (case noise_set_level c (op_noisy opts) of Some n \<Rightarrow> n | None \<Rightarrow> op_noisy opts) \<rparr>))
      else Defined (Inl EX_USAGE))"

fun run_options :: "(string, pair, 'h) hash_ops \<Rightarrow> opt list \<Rightarrow> 'h options \<Rightarrow> (int + 'h options) outcome" where
  "run_options H [] opts = Defined (Inr opts)"
| "run_options H (Flag v # os) opts = run_options H os opts"
| "run_options H (Bad # os) opts = Defined (Inl EX_USAGE)"
| "run_options H (Opt c optarg # os) opts =
     obind (run_option H c (case optarg of Some a \<Rightarrow> a | None \<Rightarrow> []) opts) (\<lambda>r.
     case r of Inl code \<Rightarrow> Defined (Inl code) | Inr opts' \<Rightarrow> run_options H os opts')"

definition run_usage :: string where "run_usage = ''sysvrun [options] service verb'' @ [NL]"

text \<open>The service that is named, from the file of the option or from where services are found.\<close>

definition named_service ::
  "('p, 's) section_ops \<Rightarrow> 'p pair_ops \<Rightarrow> (string, string, 'd) hash_ops \<Rightarrow> 'h options \<Rightarrow> ('h, 'w) outside \<Rightarrow> string \<Rightarrow>
   ('s service option \<times> errno) outcome" where
  "named_service Hs Hp Hd opts X name =
     (case op_unit_file opts of
        Some path \<Rightarrow> service_from_file Hs Hp Hd (os_file X) name path EOK
      | None \<Rightarrow> service_find Hs Hp Hd (os_stat X) (os_file X) (op_root opts) name EOK)"

text \<open>The part of \<^verbatim>\<open>main\<close> behind the options, with the two operands.\<close>

definition run_command ::
  "nat \<Rightarrow> ('p, 's) section_ops \<Rightarrow> 'p pair_ops \<Rightarrow> (string, pair, 'h) hash_ops \<Rightarrow> (string, string, 'd) hash_ops \<Rightarrow> string option \<Rightarrow> string \<times> string \<times> string \<Rightarrow>
   'h options \<Rightarrow> ('h, 'w) outside \<Rightarrow> string \<Rightarrow> string \<Rightarrow> (int \<times> string list, 'w) action" where
  "run_command n Hs Hp H Hd env me opts X service verb =
     (if fst (noise_override env None (op_noisy opts)) \<noteq> 0 then ret (EX_USAGE, [])
      else if op_output opts \<noteq> None \<and> verb \<noteq> ''convert'' \<and> verb \<noteq> ''show'' then ret (EX_USAGE, [run_usage])
      else
        act (ask (\<lambda>_. named_service Hs Hp Hd opts X service)) (\<lambda>(found, e).
        case found of
          None \<Rightarrow> ret (EXIT_FAILURE, [])
        | Some svc \<Rightarrow>
            sysvrun n Hs Hp X (sysvrun_world Hs Hp H Hd opts (snd (snd me)) X) (fst me) (op_output opts) svc verb))"

definition initial_options :: "'h \<Rightarrow> 'h options" where
  "initial_options env =
     \<lparr> op_root = '''', op_dryrun = False, op_foreground = False, op_output = None, op_unit_file = None, op_Denv = env, op_Ulist = [],
       op_noisy = NORMAL \<rparr>"

text \<open>
  \<^verbatim>\<open>main\<close>: the exit code and what is printed. \<open>getenv\<close> is the environment of the program itself.
\<close>

definition run_main ::
  "nat \<Rightarrow> ('p, 's) section_ops \<Rightarrow> 'p pair_ops \<Rightarrow> (string, pair, 'h) hash_ops \<Rightarrow> (string, string, 'd) hash_ops \<Rightarrow>
   (string \<Rightarrow> string option) \<Rightarrow> string option \<Rightarrow> ('h, 'w) outside \<Rightarrow> string \<Rightarrow> string list \<Rightarrow> (int \<times> string list, 'w) action" where
  "run_main n Hs Hp H Hd getenv exe X arg0 args =
     act (ask (\<lambda>_. setup_environment H getenv)) (\<lambda>env.
     let (os, rest) = getopt_long (short_options run_short_options) run_long_options args
     in act (ask (\<lambda>_. run_options H os (initial_options env))) (\<lambda>r.
        case r of
          Inl code \<Rightarrow> ret (code, [run_usage])
        | Inr opts \<Rightarrow>
            (case rest of
               [service, verb] \<Rightarrow>
                 run_command n Hs Hp H Hd (getenv ''SYSVKIT_NOISE'') (setup_self Hd exe arg0 (op_root opts)) opts X service verb
             | _ \<Rightarrow> ret (EX_USAGE, [run_usage]))))"

section \<open>Setting up\<close>

text \<open>The variables of the template.\<close>

fun keep_variables :: "(string \<Rightarrow> string option) \<Rightarrow> string list \<Rightarrow> (string \<rightharpoonup> string) \<Rightarrow> (string \<rightharpoonup> string)" where
  "keep_variables getenv [] m = m"
| "keep_variables getenv (key # keys) m = keep_variables getenv keys (case getenv key of None \<Rightarrow> m | Some val \<Rightarrow> m(key \<mapsto> val))"

context command_tables
begin

lemma preserve_loop_env:
  assumes "env_wf H env" and "distinct keys" and "\<forall>key \<in> set keys. environment_get H env key = None"
  shows "\<exists>env'. preserve_loop H getenv keys env = Defined env' \<and> env_wf H env' \<and>
    environment_get H env' = keep_variables getenv keys (environment_get H env)"
  using assms
proof (induction keys arbitrary: env)
  case (Cons key keys)
  show ?case
  proof (cases "getenv key")
    case None
    then show ?thesis using Cons by simp
  next
    case (Some val)
    have "environment_get H env key = None" using Cons.prems(3) by simp
    from set_new_defined [OF Cons.prems(1) this] obtain r env1 where 1: "environment_set H env key val False = Defined (r, env1)"
        "env_wf H env1" "environment_get H env1 = (environment_get H env)(key \<mapsto> val)" .
    have "\<forall>k \<in> set keys. environment_get H env1 k = None" using Cons.prems 1(3) by auto
    then show ?thesis using Cons.IH [OF 1(2)] Cons.prems(2) 1 Some by (simp del: fun_upd_apply)
  qed
qed simp

lemma setup_environment_env:
  "\<exists>env. setup_environment H getenv = Defined env \<and> env_wf H env \<and>
    environment_get H env = keep_variables getenv preserve_env [''PATH'' \<mapsto> PATH_STDPATH]"
proof -
  have "environment_get H (environment_create H) ''PATH'' = None" by simp
  from set_new_defined [OF wf_create this] obtain r env1 where
      1: "environment_set H (environment_create H) ''PATH'' PATH_STDPATH False = Defined (r, env1)" "env_wf H env1"
      "environment_get H env1 = (environment_get H (environment_create H))(''PATH'' \<mapsto> PATH_STDPATH)" .
  have "distinct preserve_env" "\<forall>key \<in> set preserve_env. environment_get H env1 key = None"
    using 1(3) by (simp_all add: preserve_env_def)
  from preserve_loop_env [OF 1(2) this] show ?thesis using 1 by (simp add: setup_environment_def)
qed

end

lemma command_tablesI: "hash_table H \<Longrightarrow> hash_table Hd \<Longrightarrow> command_tables H Hd"
  by (simp add: command_tables_def env_table_def word_table_def)

section \<open>Options\<close>

lemma put_overwrite_defined: "\<exists>r env'. environment_put H env name_value True = Defined (r, env')"
  by (simp add: environment_put_def Let_def split_beta)

lemma run_option_result:
  assumes "c \<noteq> CHR ''h''"
  shows "run_option H c optarg opts = Defined (Inl EX_USAGE) \<or>
    (\<exists>opts'. run_option H c optarg opts = Defined (Inr opts') \<and>
      (op_output opts' = None \<longleftrightarrow> op_output opts = None \<and> c \<noteq> CHR ''o''))"
proof (cases "c = CHR ''D''")
  case True
  obtain r env where "environment_put H (op_Denv opts) optarg True = Defined (r, env)" using put_overwrite_defined by metis
  then show ?thesis using True by (simp add: run_option_def)
next
  case False
  then show ?thesis using assms by (cases "c = CHR ''o''") (simp_all add: run_option_def)
qed

lemma run_options_result:
  assumes "\<forall>a. Opt (CHR ''h'') a \<notin> set os"
  shows "run_options H os opts = Defined (Inl EX_USAGE) \<or>
    (\<exists>opts'. run_options H os opts = Defined (Inr opts') \<and> Bad \<notin> set os \<and>
      (op_output opts' = None \<longleftrightarrow> op_output opts = None \<and> (\<forall>a. Opt (CHR ''o'') a \<notin> set os)))"
  using assms
proof (induction os arbitrary: opts)
  case (Cons b os)
  have rest: "\<forall>a. Opt (CHR ''h'') a \<notin> set os" using Cons.prems by simp
  show ?case
  proof (cases b)
    case (Opt c optarg)
    have h: "c \<noteq> CHR ''h''" using spec [OF Cons.prems, of optarg] unfolding Opt list.set by blast
    have o_iff: "(\<forall>a. Opt (CHR ''o'') a \<notin> set (Opt c optarg # os)) \<longleftrightarrow> c \<noteq> CHR ''o'' \<and> (\<forall>a. Opt (CHR ''o'') a \<notin> set os)"
      unfolding list.set by blast
    let ?arg = "case optarg of Some a \<Rightarrow> a | None \<Rightarrow> []"
    from run_option_result [OF h, of H ?arg opts] show ?thesis
    proof (elim disjE exE conjE)
      fix opts1
      assume 1: "run_option H c ?arg opts = Defined (Inr opts1)" "op_output opts1 = None \<longleftrightarrow> op_output opts = None \<and> c \<noteq> CHR ''o''"
      have run: "run_options H (b # os) opts = run_options H os opts1" using 1(1) Opt by simp
      from Cons.IH [OF rest, of opts1] show ?thesis
        unfolding run unfolding Opt o_iff 1(2) by (elim disjE exE conjE) simp_all
    qed (simp add: Opt)
  next
    case Bad
    then show ?thesis by simp
  next
    case (Flag v)
    then show ?thesis using Cons.IH [OF rest, of opts] by simp
  qed
qed simp

lemma initial_output: "op_output (initial_options env) = None"
  by (simp add: initial_options_def)

text \<open>
  C33. An invocation that is not well formed does nothing but print: if there is an invalid option or one without its
  argument, if there are not exactly two operands, or if an output file is named for a command that does not write
  one, then the exit code is 64 and the world is unchanged, whatever services there are; unless help is asked for.
\<close>

theorem sysvrun_refuses:
  assumes "hash_table H" and "hash_table Hd"
    and "getopt_long (short_options run_short_options) run_long_options args = (os, rest)" and "\<forall>a. Opt (CHR ''h'') a \<notin> set os"
    and "Bad \<in> set os \<or> length rest \<noteq> 2 \<or> (\<exists>a. Opt (CHR ''o'') a \<in> set os) \<and> rest ! 1 \<notin> {''convert'', ''show''}"
  shows "\<exists>printed. run_main n Hs Hp H Hd getenv exe X arg0 args w = Defined (Return ((EX_USAGE, printed), w))"
proof -
  obtain env where env: "setup_environment H getenv = Defined env"
    using command_tables.setup_environment_env [OF command_tablesI [OF assms(1,2)]] by blast
  have main: "run_main n Hs Hp H Hd getenv exe X arg0 args w =
      act (ask (\<lambda>_. run_options H os (initial_options env))) (\<lambda>r.
        case r of
          Inl code \<Rightarrow> ret (code, [run_usage])
        | Inr opts \<Rightarrow>
            (case rest of
               [service, verb] \<Rightarrow>
                 run_command n Hs Hp H Hd (getenv ''SYSVKIT_NOISE'') (setup_self Hd exe arg0 (op_root opts)) opts X service verb
             | _ \<Rightarrow> ret (EX_USAGE, [run_usage]))) w"
    unfolding run_main_def assms(3) using env by (simp add: act_Return)
  from run_options_result [OF assms(4), of H "initial_options env"] show ?thesis
  proof (elim disjE exE conjE)
    assume "run_options H os (initial_options env) = Defined (Inl EX_USAGE)"
    then show ?thesis unfolding main by (simp add: act_Return)
  next
    fix opts
    assume 2: "run_options H os (initial_options env) = Defined (Inr opts)" "Bad \<notin> set os"
      "op_output opts = None \<longleftrightarrow> op_output (initial_options env) = None \<and> (\<forall>a. Opt (CHR ''o'') a \<notin> set os)"
    have "length rest \<noteq> 2 \<or> op_output opts \<noteq> None \<and> rest ! 1 \<noteq> ''convert'' \<and> rest ! 1 \<noteq> ''show''"
      using assms(5) 2(2,3) by auto
    then show ?thesis
    proof
      assume "length rest \<noteq> 2"
      then show ?thesis unfolding main using 2(1) by (auto simp: act_Return split: list.split)
    next
      assume o: "op_output opts \<noteq> None \<and> rest ! 1 \<noteq> ''convert'' \<and> rest ! 1 \<noteq> ''show''"
      then show ?thesis unfolding main using 2(1) by (auto simp: act_Return run_command_def split: list.split)
    qed
  qed
qed

text \<open>A system without services, for examples.\<close>

definition example_run_calls :: run_calls where
  "example_run_calls =
     \<lparr> rn_parent = example_parent, rn_inter = example_inter, rn_written = True, rn_pid = 100, rn_ok = \<lambda>c. True, rn_wait = Some 0 \<rparr>"

definition no_services :: "((string \<times> pair) list, 'w) outside" where
  "no_services =
     \<lparr> os_stat = \<lambda>path. ENOENT, os_file = \<lambda>path. Inl ENOENT, os_surroundings = \<lambda>w. example_surroundings,
       os_client = \<lambda>name w. (example_client, w),
       os_wait = \<lambda>name w. (\<lparr> wc_fuel = 1, wc_first = (MS_STOPPED, EOK), wc_start = 0, wc_poll = \<lambda>i. (MS_STOPPED, EOK), wc_clock = \<lambda>i. 0 \<rparr>, w),
       os_run = \<lambda>cmd w. (example_run_calls, w), os_monitor = \<lambda>name cmd w. (example_run_calls, \<lambda>pid. Some 0, \<lparr> b_ready = True, b_return = None \<rparr>, w),
       os_kill = \<lambda>cmd w. example_kill, os_getpgid = \<lambda>pid w. 1, os_signal = \<lambda>target signo w. w,
       os_unlink = \<lambda>cmd w. (None, w), os_files = \<lambda>w. (\<lparr> fc_mkstemp = None, fc_write = 0, fc_umask = 0, fc_fchmod = True, fc_rename = True \<rparr>, Map.empty, 0), os_written = \<lambda>fs w. w, os_stdin = \<lambda>w. ('''', False) \<rparr>"

theorem sysvrun_refuses_witness:
  "\<exists>printed. run_main 1 alist_ops alist_ops alist_ops alist_ops
     (\<lambda>s. None) None no_services ''sysvrun'' [''-o'', ''f'', ''cron'', ''start''] () = Defined (Return ((EX_USAGE, printed), ()))"
proof -
  have "getopt_long (short_options run_short_options) run_long_options [''-o'', ''f'', ''cron'', ''start''] =
      ([Opt (CHR ''o'') (Some ''f'')], [''cron'', ''start''])" by code_simp
  from sysvrun_refuses [OF alist_table.hash_table_axioms alist_table.hash_table_axioms this] show ?thesis by simp
qed

text \<open>
  The environment from which that of every command is made: besides the standard \<^verbatim>\<open>PATH\<close> it has the two variables
  of this program that the program itself was started with, with their values, and nothing else. The freed pair of
  \<^verbatim>\<open>environment_set\<close> is not reached: the names are different.
\<close>

theorem sysvrun_template:
  assumes "hash_table H"
  shows "\<exists>env. setup_environment H getenv = Defined env \<and> env_wf H env \<and>
    environment_get H env =
      (\<lambda>name. if name = ''PATH'' then Some PATH_STDPATH
              else if name \<in> {''SYSVKIT_LOG_TO_FILE'', ''SYSVKIT_NOISE''} then getenv name else None)"
proof -
  have keep: "keep_variables getenv preserve_env [''PATH'' \<mapsto> PATH_STDPATH] =
      (\<lambda>name. if name = ''PATH'' then Some PATH_STDPATH
              else if name \<in> {''SYSVKIT_LOG_TO_FILE'', ''SYSVKIT_NOISE''} then getenv name else None)"
    by (auto simp: preserve_env_def fun_eq_iff split: option.split)
  show ?thesis
    using command_tables.setup_environment_env [OF command_tablesI [OF assms alist_table.hash_table_axioms], of getenv]
    unfolding keep .
qed

theorem sysvrun_template_witness:
  "\<exists>env. setup_environment alist_ops [''HOME'' \<mapsto> ''/root'', ''SYSVKIT_NOISE'' \<mapsto> ''2''] = Defined env \<and>
     environment_get alist_ops env ''HOME'' = None \<and> environment_get alist_ops env ''SYSVKIT_NOISE'' = Some ''2''"
  using sysvrun_template [OF alist_table.hash_table_axioms, of "[''HOME'' \<mapsto> ''/root'', ''SYSVKIT_NOISE'' \<mapsto> ''2'']"] by auto

section \<open>The parts of the own name\<close>

lemma splits_not_empty: "splits d w q \<noteq> []"
  by (induction q arbitrary: w) auto

lemma splits_words: "d \<notin> set w \<Longrightarrow> x \<in> set (splits d w q) \<Longrightarrow> d \<notin> set x"
proof (induction q arbitrary: w)
  case (Cons a q)
  show ?case using Cons.IH [of "[]"] Cons.IH [of "w @ [a]"] Cons.prems by (auto split: if_splits)
qed simp

lemma join_snoc: "l \<noteq> [] \<Longrightarrow> join_delim d (l @ [x]) = join_delim d l @ d # x"
  by (induction d l rule: join_delim.induct) (auto simp: join_Cons)

text \<open>
  The directory and the base name make the name again, except that a name without slash has no directory; the
  directory of a program in the root directory is empty as well.
\<close>

lemma setup_self_parts:
  assumes "setup_self Hd exe arg0 rootdir = (self, base, dir)"
  shows "slash \<notin> set base \<and> (if slash \<in> set self then self = dir @ slash # base else base = self \<and> dir = [])"
proof -
  define l where "l = splits slash [] self"
  have slash: "slash \<noteq> NUL" by (simp add: slash_def)
  have parts: "base = last l" "dir = join_delim slash (butlast l)"
    using assms by (auto simp: setup_self_def Let_def from_delim_plain [OF slash] to_delim_plain [OF slash] l_def)
  have l: "l \<noteq> []" "join_delim slash l = self" "l = butlast l @ [base]" "slash \<notin> set base"
    using splits_not_empty join_splits [of slash "[]" self] splits_words [of slash "[]" "last l" self] parts by (auto simp: l_def)
  show ?thesis
  proof (cases "butlast l = []")
    case True
    then have "self = base" using l(2,3) by (metis append_Nil join_delim.simps(2))
    then show ?thesis using True l(4) parts(2) by simp
  next
    case False
    then have "self = dir @ slash # base" using join_snoc [OF False, of slash base] l(2,3) parts(2) by metis
    then show ?thesis using l(4) by simp
  qed
qed

end
