(* ===== verification/Mockd.thy ===== *)
theory Mockd
  imports Command Getopt Noise
begin

text \<open>
  The mock daemon, \<^verbatim>\<open>src/mockd/mockd.c\<close>: the actions that it is told on its command line, the loop over them and the
  options. The state is that of the process that runs, together with the exit statuses of those that a \<^verbatim>\<open>daemon\<close>
  action has left behind; the results of system calls are an argument.
\<close>

section \<open>State\<close>

text \<open>
  The calls: the variable \<^verbatim>\<open>PIDFILE\<close>, opening a file, writing and removing it, \<^verbatim>\<open>poll\<close> with the timeout (the error
  code, or \<open>None\<close> if it never returns), \<^verbatim>\<open>sigprocmask\<close>, the signals that are ignored, the process that a process
  forks (negative if that fails), the descriptors that are terminals, opening the null device in place of one,
  \<^verbatim>\<open>setsid\<close>, and the name that the program was started by.
\<close>

record mock_calls =
  mk_PIDFILE :: "string option"
  mk_open :: "string \<Rightarrow> bool"
  mk_write :: "string \<Rightarrow> bool"
  mk_unlink :: "string \<Rightarrow> bool"
  mk_poll :: "int \<Rightarrow> errno option"
  mk_block :: bool
  mk_ignored :: "int \<Rightarrow> bool"
  mk_fork :: "int \<Rightarrow> int"
  mk_terminal :: "nat \<Rightarrow> bool"
  mk_reopen :: "nat \<Rightarrow> bool"
  mk_setsid :: bool
  mk_name :: string

text \<open>
  The state: the global variables \<^verbatim>\<open>pidfile\<close> and \<^verbatim>\<open>noisef\<close> (the identification in the system log, once that is used), the
  number of times that \<^verbatim>\<open>rmpidfile\<close> is registered for the exit, the blocked signals, the process, its session, the
  descriptors that have been replaced, the files, and the processes left behind with their exit statuses.
\<close>

record mock =
  md_pidfile :: "string option"
  md_syslog :: "string option"
  md_atexit :: nat
  md_blocked :: "int list"
  md_pid :: int
  md_session :: int
  md_null :: "nat list"
  md_files :: "string \<rightharpoonup> string"
  md_left :: "(int \<times> int) list"

text \<open>How a process ends; \<open>Asleep\<close> is not at all.\<close>

datatype mock_end = Exited int | Killed int | Asleep

text \<open>What an action does: it returns, or the process ends.\<close>

datatype mock_result = Done int | Ended mock_end

definition PATH_PIDFILE :: string where "PATH_PIDFILE = ''/var/run/mockd.pid''"

definition INFTIM :: int where "INFTIM = - 1"

definition rmpidfile :: "mock_calls \<Rightarrow> mock \<Rightarrow> mock" where
  "rmpidfile K st =
     (case md_pidfile st of
        None \<Rightarrow> st
      | Some path \<Rightarrow> if mk_unlink K path then st\<lparr> md_files := (md_files st)(path := None) \<rparr> else st)"

text \<open>\<^verbatim>\<open>exit\<close> of the C library calls the registered functions, \<^verbatim>\<open>_exit\<close> does not.\<close>

definition exit_process :: "mock_calls \<Rightarrow> int \<Rightarrow> mock \<Rightarrow> mock \<times> mock_result" where
  "exit_process K status st = ((rmpidfile K ^^ md_atexit st) st, Ended (Exited status))"

section \<open>Actions\<close>

definition argnum :: "string option \<Rightarrow> int \<Rightarrow> int \<Rightarrow> errno + int" where
  "argnum arg lo hi =
     (case arg of
        None \<Rightarrow> Inl EINVAL
      | Some s \<Rightarrow>
          if s = [] then Inl EINVAL
          else let (num, rest, e) = strtos64 10 s EOK
            in if rest \<noteq> [] then Inl EINVAL
               else if e = ERANGE \<or> num < lo \<or> num > hi then Inl ERANGE
               else Inr num)"

text \<open>An argument that may be absent.\<close>

definition optional_argnum :: "int \<Rightarrow> string option \<Rightarrow> int \<Rightarrow> int \<Rightarrow> errno + int" where
  "optional_argnum missing arg lo hi = (if arg = None then Inr missing else argnum arg lo hi)"

definition mockd_exit :: "mock_calls \<Rightarrow> string option \<Rightarrow> mock \<Rightarrow> mock \<times> mock_result" where
  "mockd_exit K arg st =
     (case optional_argnum EXIT_SUCCESS arg 0 255 of
        Inl e \<Rightarrow> (st, Done (- 1))
      | Inr status \<Rightarrow> exit_process K status st)"

text \<open>The timeout in milliseconds: the conversion to \<^verbatim>\<open>int\<close> keeps 32 bits.\<close>

definition sleep_timeout :: "string option \<Rightarrow> int option" where
  "sleep_timeout arg =
     (case arg of
        None \<Rightarrow> Some INFTIM
      | Some s \<Rightarrow>
          if s = ''forever'' then Some INFTIM
          else let ul = fst (timespan_from_str EOK s)
            in if ul = TS_INVALID then None
               else if ul div 1000 > 0x7FFFFFFF then None
               else Some (sint (ucast ((ul + 999) div 1000) :: 32 word)))"

definition mockd_sleep :: "mock_calls \<Rightarrow> string option \<Rightarrow> mock \<Rightarrow> mock \<times> mock_result" where
  "mockd_sleep K arg st =
     (case sleep_timeout arg of
        None \<Rightarrow> (st, Done (- 1))
      | Some timeout \<Rightarrow>
          (case mk_poll K timeout of
             None \<Rightarrow> (st, Ended Asleep)
           | Some e \<Rightarrow> (st, Done (if e = EOK \<or> e = EINTR then 0 else - 1))))"

definition mockd_block :: "mock_calls \<Rightarrow> string option \<Rightarrow> mock \<Rightarrow> mock \<times> mock_result" where
  "mockd_block K arg st =
     (case optional_argnum SIGTERM arg 1 15 of
        Inl e \<Rightarrow> (st, Done (- 1))
      | Inr signo \<Rightarrow>
          if mk_block K then (st\<lparr> md_blocked := signo # md_blocked st \<rparr>, Done 0) else (st, Done (- 1)))"

text \<open>
  \<^verbatim>\<open>raise\<close>: nothing handles signals here, so that one that is neither blocked nor ignored ends the process. The signal 9
  can be neither; 0 is no signal.
\<close>

definition mockd_raise :: "mock_calls \<Rightarrow> string option \<Rightarrow> mock \<Rightarrow> mock \<times> mock_result" where
  "mockd_raise K arg st =
     (case optional_argnum SIGTERM arg 0 15 of
        Inl e \<Rightarrow> (st, Done (- 1))
      | Inr signo \<Rightarrow>
          if signo = 0 \<or> signo \<noteq> 9 \<and> (signo \<in> set (md_blocked st) \<or> mk_ignored K signo) then (st, Done 0)
          else (st, Ended (Killed signo)))"

definition mockd_pidfile :: "mock_calls \<Rightarrow> string option \<Rightarrow> mock \<Rightarrow> mock \<times> mock_result" where
  "mockd_pidfile K arg st =
     (let path = (case arg of Some p \<Rightarrow> p | None \<Rightarrow> (case mk_PIDFILE K of Some p \<Rightarrow> p | None \<Rightarrow> PATH_PIDFILE));
          st1 = st\<lparr> md_pidfile := Some path \<rparr>
      in if \<not> mk_open K path then (st1, Done (- 1))
         else if \<not> mk_write K path then (st1\<lparr> md_files := (md_files st)(path \<mapsto> []) \<rparr>, Done (- 1))
         else (st1\<lparr> md_files := (md_files st)(path \<mapsto> decimal (nat (md_pid st)) @ [NL]), md_atexit := md_atexit st + 1 \<rparr>, Done 0))"

definition mockd_syslog :: "mock_calls \<Rightarrow> string option \<Rightarrow> mock \<Rightarrow> mock \<times> mock_result" where
  "mockd_syslog K arg st =
     (case md_syslog st of
        Some ident \<Rightarrow> (st, Done 0)
      | None \<Rightarrow> (st\<lparr> md_syslog := Some (case arg of Some ident \<Rightarrow> ident | None \<Rightarrow> mk_name K) \<rparr>, Done 0))"

text \<open>The exit status that \<^verbatim>\<open>_exit\<close> makes of the status that \<^verbatim>\<open>waitpid\<close> has stored for a process that exited.\<close>

definition exited_status :: "int \<Rightarrow> int" where "exited_status code = 256 * code"

definition isatty :: "mock_calls \<Rightarrow> mock \<Rightarrow> nat \<Rightarrow> bool" where
  "isatty K st fd \<longleftrightarrow> mk_terminal K fd \<and> fd \<notin> set (md_null st)"

text \<open>
  The intermediate process up to the second \<^verbatim>\<open>fork\<close>, \<open>None\<close> if it ends with \<^verbatim>\<open>fatal\<close>. That standard error
  cannot be replaced is only reported.
\<close>

definition replace_fd :: "mock_calls \<Rightarrow> nat \<Rightarrow> mock \<Rightarrow> mock option" where
  "replace_fd K fd st =
     (if \<not> isatty K st fd then Some st
      else if mk_reopen K fd then Some (st\<lparr> md_null := fd # md_null st \<rparr>)
      else None)"

definition replace_stderr :: "mock_calls \<Rightarrow> mock \<Rightarrow> mock" where
  "replace_stderr K st =
     (if \<not> isatty K st 2 then st
      else let st1 = fst (mockd_syslog K None st)
        in case replace_fd K 2 st1 of Some st2 \<Rightarrow> st2 | None \<Rightarrow> st1)"

definition intermediate :: "mock_calls \<Rightarrow> mock \<Rightarrow> mock option" where
  "intermediate K st =
     (case replace_fd K 0 st of
        None \<Rightarrow> None
      | Some st1 \<Rightarrow>
          (case replace_fd K 1 st1 of
             None \<Rightarrow> None
           | Some st2 \<Rightarrow>
               let st3 = replace_stderr K st2
               in if \<not> mk_setsid K then None
                  else let st4 = st3\<lparr> md_session := md_pid st3 \<rparr>; pid = mk_fork K (md_pid st4)
                    in if pid < 0 then None
                       else Some (st4\<lparr> md_pid := pid, md_left := md_left st4 @ [(md_pid st4, 0)] \<rparr>)))"

definition mockd_daemon :: "mock_calls \<Rightarrow> string option \<Rightarrow> mock \<Rightarrow> mock \<times> mock_result" where
  "mockd_daemon K arg st =
     (if arg \<noteq> None then (st, Done (- 1))
      else let pid = mk_fork K (md_pid st)
        in if pid < 0 then (st, Ended (Exited EXIT_FAILURE))
           else let waits = \<lambda>code. st\<lparr> md_pid := pid, md_left := md_left st @ [(md_pid st, exited_status code mod 256)] \<rparr>
             in case intermediate K (waits 0) of
                  None \<Rightarrow> (waits EXIT_FAILURE, Ended (Exited EXIT_FAILURE))
                | Some st' \<Rightarrow> (st', Done 0))"

definition mockd_action :: "mock_calls \<Rightarrow> string \<Rightarrow> string option \<Rightarrow> mock \<Rightarrow> mock \<times> mock_result" where
  "mockd_action K name arg st =
     (if name = ''block'' then mockd_block K arg st
      else if name = ''daemon'' then mockd_daemon K arg st
      else if name = ''exit'' then mockd_exit K arg st
      else if name = ''pidfile'' then mockd_pidfile K arg st
      else if name = ''raise'' then mockd_raise K arg st
      else if name = ''sleep'' then mockd_sleep K arg st
      else if name = ''syslog'' then mockd_syslog K arg st
      else (st, Done (- 1)))"

text \<open>An operand is an action, with a parameter behind the first colon.\<close>

definition action_parts :: "string \<Rightarrow> string \<times> string option" where
  "action_parts s =
     (takeWhile (\<lambda>c. c \<noteq> CHR '':'') s, case dropWhile (\<lambda>c. c \<noteq> CHR '':'') s of [] \<Rightarrow> None | _ # arg \<Rightarrow> Some arg)"

section \<open>The program\<close>

fun mockd :: "mock_calls \<Rightarrow> string list \<Rightarrow> mock \<Rightarrow> mock \<times> mock_result" where
  "mockd K [] st = (st, Done 0)"
| "mockd K (s # ss) st =
     (let (name, arg) = action_parts s
      in case mockd_action K name arg st of
           (st1, Done res) \<Rightarrow> if res \<noteq> 0 then (st1, Done 0) else mockd K ss st1
         | (st1, Ended e) \<Rightarrow> (st1, Ended e))"

text \<open>The noise level of the options, or \<open>None\<close> for \<^verbatim>\<open>usage\<close>.\<close>

fun mockd_options :: "opt list \<Rightarrow> int \<Rightarrow> int option" where
  "mockd_options [] noisy = Some noisy"
| "mockd_options (Opt c optarg # os) noisy =
     (if c = CHR ''d'' then mockd_options os DEBUG else if c = CHR ''v'' then mockd_options os VERBOSE else None)"
| "mockd_options (b # os) noisy = None"

definition mockd_main :: "mock_calls \<Rightarrow> string list \<Rightarrow> mock \<Rightarrow> mock \<times> mock_result" where
  "mockd_main K args st =
     (let (os, rest) = getopt_long (short_options ''dv'') [] args
      in if mockd_options os NORMAL = None \<or> rest = [] then exit_process K EX_USAGE st
         else case mockd K rest st of
                (st1, Done res) \<Rightarrow> exit_process K (if res \<noteq> 0 then EXIT_FAILURE else EXIT_SUCCESS) st1
              | (st1, Ended e) \<Rightarrow> (st1, Ended e))"

section \<open>Properties\<close>

lemma action_parts_eq: "action_parts s = (name, arg) \<Longrightarrow> s = (case arg of None \<Rightarrow> name | Some a \<Rightarrow> name @ '':'' @ a)"
proof -
  assume "action_parts s = (name, arg)"
  then have p: "name = takeWhile (\<lambda>c. c \<noteq> CHR '':'') s"
      "arg = (case dropWhile (\<lambda>c. c \<noteq> CHR '':'') s of [] \<Rightarrow> None | _ # arg \<Rightarrow> Some arg)" by (simp_all add: action_parts_def)
  show ?thesis
  proof (cases "dropWhile (\<lambda>c. c \<noteq> CHR '':'') s")
    case Nil
    have "arg = None" using p(2) unfolding Nil by simp
    moreover have "name = s" using takeWhile_dropWhile_id [of "\<lambda>c. c \<noteq> CHR '':''" s] unfolding Nil p(1) append_Nil2 .
    ultimately show ?thesis by simp
  next
    case (Cons c cs)
    then have "c = CHR '':''" using hd_dropWhile [of "\<lambda>c. c \<noteq> CHR '':''" s] by simp
    then show ?thesis using Cons p takeWhile_dropWhile_id [of "\<lambda>c. c \<noteq> CHR '':''" s] by simp
  qed
qed

lemma rmpidfile_left: "md_left ((rmpidfile K ^^ n) st) = md_left st"
  by (induction n) (simp_all add: rmpidfile_def split: option.split)

lemma replace_left:
  "replace_fd K fd st = Some st' \<Longrightarrow> md_left st' = md_left st \<and> md_pid st' = md_pid st"
  "md_left (replace_stderr K st) = md_left st" "md_pid (replace_stderr K st) = md_pid st"
  by (auto simp: replace_fd_def replace_stderr_def mockd_syslog_def Let_def split: if_splits option.split)

lemma intermediate_left: "intermediate K st = Some st' \<Longrightarrow> md_left st' = md_left st @ [(md_pid st, 0)]"
  by (auto simp: intermediate_def Let_def replace_left dest!: replace_left(1) split: option.splits if_splits)

text \<open>What an action does to the processes: a daemon leaves the process that runs behind, with exit status 0.\<close>

lemma action_left:
  assumes "mockd_action K name arg st = (st', r)"
  shows "md_left st' = md_left st \<and> (\<forall>n. r = Done n \<longrightarrow> md_pid st' = md_pid st) \<and>
      (\<forall>c. r = Ended (Exited c) \<longrightarrow> name = ''exit'' \<and> optional_argnum EXIT_SUCCESS arg 0 255 = Inr c \<or>
         name = ''daemon'' \<and> arg = None \<and> c = EXIT_FAILURE \<and> mk_fork K (md_pid st) < 0) \<or>
    (\<exists>xs. md_left st' = md_left st @ (md_pid st, 0) # xs)"
proof (cases "name = ''daemon''")
  case True
  then show ?thesis
    using assms by (auto simp: mockd_action_def mockd_daemon_def Let_def exited_status_def EXIT_FAILURE_def
      dest!: intermediate_left split: if_splits option.splits)
next
  case False
  then show ?thesis
    using assms
    by (auto simp: mockd_action_def mockd_block_def mockd_exit_def exit_process_def rmpidfile_left mockd_pidfile_def mockd_raise_def
      mockd_sleep_def mockd_syslog_def Let_def split: if_splits option.splits sum.splits)
qed

lemma mockd_left: "mockd K ss st = (st', r) \<Longrightarrow> \<exists>xs. md_left st' = md_left st @ xs"
proof (induction K ss st arbitrary: st' r rule: mockd.induct)
  case (2 K s ss st)
  obtain name arg where parts: "action_parts s = (name, arg)" by fastforce
  obtain st1 r1 where act: "mockd_action K name arg st = (st1, r1)" by fastforce
  obtain xs where "md_left st1 = md_left st @ xs" using action_left [OF act] by auto
  then show ?case
    using "2.prems" "2.IH" [OF parts [symmetric]] parts act by (fastforce split: mock_result.splits if_splits)
qed simp

lemma mockd_ends:
  assumes "mockd K ss st = (st', r)" and "md_left st = []"
  shows "if md_left st' = [] then
      (\<forall>n. r = Done n \<longrightarrow> n = 0) \<and>
      (\<forall>c. r = Ended (Exited c) \<longrightarrow> c = 0 \<or> (\<exists>s. ''exit:'' @ s \<in> set ss \<and> argnum (Some s) 0 255 = Inr c) \<or>
         c = EXIT_FAILURE \<and> ''daemon'' \<in> set ss \<and> mk_fork K (md_pid st) < 0)
    else snd (hd (md_left st')) = 0"
  using assms
proof (induction K ss st arbitrary: st' r rule: mockd.induct)
  case (2 K s ss st)
  obtain name arg where parts: "action_parts s = (name, arg)" by fastforce
  obtain st1 r1 where act: "mockd_action K name arg st = (st1, r1)" by fastforce
  show ?case
  proof (cases "md_left st1 = []")
    case True
    have ends: "\<forall>n. r1 = Done n \<longrightarrow> md_pid st1 = md_pid st"
        "\<And>c. r1 = Ended (Exited c) \<Longrightarrow> name = ''exit'' \<and> optional_argnum EXIT_SUCCESS arg 0 255 = Inr c \<or>
         name = ''daemon'' \<and> arg = None \<and> c = EXIT_FAILURE \<and> mk_fork K (md_pid st) < 0"
      using action_left [OF act] True by auto
    show ?thesis
    proof (cases r1)
      case (Done n)
      show ?thesis
      proof (cases "n = 0")
        case True
        then have run: "mockd K ss st1 = (st', r)" using "2.prems"(1) parts act Done by simp
        have pid: "md_pid st1 = md_pid st" using ends(1) Done by simp
        from "2.IH" [OF parts [symmetric] refl act [symmetric] Done _ run \<open>md_left st1 = []\<close>] True pid show ?thesis by auto
      next
        case False
        then have "st' = st1" "r = Done 0" using "2.prems"(1) parts act Done by simp_all
        then show ?thesis using \<open>md_left st1 = []\<close> by simp
      qed
    next
      case (Ended e)
      then have st': "st' = st1" "r = Ended e" using "2.prems"(1) parts act by simp_all
      have "c = 0 \<or> (\<exists>a. ''exit:'' @ a \<in> set (s # ss) \<and> argnum (Some a) 0 255 = Inr c) \<or>
          c = EXIT_FAILURE \<and> ''daemon'' \<in> set (s # ss) \<and> mk_fork K (md_pid st) < 0" if "e = Exited c" for c
        using ends(2) [of c] action_parts_eq [OF parts] Ended that
        by (cases arg) (auto simp: optional_argnum_def EXIT_SUCCESS_def)
      then show ?thesis using st' True by simp
    qed
  next
    case False
    then obtain xs where xs: "md_left st1 = (md_pid st, 0) # xs" using action_left [OF act] "2.prems"(2) by auto
    have "\<exists>ys. md_left st' = md_left st1 @ ys"
    proof (cases "r1 = Done 0")
      case True
      then have "mockd K ss st1 = (st', r)" using "2.prems"(1) parts act by simp
      then show ?thesis by (rule mockd_left)
    next
      case False
      then have "st' = st1" using "2.prems"(1) parts act by (auto split: mock_result.splits if_splits)
      then show ?thesis by simp
    qed
    then show ?thesis using xs by auto
  qed
qed simp

text \<open>How the process that was started ends.\<close>

definition started_end :: "mock \<times> mock_result \<Rightarrow> mock_result" where
  "started_end res = (case md_left (fst res) of [] \<Rightarrow> snd res | (pid, status) # ps \<Rightarrow> Ended (Exited status))"



definition example_mock :: mock_calls where
  "example_mock =
     \<lparr> mk_PIDFILE = None, mk_open = \<lambda>path. True, mk_write = \<lambda>path. True, mk_unlink = \<lambda>path. True, mk_poll = \<lambda>t. if t < 0 then None else Some EOK,
       mk_block = True, mk_ignored = \<lambda>signo. False, mk_fork = \<lambda>pid. pid + 1, mk_terminal = \<lambda>fd. True, mk_reopen = \<lambda>fd. True,
       mk_setsid = True, mk_name = ''mockd'' \<rparr>"

definition initial_mock :: mock where
  "initial_mock =
     \<lparr> md_pidfile = None, md_syslog = None, md_atexit = 0, md_blocked = [], md_pid = 7, md_session = 1, md_null = [], md_files = Map.empty,
       md_left = [] \<rparr>"


lemma replace_fd_iff: "replace_fd K fd st \<noteq> None \<longleftrightarrow> (isatty K st fd \<longrightarrow> mk_reopen K fd)"
  by (simp add: replace_fd_def)

lemma replace_fd_state:
  assumes "replace_fd K fd st = Some st'"
  shows "\<not> isatty K st' fd \<and> md_pid st' = md_pid st \<and> (\<forall>fd'. fd' \<noteq> fd \<longrightarrow> isatty K st' fd' = isatty K st fd')"
  using assms by (auto simp: replace_fd_def isatty_def split: if_splits)

lemma replace_stderr_state:
  "isatty K (replace_stderr K st) fd \<longleftrightarrow> isatty K st fd \<and> (fd = 2 \<longrightarrow> \<not> mk_reopen K 2)"
  by (auto simp: replace_stderr_def replace_fd_def isatty_def mockd_syslog_def Let_def split: option.split)

lemma below_two: "(\<forall>fd < (2 :: nat). P fd) \<longleftrightarrow> P 0 \<and> P 1"
  by (auto simp: less_2_cases_iff)

lemma below_three: "(\<forall>fd < (3 :: nat). P fd) \<longleftrightarrow> P 0 \<and> P 1 \<and> P 2"
  by (auto simp: numeral_3_eq_3 numeral_2_eq_2 less_Suc_eq)

lemma intermediate_iff:
  "intermediate K st \<noteq> None \<longleftrightarrow> (\<forall>fd < 2. isatty K st fd \<longrightarrow> mk_reopen K fd) \<and> mk_setsid K \<and> mk_fork K (md_pid st) \<ge> 0"
proof (cases "replace_fd K 0 st")
  case None
  then show ?thesis using replace_fd_iff [of K 0 st] by (auto simp: intermediate_def below_two)
next
  case (Some st1)
  note st1 = replace_fd_state [OF Some]
  show ?thesis
  proof (cases "replace_fd K 1 st1")
    case None
    then show ?thesis using Some st1 replace_fd_iff [of K 1 st1] by (auto simp: intermediate_def below_two)
  next
    case (Some st2)
    note st2 = replace_fd_state [OF Some]
    show ?thesis
      using Some \<open>replace_fd K 0 st = Some st1\<close> st1 st2 replace_fd_iff [of K 0 st] replace_fd_iff [of K 1 st1]
      by (simp add: intermediate_def below_two Let_def replace_left)
  qed
qed

lemma intermediate_state:
  assumes "intermediate K st = Some st'"
  shows "md_session st' = md_pid st \<and> md_pid st' = mk_fork K (md_pid st) \<and> md_left st' = md_left st @ [(md_pid st, 0)] \<and>
    (\<forall>fd < 3. isatty K st' fd \<longrightarrow> fd = 2 \<and> \<not> mk_reopen K 2)"
proof -
  obtain st1 st2 where s: "replace_fd K 0 st = Some st1" "replace_fd K 1 st1 = Some st2"
      "st' = (replace_stderr K st2)\<lparr> md_session := md_pid st2, md_pid := mk_fork K (md_pid st2), md_left := md_left st2 @ [(md_pid st2, 0)] \<rparr>"
    using assms by (auto simp: intermediate_def Let_def replace_left split: option.splits if_splits)
  have tty: "isatty K st' fd \<longleftrightarrow> isatty K (replace_stderr K st2) fd" for fd using s(3) by (simp add: isatty_def)
  have "\<not> isatty K st2 0" "\<not> isatty K st2 1" using replace_fd_state [OF s(1)] replace_fd_state [OF s(2)] by simp_all
  then have "\<forall>fd < 3. isatty K st' fd \<longrightarrow> fd = 2 \<and> \<not> mk_reopen K 2" by (simp add: tty replace_stderr_state below_three)
  moreover have "md_session st' = md_pid st" "md_pid st' = mk_fork K (md_pid st)" "md_left st' = md_left st @ [(md_pid st, 0)]"
    using s(3) replace_left(1) [OF s(1)] replace_left(1) [OF s(2)] by simp_all
  ultimately show ?thesis by blast
qed

text \<open>
  A \<^verbatim>\<open>daemon\<close> action whose calls succeed goes on in a new process, which is not the leader of its session and has no
  terminal as its standard input, output or error, and both processes before it have exited with status 0. It goes on
  in no other case, unless just standard error could not be replaced.
\<close>

theorem mockd_daemon_detached:
  assumes "mockd_daemon K None st = (st', r)" and "\<forall>pid. mk_fork K pid \<noteq> pid"
  shows "(r = Done 0 \<longrightarrow>
      md_pid st' = mk_fork K (md_session st') \<and> md_session st' = mk_fork K (md_pid st) \<and> md_session st' \<noteq> md_pid st' \<and>
      (\<forall>fd < 3. isatty K st' fd \<longrightarrow> fd = 2 \<and> \<not> mk_reopen K 2) \<and>
      md_left st' = md_left st @ [(md_pid st, 0), (md_session st', 0)]) \<and>
    (r = Done 0 \<longleftrightarrow>
      mk_fork K (md_pid st) \<ge> 0 \<and> mk_fork K (mk_fork K (md_pid st)) \<ge> 0 \<and> mk_setsid K \<and>
      (\<forall>fd < 2. isatty K st fd \<longrightarrow> mk_reopen K fd))"
proof -
  let ?st = "st\<lparr> md_pid := mk_fork K (md_pid st), md_left := md_left st @ [(md_pid st, 0)] \<rparr>"
  have "r = Done 0 \<longleftrightarrow> mk_fork K (md_pid st) \<ge> 0 \<and> intermediate K ?st \<noteq> None"
    and go: "r = Done 0 \<Longrightarrow> intermediate K ?st = Some st'"
    using assms(1) by (auto simp: mockd_daemon_def Let_def exited_status_def split: if_splits option.splits)
  moreover have "intermediate K ?st \<noteq> None \<longleftrightarrow> (\<forall>fd < 2. isatty K st fd \<longrightarrow> mk_reopen K fd) \<and> mk_setsid K \<and> mk_fork K (md_pid ?st) \<ge> 0"
    unfolding intermediate_iff by (simp add: isatty_def)
  ultimately show ?thesis using intermediate_state [OF go] spec [OF assms(2), of "mk_fork K (md_pid st)"] by auto
qed


theorem mockd_daemon_detached_witness:
  "\<exists>st'. mockd_daemon example_mock None initial_mock = (st', Done 0) \<and> md_pid st' = 9 \<and> md_session st' = 8 \<and>
     \<not> isatty example_mock st' 0 \<and> \<not> isatty example_mock st' 1 \<and> \<not> isatty example_mock st' 2"
proof -
  obtain st' r where run: "mockd_daemon example_mock None initial_mock = (st', r)" by fastforce
  have fork: "\<forall>pid. mk_fork example_mock pid \<noteq> pid" by (simp add: example_mock_def)
  have "r = Done 0" using mockd_daemon_detached [OF run fork] by (simp add: example_mock_def initial_mock_def)
  then show ?thesis
    using mockd_daemon_detached [OF run fork] run by (auto simp: example_mock_def initial_mock_def)
qed

text \<open>
  The timeout of a time span: it is rounded up to milliseconds, except that the last value that passes the check wraps
  around to a negative number, with which \<^verbatim>\<open>poll\<close> waits forever.
\<close>

lemma timeout_word:
  fixes ul :: u64
  assumes "uint ul \<le> 2147483647999"
  shows "sint (ucast ((ul + 999) div 1000) :: 32 word) = c_int ((uint ul + 999) div 1000)"
proof -
  have "uint (ul + 999) = uint ul + 999" using assms by (simp add: uint_word_ariths)
  then have "uint ((ul + 999) div 1000) = (uint ul + 999) div 1000" by (simp add: uint_div)
  then have "(ucast ((ul + 999) div 1000) :: 32 word) = word_of_int ((uint ul + 999) div 1000)" by (metis ucast_eq)
  then show ?thesis by (simp add: c_int_def)
qed

lemma sleep_timeout_span:
  assumes "fst (timespan_from_str EOK s) = ul" and "s \<noteq> ''forever''" and "uint ul \<le> 2147483647999"
  shows "sleep_timeout (Some s) = Some (c_int ((uint ul + 999) div 1000))"
proof -
  have "uint TS_INVALID = 18446744073709551615" by (simp add: TS_INVALID_def uint_word_ariths)
  then have "ul \<noteq> TS_INVALID" using assms(3) by auto
  moreover have "\<not> ul div 1000 > 0x7FFFFFFF" using assms(3) by (simp add: word_less_def uint_div)
  ultimately show ?thesis
    using assms(1,2) timeout_word [OF assms(3)] unfolding sleep_timeout_def by (simp only: option.case if_False Let_def)
qed

lemma sleep_timeout_rounds:
  assumes "fst (timespan_from_str EOK s) = ul" and "s \<noteq> ''forever''" and "uint ul \<le> 2147483647000"
  shows "sleep_timeout (Some s) = Some ((uint ul + 999) div 1000)"
proof -
  have "uint ul \<ge> 0" by simp
  then have "0 \<le> (uint ul + 999) div 1000" "(uint ul + 999) div 1000 < 2147483648" using assms(3) by linarith+
  then show ?thesis using sleep_timeout_span [OF assms(1,2)] assms(3) c_int_small by simp
qed

lemma sleep_timeout_wraps:
  assumes "fst (timespan_from_str EOK s) = ul" and "s \<noteq> ''forever''" and "uint ul > 2147483647000" and "uint ul \<le> 2147483647999"
  shows "sleep_timeout (Some s) = Some (- 2147483648)"
proof -
  have "(uint ul + 999) div 1000 = 2147483648" using assms(3,4) by linarith
  moreover have "c_int 2147483648 = - 2147483648" by (simp add: c_int_def)
  ultimately show ?thesis using sleep_timeout_span [OF assms(1,2,4)] by simp
qed

end
