(* ===== verification/Spec2Isabelle.thy ===== *)
theory Spec2Isabelle
  imports Timespan Environment Sysvinit Monitor_Watch Systemctl Sysvrun Mockd
begin

text \<open>
  A verification development for sysvkit, which runs systemd services on a system with System V init. All paths below
  are relative to the repository.

  \<^bold>\<open>The programs.\<close> \<^verbatim>\<open>sysvrun\<close> (\<^verbatim>\<open>src/sysvrun\<close>) reads a unit file, or an init script with an embedded unit file, and
  converts, starts, stops, reloads or queries the service. To start it, it leaves a daemon behind, the monitor, which
  starts the command of the service, follows all processes that come from it by the process events of the kernel,
  restarts the service by its policy, and listens on a control socket. Later runs of \<^verbatim>\<open>sysvrun\<close> talk to the monitor
  through that socket. \<^verbatim>\<open>systemctl\<close> (\<^verbatim>\<open>src/systemctl\<close>) runs init scripts and edits the links of the runlevels.
  \<^verbatim>\<open>mockd\<close> (\<^verbatim>\<open>src/mockd\<close>) is a daemon for tests. They share \<^verbatim>\<open>src/common\<close> and \<^verbatim>\<open>include\<close>.

  \<^bold>\<open>How code is modelled.\<close> A function is a HOL function of the same name; a structure is a record; an enumeration is a
  datatype. A NUL-terminated string is a \<^typ>\<open>string\<close>; \<^verbatim>\<open>usec_t\<close> and \<^verbatim>\<open>unsigned long\<close> are 64-bit words, and wrap-around
  is kept. Errors are values: the \<^verbatim>\<open>errno\<close> codes are a datatype, and a function that fails returns one. A use of freed
  memory is the value \<open>UB\<close> of the type \<open>outcome\<close>, so that a theorem that a result is \<open>Defined\<close> says that no such use
  occurs. Results of system calls are arguments, collected in records of calls, and theorems hold for all of them
  unless they say otherwise. The hash tables of the library \<^verbatim>\<open>fsdyn\<close>, which is not part of the repository, are an
  argument too; what is assumed of them is the locale \<open>hash_table\<close> of \<open>Fsdyn\<close>, which association lists are shown to
  satisfy. A list of that library is a HOL list.

  \<^bold>\<open>The theories\<close>, with the files that they model.
  \<^item> \<open>Sysv_Prelude\<close>: errors, outcomes, characters, numbers as the C library reads and prints them. \<open>Fsdyn\<close>: the hash
    tables. \<open>Getopt\<close>: the functions \<^verbatim>\<open>getopt\<close> and \<^verbatim>\<open>getopt_long\<close> of the C library.
  \<^item> \<open>Strlist\<close> (\<^verbatim>\<open>strlist.c\<close>, \<^verbatim>\<open>strbool.c\<close>, \<^verbatim>\<open>pair.c\<close>): splitting and joining are inverse, duplicates, the layout of
    argument vectors. The locale \<open>word_table\<close> is its use of a table.
  \<^item> \<open>Timespan\<close> (\<^verbatim>\<open>timespan.c\<close>, \<^verbatim>\<open>clock.c\<close>, \<^verbatim>\<open>clock.h\<close>, \<^verbatim>\<open>timespan.h\<close>): time spans are read as the sum of their
    terms, and printed ones are read back; where arithmetic wraps.
  \<^item> \<open>Environment\<close> (\<^verbatim>\<open>environment.c\<close>): environments are maps from names to values; locale \<open>env_table\<close>.
  \<^item> \<open>Unit_File\<close> (\<^verbatim>\<open>unit.c\<close>): units refine maps from sections and keys to values; locales \<open>value_store\<close> and
    \<open>unit_tables\<close>, the second being a case of the first.
  \<^item> \<open>Text\<close> (\<^verbatim>\<open>text.c\<close>): lines and words of a buffer; every read is inside it, and the lines partition it.
  \<^item> \<open>Systemd\<close> (\<^verbatim>\<open>systemd.c\<close>): quoted words, and the parser of unit files, which is shown to read a file line by line
    and to read back what a unit prints.
  \<^item> \<open>Service\<close> and \<open>Sysvinit\<close> (\<^verbatim>\<open>service.c\<close>, first half, and \<^verbatim>\<open>sysvinit.c\<close>): settings of a service, the init script
    written for it, which appears under its name only when it is complete, and reading it back; locale \<open>name_table\<close>.
  \<^item> \<open>Procwatch\<close> and \<open>Process_Table\<close> (\<^verbatim>\<open>procwatch.c\<close>): the table of processes on an explicit heap with its pointers,
    the table without pointers that specifies it, and the simulation: every event has the specified effect, and no
    reachable state leads to a use of freed memory; locale \<open>proc_table\<close>.
  \<^item> \<open>Connector\<close> (\<^verbatim>\<open>cn_proc.c\<close>): the netlink messages, and that listening is given up as often as it was asked for.
  \<^item> \<open>Noise\<close> (\<^verbatim>\<open>noise.c\<close>, \<^verbatim>\<open>proctitle.c\<close>): levels, log lines, and the process title in its memory.
  \<^item> \<open>Control\<close> (\<^verbatim>\<open>monitor.c\<close>): the states, the sessions on the control socket and the client; what a client asks is what
    the monitor answers, only privileged clients change anything, and waiting ends.
  \<^item> \<open>Monitor\<close> and \<open>Monitor_Watch\<close> (\<^verbatim>\<open>monitor.c\<close>): the loops of the monitor as steps on its state; signals of a stop
    order, the end of the watch, the start limit, the restart decision, the safe use of the process table.
  \<^item> \<open>Fork\<close> (\<^verbatim>\<open>fork.c\<close>): descriptors and reports of a child or daemon, and what the parent makes of them.
  \<^item> \<open>Command\<close> (\<^verbatim>\<open>command.c\<close>): the environment, path, credentials and PID file of a command, and the order of calls that
    executes it; locale \<open>command_tables\<close>, which joins \<open>env_table\<close> and \<open>word_table\<close>.
  \<^item> \<open>Service_Control\<close> (\<^verbatim>\<open>service.c\<close>, second half, and \<^verbatim>\<open>command_monitor\<close>): starting with prerequisites, stopping by
    three plans, reloading, restarting, status and control.
  \<^item> \<open>Sysvrun\<close> (\<^verbatim>\<open>sysvrun.c\<close>): options and dispatch; here the pieces above are put together into the world that the
    functions of \<open>Service_Control\<close> work in.
  \<^item> \<open>Runlevels\<close> and \<open>Systemctl\<close> (\<^verbatim>\<open>src/systemctl\<close>): enabling and disabling as changes of the directories of links, and
    the commands of the program over init scripts that are an argument.
  \<^item> \<open>Mockd\<close> (\<^verbatim>\<open>mockd.c\<close>): the actions of the mock daemon.

  \<^bold>\<open>Across the programs\<close>, in this theory: \<open>sysvrun_start_runs\<close> follows \<^verbatim>\<open>sysvrun\<close> from its arguments through the unit files,
  the commands and their environments to the monitors, and has as its instance a system with two unit files, one of
  which requires the other; \<open>pid_file_reaches_daemon\<close> connects what \<^verbatim>\<open>mockd\<close> writes with what \<^verbatim>\<open>sysvrun\<close> signals.

  \<^bold>\<open>Bounds and fuel.\<close> Loops over lists and strings are recursive functions with a termination proof. The recursion over
  the children of a process to be dropped has as fuel twice the number of processes in the table and 2, one for each
  call and one for each list of children, and is shown to need no more in a table that satisfies the invariant (\<open>process_drop_returns\<close>). The loops of the monitor get one record of
  results per turn, so that the list of these is the fuel; that a stop order ends the watch is proved for every list
  that has three turns beyond the timeout in it. Waiting for a state is bounded by a number of polls: one for every 500
  milliseconds of the timeout and one more end it (\<open>control_wait_returns\<close>). \<open>service_start\<close> has the depth of calls as fuel: without
  circles of requirements a depth beyond the rank of the service is enough (\<open>service_start_requirements\<close>), with a
  circle no depth is (\<open>service_start_circle\<close>). \<open>service_control\<close> has the number of requests as fuel.

  \<^bold>\<open>Hypotheses\<close> on what is outside: \<open>hash_table\<close> for the tables; \<open>lsb\<close> in \<open>Systemctl\<close>, that init scripts start and stop
  their services and report it; \<open>responds\<close> in \<open>Service_Control\<close>, that the monitor of an installed service answers with
  its state and that starting one makes it run; in \<open>Runlevels\<close>, that a directory lists each name once, that its links are not
  dangling and that removing and creating links succeeds. Each theorem with such a hypothesis comes with an instance that satisfies it.

  \<^bold>\<open>Not modelled.\<close> Deallocation, where nothing depends on it, and clean-up at exit. The text of messages to the log and to
  standard error, with the functions that do nothing else: \<^verbatim>\<open>process_dump\<close>, \<^verbatim>\<open>report_proc_execve\<close>, \<^verbatim>\<open>command_verbose\<close>,
  \<^verbatim>\<open>monitor_log_to_file\<close> and \<^verbatim>\<open>monitor_log_setup\<close>. The set-up of pipes and of the process title in \<^verbatim>\<open>monitor_func\<close>, which
  has no part in its decisions. \<^verbatim>\<open>service_child\<close> of \<^verbatim>\<open>systemctl\<close>, which redirects descriptors and executes the script.
  \<^verbatim>\<open>sysvinit_create_init_script\<close>, which is not called. Concurrency between processes is present as far as its results
  reach the code: as arbitrary results of the system calls. The shell and build scripts are not part of the programs.
\<close>

section \<open>Properties that span the programs\<close>

text \<open>
  The way of \<^verbatim>\<open>sysvrun\<close> from its arguments to a function on services: with no options, the service that is found under
  the first operand is handed to the command of the second.
\<close>

lemma run_main_operands:
  assumes "operand name" and "operand verb" and "getenv ''SYSVKIT_NOISE'' = None" and "setup_environment H getenv = Defined env"
    and "service_find Hs Hp Hd (os_stat X) (os_file X) '''' name EOK = Defined (Some svc, e)"
  shows "run_main n Hs Hp H Hd getenv exe X arg0 [name, verb] w =
    sysvrun n Hs Hp X (sysvrun_world Hs Hp H Hd (initial_options env) (snd (snd (setup_self Hd exe arg0 ''''))) X)
      (fst (setup_self Hd exe arg0 '''')) None svc verb w"
proof -
  have args: "getopt_long shorts longs [name, verb] = ([], [name, verb])" for shorts longs
    using assms(1,2) by (intro getopt_operands) simp
  have opts: "op_output (initial_options env) = None" "op_unit_file (initial_options env) = None" "op_root (initial_options env) = ''''"
      "op_noisy (initial_options env) = NORMAL" by (simp_all add: initial_options_def)
  have noise: "fst (noise_override None None NORMAL) = 0" by (simp add: noise_override_def)
  have "run_main n Hs Hp H Hd getenv exe X arg0 [name, verb] w =
      run_command n Hs Hp H Hd None (setup_self Hd exe arg0 (op_root (initial_options env))) (initial_options env) X name verb w"
    unfolding run_main_def args using assms(3,4) by (simp add: act_Return)
  also have "\<dots> = sysvrun n Hs Hp X (sysvrun_world Hs Hp H Hd (initial_options env) (snd (snd (setup_self Hd exe arg0 ''''))) X)
      (fst (setup_self Hd exe arg0 '''')) None svc verb w"
    unfolding run_command_def named_service_def opts using noise assms(5) by (simp add: act_Return)
  finally show ?thesis .
qed


text \<open>The mock daemon with three actions that end in sleep.\<close>

lemma mockd_sleeping_daemon:
  assumes "mockd K [''daemon'', ''pidfile:'' @ path, ''sleep''] st = (st', r)" and "r \<noteq> Done 0" and "\<forall>c. r \<noteq> Ended (Exited c)"
  shows "md_files st' path = Some (decimal (nat (md_pid st')) @ [NL])"
proof -
  obtain st1 r1 where 1: "mockd_daemon K None st = (st1, r1)" by fastforce
  obtain st2 r2 where 2: "mockd_pidfile K (Some path) st1 = (st2, r2)" by fastforce
  have parts: "action_parts ''daemon'' = (''daemon'', None)" "action_parts ''sleep'' = (''sleep'', None)"
      "action_parts (''pidfile:'' @ path) = (''pidfile'', Some path)" by (simp_all add: action_parts_def)
  have daemon: "mockd K (''daemon'' # ss) st =
      (case r1 of Done res \<Rightarrow> if res \<noteq> 0 then (st1, Done 0) else mockd K ss st1 | Ended e \<Rightarrow> (st1, Ended e))" for ss
    unfolding mockd.simps parts using 1 by (simp add: mockd_action_def)
  have pidfile: "mockd K ((''pidfile:'' @ path) # ss) st1 =
      (case r2 of Done res \<Rightarrow> if res \<noteq> 0 then (st2, Done 0) else mockd K ss st2 | Ended e \<Rightarrow> (st2, Ended e))" for ss
    unfolding mockd.simps parts using 2 by (simp add: mockd_action_def)
  have sleep: "mockd K [''sleep''] st2 = (st2, r') \<or> r' = Done 0" if "mockd K [''sleep''] st2 = (st3, r')" for st3 r'
    using that unfolding mockd.simps parts
    by (auto simp: mockd_action_def mockd_sleep_def split: option.splits if_splits)
  have "r1 = Done 0" using 1 assms daemon by (auto simp: mockd_daemon_def Let_def split: if_splits option.splits)
  then have run: "mockd K [''pidfile:'' @ path, ''sleep''] st1 = (st', r)" using assms(1) daemon by simp
  moreover have "r2 = Done 0" using 2 run assms(2) pidfile by (auto simp: mockd_pidfile_def Let_def split: if_splits)
  ultimately have "mockd K [''sleep''] st2 = (st', r)" using pidfile by simp
  then have "st' = st2" using sleep assms(2) by fastforce
  then show ?thesis using 2 \<open>r2 = Done 0\<close> by (auto simp: mockd_pidfile_def Let_def split: if_splits)
qed

text \<open>
  C35. The PID file leads to the daemon: if the mock daemon has made itself a daemon, written its PID file and sleeps,
  then a command with that PID file signals exactly the process that sleeps, and not one that has been left behind.
\<close>

theorem pid_file_reaches_daemon:
  assumes "mockd_main K [''daemon'', ''pidfile:'' @ path, ''sleep''] st = (st', Ended Asleep)"
    and "0 < md_pid st'" and "md_pid st' < 2 ^ 31" and "md_files st' path = Some content"
    and "cmd_pidfile cmd = Some path" and "kc_file k = Inr (content @ [NUL], range_text 0 (length content))"
    and "kc_kill k (md_pid st') SIGTERM = None"
  shows "command_kill k cmd SIGTERM = (None, [(md_pid st', SIGTERM), (md_pid st', SIGCONT)])"
proof -
  have args: "getopt_long shorts longs [''daemon'', ''pidfile:'' @ path, ''sleep''] = ([], [''daemon'', ''pidfile:'' @ path, ''sleep''])" for shorts longs
    by (intro getopt_operands) (simp add: operand_def)
  obtain st1 r where run: "mockd K [''daemon'', ''pidfile:'' @ path, ''sleep''] st = (st1, r)" by fastforce
  have main: "(case r of Done res \<Rightarrow> exit_process K (if res \<noteq> 0 then EXIT_FAILURE else EXIT_SUCCESS) st1 | Ended e \<Rightarrow> (st1, Ended e)) =
      (st', Ended Asleep)"
    using assms(1) unfolding mockd_main_def args Let_def prod.case run mockd_options.simps by (simp only: option.distinct list.distinct if_False simp_thms prod.case)
  then have r: "r = Ended Asleep" "st' = st1" by (auto simp: exit_process_def split: mock_result.splits)
  let ?n = "nat (md_pid st')"
  have "content = decimal ?n @ [NL]" using mockd_sleeping_daemon [OF run] r assms(4) by simp
  then have holds: "kc_file k = Inr (pid_file ?n)" using assms(6) by (simp add: pid_file_def)
  have "?n < 2 ^ 63" "?n < 2 ^ 31" "int ?n = md_pid st'" using assms(2,3) by auto
  then have "command_getpid (kc_file k) cmd = (md_pid st', EINVAL)" "pid_of_long (md_pid st') = md_pid st'"
    using getpid_file [of cmd ?n] pid_of_small [of ?n] assms(5) holds by simp_all
  then show ?thesis
    using assms(2,5,7) by (simp add: command_kill_def command_kill_impl_def send_signal_def Let_def SIGTERM_def SIGCONT_def)
qed
theorem pid_file_reaches_daemon_witness:
  "md_pid (fst (mockd_main example_mock [''daemon'', ''pidfile:/p'', ''sleep''] initial_mock)) = 9 \<and>
   command_kill (example_kill\<lparr> kc_file := Inr (''9'' @ [NL, NUL], range_text 0 2), kc_kill := \<lambda>pid signo. None \<rparr>)
     (example_command\<lparr> cmd_pidfile := Some ''/p'' \<rparr>) SIGTERM = (None, [(9, SIGTERM), (9, SIGCONT)])"
proof -
  obtain st' r where run: "mockd_main example_mock [''daemon'', ''pidfile:/p'', ''sleep''] initial_mock = (st', r)" by fastforce
  have "snd (mockd_main example_mock [''daemon'', ''pidfile:/p'', ''sleep''] initial_mock) = Ended Asleep"
      "md_pid (fst (mockd_main example_mock [''daemon'', ''pidfile:/p'', ''sleep''] initial_mock)) = 9"
      "md_files (fst (mockd_main example_mock [''daemon'', ''pidfile:/p'', ''sleep''] initial_mock)) ''/p'' = Some (''9'' @ [NL])"
    by code_simp+
  then have st': "r = Ended Asleep" "md_pid st' = 9" "md_files st' ''/p'' = Some (''9'' @ [NL])" using run by simp_all
  from pid_file_reaches_daemon [of example_mock "''/p''" initial_mock st' "''9'' @ [NL]" "example_command\<lparr> cmd_pidfile := Some ''/p'' \<rparr>"
      "example_kill\<lparr> kc_file := Inr (''9'' @ [NL, NUL], range_text 0 2), kc_kill := \<lambda>pid signo. None \<rparr>"]
  show ?thesis using run st' by (simp add: numeral_2_eq_2)
qed

section \<open>A system with two services\<close>

definition unit_text :: "string \<Rightarrow> string" where
  "unit_text name =
     (if name = ''web'' then ''[Unit]'' @ [NL] @ ''Requires=db.service'' @ [NL] else []) @ ''[Service]'' @ [NL] @ ''ExecStart=/bin/'' @ name @ [NL]"

definition unit_values :: "string \<Rightarrow> string \<Rightarrow> string \<Rightarrow> string option" where
  "unit_values name =
     kv_updates (\<lambda>s k. None)
       ((if name = ''web'' then [(''Unit'', ''Requires'', ''db.service'', True)] else []) @ [(''Service'', ''ExecStart'', ''/bin/'' @ name, True)])"

definition unit_path :: "string \<Rightarrow> string" where
  "unit_path name = ''/etc/systemd/system/'' @ name @ ''.service''"

definition two_services :: "((string \<times> pair) list, string list) outside" where
  "two_services = no_services\<lparr>
     os_stat := \<lambda>path. if path = unit_path ''web'' \<or> path = unit_path ''db'' then EOK else ENOENT,
     os_file := \<lambda>path.
       let file = (\<lambda>name. Inr (unit_text name @ [NUL], text_create 0 (length (unit_text name))))
       in if path = unit_path ''web'' then file ''web'' else if path = unit_path ''db'' then file ''db'' else Inl ENOENT,
     os_client := \<lambda>name w. (if name \<in> set w then example_client else example_client\<lparr> c_connect := Some ECONNREFUSED \<rparr>, w),
     os_monitor := \<lambda>name cmd w. (example_run_calls, \<lambda>pid. Some 0, \<lparr> b_ready = True, b_return = None \<rparr>, name # w) \<rparr>"

lemma units_parsed:
  assumes "name \<in> {''web'', ''db''}"
  obtains u where "systemd_parse_unit_file alist_ops alist_ops name (unit_text name @ [NUL]) (text_create 0 (length (unit_text name))) = Defined (Inr u)"
    "unit_get_value alist_ops alist_ops u = unit_values name"
proof -
  let ?doc = "(if name = ''web'' then [Header ''Unit'', Assign ''Requires'' [] [] ''db.service'' []] else []) @
    [Header ''Service'', Assign ''ExecStart'' [] [] (''/bin/'' @ name) []]"
  have ok: "\<forall>l \<in> set ?doc. line_ok l" "sections_ok [] ?doc" "unit_text name = concat (map line_text ?doc)"
      "unit_values name = kv_updates (\<lambda>s k. None) (doc_updates [] ?doc)"
    using assms
    by (auto simp: unit_text_def unit_values_def value_text_def unlines_def value_ok_def cont_ok_def value_logical_def
        issectionname_def iskey_def isvalue_def ctype_simps Let_def simp del: kv_updates.simps)
  show ?thesis
    using unit_tables.parse_document [OF unit_tablesI [OF alist_table.hash_table_axioms alist_table.hash_table_axioms] ok(1-3), of name "[]" "[NUL]"]
      that ok(4) by auto
qed
lemma two_services_found:
  assumes "name \<in> {''web'', ''db''}"
  obtains svc e where "service_find alist_ops alist_ops alist_ops (os_stat two_services) (os_file two_services) '''' name EOK = Defined (Some svc, e)"
    "svc_name svc = name" "svc_required (svc_settings svc) = (if name = ''web'' then [''db''] else [])"
    "unit_get_value alist_ops alist_ops (svc_unit svc) = unit_values name"
proof -
  obtain u where u: "systemd_parse_unit_file alist_ops alist_ops name (unit_text name @ [NUL]) (text_create 0 (length (unit_text name))) = Defined (Inr u)"
      "unit_get_value alist_ops alist_ops u = unit_values name"
    using units_parsed [OF assms] .
  have valid: "settings_valid (unit_values name)" "svc_required (settings_of (unit_values name)) = (if name = ''web'' then [''db''] else [])"
      "snd (deservicify name) = name"
    using assms by (auto simp: unit_values_def) code_simp+
  obtain e where e: "service_from_unit_file alist_ops alist_ops alist_ops name (unit_text name @ [NUL]) (text_create 0 (length (unit_text name))) EOK =
      Defined (Some \<lparr> svc_name = name, svc_unit = u, svc_settings = settings_of (unit_values name) \<rparr>, e)"
    using unit_file_service [OF alist_table.hash_table_axioms _ u(1) refl, of EOK] valid u(2) by auto
  have found: "systemd_find_service (os_stat two_services) '''' name = Inr (unit_path name)"
    using assms by (auto simp: systemd_find_service_def two_services_def unit_path_def ends_with_def DOT_SERVICE_def systemd_unit_path_def)
  have holds: "os_file two_services (unit_path name) = Inr (unit_text name @ [NUL], text_create 0 (length (unit_text name)))"
    using assms by (auto simp: two_services_def unit_path_def)
  have first: "last_errno stat (unit_path name # paths) (unit_path name) EOK = EOK" for stat paths by (simp add: last_errno_def)
  have path: "map (\<lambda>d. '''' @ d @ ''/'' @ name @ (if ends_with name DOT_SERVICE then [] else DOT_SERVICE)) systemd_unit_path =
      unit_path name # map (\<lambda>d. '''' @ d @ ''/'' @ name @ (if ends_with name DOT_SERVICE then [] else DOT_SERVICE)) (tl systemd_unit_path)"
    using assms by (auto simp: systemd_unit_path_def unit_path_def ends_with_def DOT_SERVICE_def)
  have "service_from_file alist_ops alist_ops alist_ops (os_file two_services) name (unit_path name) EOK =
      Defined (Some \<lparr> svc_name = name, svc_unit = u, svc_settings = settings_of (unit_values name) \<rparr>, e)"
    unfolding service_from_file_def holds sum.case prod.case using e assms by (auto simp: text_create_def unit_text_def)
  then have "systemd_load_service alist_ops alist_ops alist_ops (os_stat two_services) (os_file two_services) '''' name EOK =
      Defined (Some \<lparr> svc_name = name, svc_unit = u, svc_settings = settings_of (unit_values name) \<rparr>, e)"
    unfolding systemd_load_service_def load_found_def found path first sum.case .
  then show ?thesis using that valid u(2) by (simp add: service_find_def)
qed

text \<open>The world that the program makes of it, with the template of the environment.\<close>

definition template_env :: "(string \<times> pair) list" where
  "template_env = [(''PATH'', pair_create ''PATH'' PATH_STDPATH)]"

definition two_world :: "((string \<times> (string \<times> pair) list unit_section) list, (string \<times> pair) list, string list) world" where
  "two_world = sysvrun_world alist_ops alist_ops alist_ops alist_ops (initial_options template_env) ''/usr/bin'' two_services"

definition two_surroundings :: "(string \<times> pair) list surroundings" where
  "two_surroundings = example_surroundings\<lparr> sv_Denv := template_env, sv_Ulist := [], sv_root := '''', sv_self_dir := ''/usr/bin'' \<rparr>"

lemma two_commands:
  assumes "name \<in> {''web'', ''db''}"
  shows "\<exists>cmd. command_from_values alist_ops alist_ops two_surroundings (unit_values name ''Service'') ''ExecStart'' = Defined (Inr cmd)"
proof -
  have "case command_from_values alist_ops alist_ops two_surroundings (unit_values ''web'' ''Service'') ''ExecStart'' of
      Defined (Inr cmd) \<Rightarrow> True | _ \<Rightarrow> False" by code_simp
  moreover have "case command_from_values alist_ops alist_ops two_surroundings (unit_values ''db'' ''Service'') ''ExecStart'' of
      Defined (Inr cmd) \<Rightarrow> True | _ \<Rightarrow> False" by code_simp
  ultimately show ?thesis using assms by (auto split: outcome.splits sum.splits)
qed

lemma two_monitored: "command_monitor False example_run_calls (\<lambda>pid. Some 0) \<lparr> b_ready = True, b_return = None \<rparr> = 100"
  by code_simp

lemma two_world_operations:
  "wd_find two_world name w = service_find alist_ops alist_ops alist_ops (os_stat two_services) (os_file two_services) '''' name EOK"
  "wd_client two_world name w = (if name \<in> set w then example_client else example_client\<lparr> c_connect := Some ECONNREFUSED \<rparr>, w)"
  "wd_monitor two_world svc cmd w = (100, svc_name svc # w)"
  "wd_command two_world svc key w =
     command_from_values alist_ops alist_ops two_surroundings (unit_get_value alist_ops alist_ops (svc_unit svc) ''Service'') key"
  using two_monitored
  by (simp_all add: two_world_def sysvrun_world_def two_services_def no_services_def initial_options_def command_from_service_def two_surroundings_def)

lemma two_world_responds:
  assumes "\<And>name. name \<in> {''web'', ''db''} \<Longrightarrow>
      \<exists>e. service_find alist_ops alist_ops alist_ops (os_stat two_services) (os_file two_services) '''' name EOK = Defined (Some (svc name), e)"
    and "\<And>name. name \<in> {''web'', ''db''} \<Longrightarrow> svc_name (svc name) = name \<and> unit_get_value alist_ops alist_ops (svc_unit (svc name)) = unit_values name"
  shows "responds two_world (\<lambda>name. if name \<in> {''web'', ''db''} then Some (svc name) else None) (\<lambda>w name. name \<in> set w)"
  unfolding responds_def two_world_operations
proof (intro allI impI conjI)
  fix name s
  assume "(if name \<in> {''web'', ''db''} then Some (svc name) else None) = Some s"
  then have name: "name \<in> {''web'', ''db''}" and s: "s = svc name" by (auto split: if_splits)
  show "svc_name s = name" using assms(2) [OF name] s by simp
  show "\<exists>e. service_find alist_ops alist_ops alist_ops (os_stat two_services) (os_file two_services) '''' name EOK = Defined (Some s, e)"
    using assms(1) [OF name] s by simp
  show "\<exists>k e. (if name \<in> set w then example_client else example_client\<lparr>c_connect := Some ECONNREFUSED\<rparr>, w) = (k, w) \<and>
      monitor_control_get_state k = Defined (if name \<in> set w then MS_RUNNING else MS_STOPPED, e)" for w
    using example_states by simp
  show "\<exists>cmd. command_from_values alist_ops alist_ops two_surroundings (unit_get_value alist_ops alist_ops (svc_unit s) ''Service'') ''ExecStart'' =
      Defined (Inr cmd)"
    using two_commands [OF name] assms(2) [OF name] s by simp
  show "\<exists>pid w'. (100 :: int, svc_name s # w) = (pid, w') \<and> 0 < pid \<and> (\<lambda>name. name \<in> set w') = (\<lambda>name. name \<in> set w)(name := True)" for w
    using assms(2) [OF name] s by (auto simp: fun_eq_iff)
qed


end
